(* ===== verification/Prelude.thy ===== *)
theory Prelude
  imports Complex_Main "HOL-Library.Char_ord" "HOL-Library.List_Lexorder" "HOL-Library.Signed_Division"
begin

text \<open>
  Shared vocabulary of the development: the outcome of running a C++ function, the part of
  \<open>std::string\<close>, \<open>std::stringstream\<close> and \<open>std::stoi\<close> the daemon uses, the width of \<open>int\<close>,
  C strings, and the generic lemmas the component theories rest on.

  A C++ \<open>int\<close> is a HOL \<open>int\<close> with the bound \<open>INT_MAX\<close> written out where the code can pass it:
  signed overflow is undefined behaviour, so it is an outcome of its own and never a
  wrapped value. A \<open>std::string\<close> is a \<open>string\<close>, one \<open>char\<close> per byte.
\<close>

section \<open>Collections of rewrite rules\<close>

named_theorems cxx_simps \<open>sequencing of C++ outcomes\<close>
named_theorems str_simps \<open>evaluation of the string library\<close>

section \<open>Outcomes of C++ code\<close>

text \<open>
  \<open>Ret\<close>: normal return. \<open>Throw\<close>: a \<open>std::exception\<close> with its \<open>what()\<close> text leaves the function.
  \<open>Undefined\<close>: the execution runs into undefined behaviour (a signed overflow).
  \<open>Terminate\<close>: \<open>std::terminate\<close> is called and the process dies.
\<close>

datatype 'a cxx = Ret 'a | Throw string | Undefined | Terminate

fun cxx_bind :: "'a cxx \<Rightarrow> ('a \<Rightarrow> 'b cxx) \<Rightarrow> 'b cxx" where
  "cxx_bind (Ret x) f = f x"
| "cxx_bind (Throw e) f = Throw e"
| "cxx_bind Undefined f = Undefined"
| "cxx_bind Terminate f = Terminate"

declare cxx_bind.simps [cxx_simps]

lemma cxx_bind_Ret_iff [cxx_simps]:
  "cxx_bind m f = Ret y \<longleftrightarrow> (\<exists>x. m = Ret x \<and> f x = Ret y)"
  by (cases m) auto

lemma cxx_bind_assoc: "cxx_bind (cxx_bind m f) g = cxx_bind m (\<lambda>x. cxx_bind (f x) g)"
  by (cases m) auto

text \<open>The code raises nothing: it returns, or has undefined behaviour.\<close>

definition no_throw :: "'a cxx \<Rightarrow> bool" where
  "no_throw r \<longleftrightarrow> r = Undefined \<or> (\<exists>x. r = Ret x)"

lemma no_throw_simps [simp]: "no_throw (Ret x)" "no_throw Undefined" "\<not> no_throw (Throw e)" "\<not> no_throw Terminate"
  by (simp_all add: no_throw_def)

lemma no_throw_bind [intro]: "no_throw m \<Longrightarrow> (\<And>x. no_throw (f x)) \<Longrightarrow> no_throw (cxx_bind m f)"
  by (cases m) simp_all

section \<open>Machine integers\<close>

definition INT_MAX :: int where "INT_MAX = 2147483647"
definition INT_MIN :: int where "INT_MIN = - 2147483648"

definition is_int32 :: "int \<Rightarrow> bool" where
  "is_int32 n \<longleftrightarrow> INT_MIN \<le> n \<and> n \<le> INT_MAX"

text \<open>C++20 conversion of an integer to a 32-bit signed \<open>int\<close>: reduction modulo \<open>2 ^ 32\<close>.\<close>

definition to_int32 :: "int \<Rightarrow> int" where
  "to_int32 n = (n + 2147483648) mod 4294967296 - 2147483648"

lemma to_int32_id: "is_int32 n \<Longrightarrow> to_int32 n = n"
  by (simp add: to_int32_def is_int32_def INT_MAX_def INT_MIN_def)

lemma to_int32_range: "is_int32 (to_int32 n)"
  by (simp add: to_int32_def is_int32_def INT_MAX_def INT_MIN_def)

section \<open>Characters and strings\<close>

lemma disjoint_imageI: "(\<And>y. y \<in> B \<Longrightarrow> g y \<notin> A) \<Longrightarrow> A \<inter> g ` B = {}"
  by blast

lemma dropWhile_hd_id: "s = [] \<or> \<not> P (hd s) \<Longrightarrow> dropWhile P s = s"
  by (cases s) auto

lemma takeWhile_stop:
  "(\<forall>x \<in> set xs. P x) \<Longrightarrow> ys = [] \<or> \<not> P (hd ys) \<Longrightarrow> takeWhile P (xs @ ys) = xs"
  by (cases ys) (auto simp: takeWhile_append)

definition code_of :: "char \<Rightarrow> nat" where
  "code_of c = of_char c"

definition isdigit :: "char \<Rightarrow> bool" where
  "isdigit c \<longleftrightarrow> 48 \<le> code_of c \<and> code_of c \<le> 57"

text \<open>\<open>std::isspace\<close> in the C locale: space, tab, newline, vertical tab, form feed, return.\<close>

definition isspace :: "char \<Rightarrow> bool" where
  "isspace c \<longleftrightarrow> code_of c = 32 \<or> (9 \<le> code_of c \<and> code_of c \<le> 13)"

text \<open>Repeated \<open>ss >> p\<close> on a string stream: the maximal runs of non-space characters.\<close>

function ws_tokens :: "string \<Rightarrow> string list" where
  "ws_tokens s =
     (let t = dropWhile isspace s
      in if t = [] then []
         else takeWhile (\<lambda>c. \<not> isspace c) t # ws_tokens (dropWhile (\<lambda>c. \<not> isspace c) t))"
  by pat_completeness auto
termination
proof (relation "measure length", goal_cases)
  case 1
  then show ?case by simp
next
  case (2 s t)
  have "\<not> isspace (hd t)"
    using 2 hd_dropWhile [of isspace s] by simp
  then have "length (dropWhile (\<lambda>c. \<not> isspace c) t) < length t"
    using 2(2) by (cases t) (simp_all add: less_Suc_eq_le length_dropWhile_le)
  moreover have "length t \<le> length s"
    using 2(1) by (simp add: length_dropWhile_le)
  ultimately show ?case by simp
qed

declare ws_tokens.simps [simp del]

text \<open>
  Repeated \<open>std::getline(ss, token, d)\<close>: the pieces between delimiters. Nothing is read after a
  final delimiter, so \<open>1,2,\<close> has two pieces, and the empty string has none.
\<close>

function getline_split :: "char \<Rightarrow> string \<Rightarrow> string list" where
  "getline_split d s =
     (if s = [] then []
      else takeWhile (\<lambda>c. c \<noteq> d) s # getline_split d (tl (dropWhile (\<lambda>c. c \<noteq> d) s)))"
  by pat_completeness auto
termination
proof (relation "measure (\<lambda>(d, s). length s)", goal_cases)
  case 1
  then show ?case by simp
next
  case (2 d s)
  have "length (dropWhile (\<lambda>c. c \<noteq> d) s) \<le> length s"
    by (rule length_dropWhile_le)
  with 2 show ?case by (cases s) auto
qed

declare getline_split.simps [simp del]

lemma getline_split_Nil [simp]: "getline_split d [] = []"
  by (subst getline_split.simps) simp

lemma getline_split_single: "s \<noteq> [] \<Longrightarrow> d \<notin> set s \<Longrightarrow> getline_split d s = [s]"
proof -
  assume "s \<noteq> []" "d \<notin> set s"
  then have "takeWhile (\<lambda>c. c \<noteq> d) s = s" "dropWhile (\<lambda>c. c \<noteq> d) s = []"
    by (auto simp: takeWhile_eq_all_conv dropWhile_eq_Nil_conv)
  with \<open>s \<noteq> []\<close> show ?thesis
    by (metis getline_split.simps getline_split_Nil list.sel(2))
qed

lemma getline_split_append:
  assumes "d \<notin> set s"
  shows "getline_split d (s @ d # t) = s # getline_split d t"
proof -
  have "takeWhile (\<lambda>c. c \<noteq> d) (s @ d # t) = s"
    using assms by (intro takeWhile_stop) auto
  moreover have "dropWhile (\<lambda>c. c \<noteq> d) (s @ d # t) = d # t"
    using assms by (induction s) auto
  ultimately show ?thesis by (subst getline_split.simps) simp
qed

text \<open>\<open>s.find(c)\<close>: the position of the first occurrence.\<close>

fun find_char :: "char \<Rightarrow> string \<Rightarrow> nat option" where
  "find_char c [] = None"
| "find_char c (x # xs) = (if x = c then Some 0 else map_option Suc (find_char c xs))"

lemma find_char_None_iff: "find_char c s = None \<longleftrightarrow> c \<notin> set s"
  by (induction s) auto

lemma find_char_append: "c \<notin> set s \<Longrightarrow> find_char c (s @ c # t) = Some (length s)"
  by (induction s) auto

text \<open>\<open>c_str()\<close> handed to a C API: the bytes up to the first NUL.\<close>

definition c_str :: "string \<Rightarrow> string" where
  "c_str s = takeWhile (\<lambda>c. code_of c \<noteq> 0) s"

definition nul_free :: "string \<Rightarrow> bool" where
  "nul_free s \<longleftrightarrow> (\<forall>c \<in> set s. code_of c \<noteq> 0)"

lemma c_str_id [simp]: "nul_free s \<Longrightarrow> c_str s = s"
  by (simp add: c_str_def nul_free_def takeWhile_eq_all_conv)

lemma nul_free_c_str [simp]: "nul_free (c_str s)"
  by (auto simp: c_str_def nul_free_def dest: set_takeWhileD)

lemma c_str_idem [simp]: "c_str (c_str s) = c_str s"
  by simp

text \<open>A string in single quotes, as the error messages print names.\<close>

definition quoted :: "string \<Rightarrow> string" where
  "quoted s = [CHR 0x27] @ s @ [CHR 0x27]"

section \<open>Decimal numbers\<close>

definition digit_char :: "nat \<Rightarrow> char" where
  "digit_char d = ''0123456789'' ! d"

fun dec_digits :: "int \<Rightarrow> string" where
  "dec_digits n =
     (if n < 10 then [digit_char (nat n)] else dec_digits (n div 10) @ [digit_char (nat (n mod 10))])"

declare dec_digits.simps [simp del]

text \<open>\<open>std::to_string\<close> on integers.\<close>

definition to_string :: "int \<Rightarrow> string" where
  "to_string n = (if n < 0 then CHR ''-'' # dec_digits (- n) else dec_digits n)"

definition digit_val :: "char \<Rightarrow> int" where
  "digit_val c = int (code_of c) - 48"

definition dec_val :: "string \<Rightarrow> int" where
  "dec_val ds = foldl (\<lambda>n c. 10 * n + digit_val c) 0 ds"

text \<open>
  The common part of \<open>strtol\<close> and \<open>std::stoi\<close> in base 10: leading white space is skipped, one
  sign is allowed, the longest run of digits is the number and whatever follows is ignored.
  \<open>None\<close> when there is no digit.
\<close>

definition scan_decimal :: "string \<Rightarrow> int option" where
  "scan_decimal s =
     (let t = dropWhile isspace s;
          neg = (t \<noteq> [] \<and> hd t = CHR ''-'');
          u = (if t \<noteq> [] \<and> (hd t = CHR ''-'' \<or> hd t = CHR ''+'') then tl t else t);
          ds = takeWhile isdigit u
      in if ds = [] then None else Some (if neg then - dec_val ds else dec_val ds))"

text \<open>\<open>std::stoi\<close>; \<open>None\<close> when it throws \<open>invalid_argument\<close> or \<open>out_of_range\<close>.\<close>

definition stoi :: "string \<Rightarrow> int option" where
  "stoi s = (case scan_decimal s of
               None \<Rightarrow> None
             | Some n \<Rightarrow> if is_int32 n then Some n else None)"

definition LONG_MAX :: int where "LONG_MAX = 9223372036854775807"
definition LONG_MIN :: int where "LONG_MIN = - 9223372036854775808"

text \<open>\<open>strtol\<close> in base 10: 0 when there is no number, and saturating at the bounds of \<open>long\<close>.\<close>

definition strtol :: "string \<Rightarrow> int" where
  "strtol s = (case scan_decimal (c_str s) of
                 None \<Rightarrow> 0
               | Some n \<Rightarrow> if n > LONG_MAX then LONG_MAX else if n < LONG_MIN then LONG_MIN else n)"

lemma digit_cases: "d < 10 \<Longrightarrow> d \<in> {0, 1, 2, 3, 4, 5, 6, 7, 8, 9::nat}"
  by auto

lemma digit_char_props:
  assumes "d < 10"
  shows "isdigit (digit_char d)" "digit_val (digit_char d) = int d"
    "\<not> isspace (digit_char d)" "code_of (digit_char d) = 48 + d"
  using digit_cases [OF assms]
  by (auto simp: digit_char_def isdigit_def digit_val_def isspace_def code_of_def)

lemma dec_val_snoc: "dec_val (ds @ [c]) = 10 * dec_val ds + digit_val c"
  by (simp add: dec_val_def)

lemma dec_digits_props:
  "0 \<le> n \<Longrightarrow> dec_digits n \<noteq> [] \<and> (\<forall>c \<in> set (dec_digits n). isdigit c \<and> \<not> isspace c) \<and>
   dec_val (dec_digits n) = n"
proof (induction n rule: dec_digits.induct)
  case (1 n)
  show ?case
  proof (cases "n < 10")
    case True
    with "1.prems" show ?thesis
      by (simp add: dec_digits.simps [of n] digit_char_props dec_val_def)
  next
    case False
    moreover have "nat (n mod 10) < 10" by simp
    ultimately show ?thesis using "1.IH"
      by (auto simp: dec_digits.simps [of n] digit_char_props dec_val_snoc)
  qed
qed

lemma isdigit_not_sign: "isdigit c \<Longrightarrow> c \<noteq> CHR ''-'' \<and> c \<noteq> CHR ''+''"
  by (auto simp: isdigit_def code_of_def)

lemma isdigit_not_space: "isdigit c \<Longrightarrow> \<not> isspace c"
  by (auto simp: isdigit_def isspace_def)

text \<open>A decimal numeral followed by anything that is not a digit reads back as the number.\<close>

lemma scan_decimal_digits:
  assumes "ds \<noteq> []" "\<forall>c \<in> set ds. isdigit c" "rest = [] \<or> \<not> isdigit (hd rest)"
  shows "scan_decimal (ds @ rest) = Some (dec_val ds)"
proof -
  have hd: "isdigit (hd (ds @ rest))" using assms(1,2) by (simp add: hd_append)
  have d: "dropWhile isspace (ds @ rest) = ds @ rest"
    using hd by (intro dropWhile_hd_id) (simp add: isdigit_not_space)
  have t: "takeWhile isdigit (ds @ rest) = ds"
    using assms(2,3) by (rule takeWhile_stop)
  show ?thesis
    using isdigit_not_sign [OF hd] assms(1) by (simp add: scan_decimal_def d t)
qed

lemma scan_decimal_neg:
  assumes "ds \<noteq> []" "\<forall>c \<in> set ds. isdigit c" "rest = [] \<or> \<not> isdigit (hd rest)"
  shows "scan_decimal (CHR ''-'' # ds @ rest) = Some (- dec_val ds)"
  using assms takeWhile_stop [OF assms(2,3)]
  by (simp add: scan_decimal_def isspace_def code_of_def)

theorem stoi_to_string:
  assumes "is_int32 n" "rest = [] \<or> \<not> isdigit (hd rest)"
  shows "stoi (to_string n @ rest) = Some n"
proof -
  have "scan_decimal (to_string n @ rest) = Some n"
    using dec_digits_props [of n] dec_digits_props [of "- n"] assms(2)
    by (auto simp: to_string_def scan_decimal_digits scan_decimal_neg)
  with assms(1) show ?thesis by (simp add: stoi_def)
qed

lemma scan_decimal_to_string: "scan_decimal (to_string n) = Some n"
  using scan_decimal_digits [of "dec_digits n" "[]"] scan_decimal_neg [of "dec_digits (- n)" "[]"]
    dec_digits_props [of n] dec_digits_props [of "- n"]
  by (auto simp: to_string_def)

lemma isdigit_not_nul: "isdigit c \<Longrightarrow> 0 < code_of c"
  by (simp add: isdigit_def)

lemma to_string_nul_free: "nul_free (to_string n)"
proof -
  have "0 < code_of CHR ''-''" by (simp add: code_of_def)
  then show ?thesis
    using dec_digits_props [of n] dec_digits_props [of "- n"]
    by (auto simp: to_string_def nul_free_def intro: isdigit_not_nul)
qed

lemma strtol_to_string: "LONG_MIN \<le> n \<Longrightarrow> n \<le> LONG_MAX \<Longrightarrow> strtol (to_string n) = n"
  by (simp add: strtol_def to_string_nul_free scan_decimal_to_string)

section \<open>Machines that emit events\<close>

text \<open>Run a step function over a list of inputs, collecting what each step emits.\<close>

fun run_steps :: "('i \<Rightarrow> 's \<Rightarrow> 's \<times> 'e list) \<Rightarrow> 'i list \<Rightarrow> 's \<Rightarrow> 's \<times> 'e list" where
  "run_steps step [] s = (s, [])"
| "run_steps step (x # xs) s =
     (let (s1, evs) = step x s; (s2, evs') = run_steps step xs s1 in (s2, evs @ evs'))"

lemma run_steps_Cons [simp]:
  "fst (run_steps step (x # xs) s) = fst (run_steps step xs (fst (step x s)))"
  "snd (run_steps step (x # xs) s) = snd (step x s) @ snd (run_steps step xs (fst (step x s)))"
  by (simp_all add: Let_def split: prod.splits)

lemma run_steps_append:
  "run_steps step (xs @ ys) s =
     (let (s1, evs) = run_steps step xs s; (s2, evs') = run_steps step ys s1 in (s2, evs @ evs'))"
  by (induction xs arbitrary: s) (auto simp: Let_def split: prod.splits)

lemma run_steps_snoc:
  "fst (run_steps step (xs @ [x]) s) = fst (step x (fst (run_steps step xs s)))"
  "snd (run_steps step (xs @ [x]) s) =
     snd (run_steps step xs s) @ snd (step x (fst (run_steps step xs s)))"
  by (simp_all add: run_steps_append Let_def split: prod.splits)

declare run_steps.simps(2) [simp del]

section \<open>Floating point\<close>

text \<open>
  The values of a C++ \<open>double\<close>: the finite ones are real numbers (both zeros are \<open>Fin 0\<close>, which
  no comparison tells apart). Comparisons are those of IEEE 754: every comparison with \<open>NaN\<close>
  is false.
\<close>

datatype double = NaN | NegInf | Fin real | PosInf

fun dbl_less :: "double \<Rightarrow> double \<Rightarrow> bool" where
  "dbl_less NaN y = False"
| "dbl_less x NaN = False"
| "dbl_less NegInf y = (y \<noteq> NegInf)"
| "dbl_less x NegInf = False"
| "dbl_less PosInf y = False"
| "dbl_less x PosInf = True"
| "dbl_less (Fin a) (Fin b) = (a < b)"

definition dbl_eq :: "double \<Rightarrow> double \<Rightarrow> bool" where
  "dbl_eq x y \<longleftrightarrow> x = y \<and> x \<noteq> NaN"

definition dbl_le :: "double \<Rightarrow> double \<Rightarrow> bool" where
  "dbl_le x y \<longleftrightarrow> dbl_less x y \<or> dbl_eq x y"

lemma dbl_less_NaN [simp]: "\<not> dbl_less x NaN" "\<not> dbl_less NaN x" "\<not> dbl_le x NaN" "\<not> dbl_le NaN x"
  by (cases x; simp add: dbl_le_def dbl_eq_def)+

lemma dbl_trichotomy:
  assumes "x \<noteq> NaN" "y \<noteq> NaN"
  shows "dbl_less x y \<longleftrightarrow> \<not> dbl_le y x"
  using assms by (cases x; cases y) (auto simp: dbl_le_def dbl_eq_def)

end
