(* ===== verification/Cron.thy ===== *)
theory Cron
  imports Prelude
begin

text \<open>
  The cron expressions of \<open>daemon/src/schedule/cron.hpp\<close> and \<open>cron.cpp\<close>: the parser of the five
  fields, the match of a broken-down local time, and the two searches over minutes. The
  conversion \<open>localtime_r\<close> depends on the time zone of the machine and is a parameter
  \<open>lt\<close> of the searches. \<open>v += step\<close> in the parser is a signed addition, so the model
  distinguishes its overflow (\<open>Undefined\<close>) from a rejected expression (\<open>Ret None\<close>).
\<close>

section \<open>Data\<close>

record FieldRange =
  fr_lo :: int
  fr_hi :: int

record CronSchedule =
  cs_fields :: "int set list"   \<comment> \<open>minute, hour, day of month, month, day of week\<close>
  dom_wildcard :: bool
  dow_wildcard :: bool

record tm =
  tm_min :: int
  tm_hour :: int
  tm_mday :: int
  tm_mon :: int
  tm_wday :: int

definition kRanges :: "FieldRange list" where
  "kRanges = [\<lparr>fr_lo = 0, fr_hi = 59\<rparr>, \<lparr>fr_lo = 0, fr_hi = 23\<rparr>, \<lparr>fr_lo = 1, fr_hi = 31\<rparr>,
              \<lparr>fr_lo = 1, fr_hi = 12\<rparr>, \<lparr>fr_lo = 0, fr_hi = 7\<rparr>]"

section \<open>The parser\<close>

text \<open>\<open>for (int v = lo; v <= hi; v += step) out.insert(v);\<close> The caller has checked \<open>step > 0\<close>.\<close>

function insert_range :: "int \<Rightarrow> int \<Rightarrow> int \<Rightarrow> int set \<Rightarrow> int set cxx" where
  "insert_range v hi step out =
     (if v \<le> hi \<and> 0 < step
      then if v + step > INT_MAX then Undefined
           else insert_range (v + step) hi step (insert v out)
      else Ret out)"
  by pat_completeness auto
termination
  by (relation "measure (\<lambda>(v, hi, step, out). nat (hi + 1 - v))") auto

declare insert_range.simps [simp del]

text \<open>The part of a token before \<open>/\<close> and the step after it; \<open>None\<close> rejects the token.\<close>

definition token_step :: "string \<Rightarrow> (string \<times> int) option" where
  "token_step token =
     (case find_char (CHR ''/'') token of
        None \<Rightarrow> Some (token, 1)
      | Some slash \<Rightarrow>
          (case stoi (drop (slash + 1) token) of
             None \<Rightarrow> None
           | Some step \<Rightarrow> if step \<le> 0 then None else Some (take slash token, step)))"

text \<open>The bounds a token denotes: the whole range, \<open>a-b\<close>, or one value.\<close>

definition token_bounds :: "string \<Rightarrow> FieldRange \<Rightarrow> (int \<times> int) option" where
  "token_bounds base rng =
     (if base = ''*'' then Some (fr_lo rng, fr_hi rng)
      else case find_char (CHR ''-'') base of
             Some dash \<Rightarrow>
               (case (stoi (take dash base), stoi (drop (dash + 1) base)) of
                  (Some lo, Some hi) \<Rightarrow> Some (lo, hi)
                | _ \<Rightarrow> None)
           | None \<Rightarrow> (case stoi base of None \<Rightarrow> None | Some n \<Rightarrow> Some (n, n)))"

text \<open>One round of the \<open>while\<close> loop over the tokens.\<close>

definition parse_token :: "string \<Rightarrow> FieldRange \<Rightarrow> int set \<Rightarrow> int set option cxx" where
  "parse_token token rng out =
     (if token = [] then Ret None
      else case token_step token of
             None \<Rightarrow> Ret None
           | Some (base, step) \<Rightarrow>
               (case token_bounds base rng of
                  None \<Rightarrow> Ret None
                | Some (lo, hi) \<Rightarrow>
                    if lo < fr_lo rng \<or> hi > fr_hi rng \<or> lo > hi then Ret None
                    else cxx_bind (insert_range lo hi step out) (\<lambda>s. Ret (Some s))))"

fun parse_tokens :: "string list \<Rightarrow> FieldRange \<Rightarrow> int set \<Rightarrow> int set option cxx" where
  "parse_tokens [] rng out = Ret (Some out)"
| "parse_tokens (token # tokens) rng out =
     cxx_bind (parse_token token rng out)
       (\<lambda>r. case r of None \<Rightarrow> Ret None | Some out' \<Rightarrow> parse_tokens tokens rng out')"

text \<open>\<open>parse_field\<close>: the set of the field and whether it was exactly \<open>*\<close>.\<close>

definition parse_field :: "string \<Rightarrow> FieldRange \<Rightarrow> (int set \<times> bool) option cxx" where
  "parse_field field rng =
     cxx_bind (parse_tokens (getline_split (CHR '','') field) rng {})
       (\<lambda>r. case r of
              None \<Rightarrow> Ret None
            | Some out \<Rightarrow> if out = {} then Ret None else Ret (Some (out, field = ''*'')))"

text \<open>The loop over the five fields of \<open>CronSchedule::parse\<close>.\<close>

fun parse_fields :: "nat \<Rightarrow> string list \<Rightarrow> CronSchedule \<Rightarrow> CronSchedule option cxx" where
  "parse_fields i [] sched = Ret (Some sched)"
| "parse_fields i (p # ps) sched =
     cxx_bind (parse_field p (kRanges ! i))
       (\<lambda>r. case r of
              None \<Rightarrow> Ret None
            | Some (s, wildcard) \<Rightarrow>
                parse_fields (Suc i) ps
                  (sched\<lparr>cs_fields := (cs_fields sched)[i := s],
                         dom_wildcard := (if i = 2 then wildcard else dom_wildcard sched),
                         dow_wildcard := (if i = 4 then wildcard else dow_wildcard sched)\<rparr>))"

definition empty_schedule :: CronSchedule where
  "empty_schedule = \<lparr>cs_fields = [{}, {}, {}, {}, {}], dom_wildcard = True, dow_wildcard = True\<rparr>"

text \<open>Sunday may be written 7; \<open>tm_wday\<close> calls it 0.\<close>

definition normalize_sunday :: "CronSchedule \<Rightarrow> CronSchedule" where
  "normalize_sunday sched =
     (if 7 \<in> cs_fields sched ! 4
      then sched\<lparr>cs_fields := (cs_fields sched)[4 := insert 0 (cs_fields sched ! 4)]\<rparr>
      else sched)"

definition parse :: "string \<Rightarrow> CronSchedule option cxx" where
  "parse expr =
     (let parts = ws_tokens expr
      in if length parts \<noteq> 5 then Ret None
         else cxx_bind (parse_fields 0 parts empty_schedule)
                (\<lambda>r. Ret (map_option normalize_sunday r)))"

section \<open>Matching and searching\<close>

definition matches :: "CronSchedule \<Rightarrow> tm \<Rightarrow> bool" where
  "matches s t =
     (if tm_min t \<notin> cs_fields s ! 0 then False
      else if tm_hour t \<notin> cs_fields s ! 1 then False
      else if tm_mon t + 1 \<notin> cs_fields s ! 3 then False
      else let dom_ok = tm_mday t \<in> cs_fields s ! 2;
               dow_ok = tm_wday t \<in> cs_fields s ! 4
           in if dom_wildcard s \<and> dow_wildcard s then True
              else if dom_wildcard s then dow_ok
              else if dow_wildcard s then dom_ok
              else dom_ok \<or> dow_ok)"

definition kMaxMinutes :: int where
  "kMaxMinutes = 4 * 366 * 24 * 60"

text \<open>
  The search loop shared by \<open>next_after\<close> (\<open>t += 60\<close>) and \<open>prev_before\<close> (\<open>t -= 60\<close>): \<open>d\<close> is the
  signed stride.
\<close>

function scan_minutes :: "(int \<Rightarrow> tm) \<Rightarrow> CronSchedule \<Rightarrow> int \<Rightarrow> int \<Rightarrow> int \<Rightarrow> int option" where
  "scan_minutes lt s d i t =
     (if i < kMaxMinutes
      then if matches s (lt t) then Some t else scan_minutes lt s d (i + 1) (t + d)
      else None)"
  by pat_completeness auto
termination
  by (relation "measure (\<lambda>(lt, s, d, i, t). nat (kMaxMinutes - i))") auto

declare scan_minutes.simps [simp del]

definition next_after :: "(int \<Rightarrow> tm) \<Rightarrow> CronSchedule \<Rightarrow> int \<Rightarrow> int option" where
  "next_after lt s after = scan_minutes lt s 60 0 (after - (after smod 60) + 60)"

definition prev_before :: "(int \<Rightarrow> tm) \<Rightarrow> CronSchedule \<Rightarrow> int \<Rightarrow> int option" where
  "prev_before lt s tgt = scan_minutes lt s (- 60) 0 (tgt - (tgt smod 60))"

section \<open>The parser: lemmas\<close>

definition range_step :: "int \<Rightarrow> int \<Rightarrow> int \<Rightarrow> int set" where
  "range_step lo hi step = {v. lo \<le> v \<and> v \<le> hi \<and> step dvd (v - lo)}"

lemma range_step_unfold:
  assumes "0 < step"
  shows "range_step lo hi step =
    (if lo \<le> hi then insert lo (range_step (lo + step) hi step) else {})"
proof -
  have "v \<in> range_step lo hi step \<longleftrightarrow> v = lo \<or> v \<in> range_step (lo + step) hi step"
    if "lo \<le> hi" for v
  proof -
    have *: "step dvd (v - lo) \<longleftrightarrow> step dvd (v - (lo + step))"
      using dvd_add_triv_right_iff [of step "v - (lo + step)"] by simp
    have "lo + step \<le> v" if "step dvd (v - lo)" "lo < v"
      using zdvd_imp_le [OF that(1)] that(2) by simp
    with * \<open>lo \<le> hi\<close> assms show ?thesis by (auto simp: range_step_def)
  qed
  then show ?thesis by (auto simp: range_step_def)
qed

lemma insert_range_eq:
  assumes "0 < step" "hi + step \<le> INT_MAX"
  shows "insert_range lo hi step out = Ret (out \<union> range_step lo hi step)"
  using assms
proof (induction lo hi step out rule: insert_range.induct)
  case (1 v hi step out)
  then show ?case
    by (subst insert_range.simps) (auto simp: range_step_unfold [of step v hi])
qed

lemma insert_range_sound:
  assumes "insert_range lo hi step out = Ret out'" "0 < step"
  shows "out' = out \<union> range_step lo hi step"
  using assms
proof (induction lo hi step out rule: insert_range.induct)
  case (1 v hi step out)
  show ?case
  proof (cases "v \<le> hi")
    case True
    with "1.prems" have "\<not> INT_MAX < v + step"
        "insert_range (v + step) hi step (insert v out) = Ret out'"
      by (simp_all add: insert_range.simps [of v hi step out] split: if_splits)
    with True "1.IH" "1.prems"(2) show ?thesis
      by (simp add: range_step_unfold [of step v hi])
  next
    case False
    with "1.prems" show ?thesis
      by (simp add: insert_range.simps [of v hi step out] range_step_unfold [of step v hi])
  qed
qed

lemma insert_range_overflow:
  assumes "lo \<le> hi" "INT_MAX - lo < step" "lo \<le> INT_MAX"
  shows "insert_range lo hi step out = Undefined"
  using assms by (subst insert_range.simps) auto

lemma token_step_pos: "token_step token = Some (base, step) \<Longrightarrow> 0 < step"
  by (auto simp: token_step_def split: option.splits if_splits)

lemma parse_token_sound:
  assumes "parse_token token rng out = Ret (Some out')"
  obtains base lo hi step where "token_step token = Some (base, step)"
    "token_bounds base rng = Some (lo, hi)" "fr_lo rng \<le> lo" "lo \<le> hi" "hi \<le> fr_hi rng"
    "0 < step" "out' = out \<union> range_step lo hi step"
proof -
  from assms obtain base lo hi step where *: "token_step token = Some (base, step)"
      "token_bounds base rng = Some (lo, hi)" "fr_lo rng \<le> lo" "lo \<le> hi" "hi \<le> fr_hi rng"
      "insert_range lo hi step out = Ret out'"
    by (auto simp: parse_token_def cxx_simps split: if_splits option.splits prod.splits)
  with that insert_range_sound token_step_pos show thesis by metis
qed

lemma parse_tokens_sound:
  assumes "parse_tokens tokens rng out = Ret (Some out')"
  shows "out \<subseteq> out' \<and> out' \<subseteq> out \<union> {fr_lo rng..fr_hi rng}"
  using assms
proof (induction tokens arbitrary: out)
  case Nil
  then show ?case by simp
next
  case (Cons token tokens)
  from Cons.prems obtain out1 where p: "parse_token token rng out = Ret (Some out1)"
    and q: "parse_tokens tokens rng out1 = Ret (Some out')"
    by (auto simp: cxx_simps split: option.splits)
  have "out \<subseteq> out1 \<and> out1 \<subseteq> out \<union> {fr_lo rng..fr_hi rng}"
    by (rule parse_token_sound [OF p]) (auto simp: range_step_def)
  with Cons.IH [OF q] show ?case by blast
qed

lemma parse_field_sound:
  assumes "parse_field field rng = Ret (Some (s, w))"
  shows "s \<noteq> {} \<and> s \<subseteq> {fr_lo rng..fr_hi rng} \<and> (w \<longleftrightarrow> field = ''*'')"
proof -
  from assms obtain r where "parse_tokens (getline_split (CHR '','') field) rng {} = Ret r"
      "(case r of None \<Rightarrow> Ret None
        | Some out \<Rightarrow> if out = {} then Ret None else Ret (Some (out, field = ''*''))) = Ret (Some (s, w))"
    by (auto simp only: parse_field_def cxx_bind_Ret_iff)
  then have "parse_tokens (getline_split (CHR '','') field) rng {} = Ret (Some s)" "s \<noteq> {}"
      "w \<longleftrightarrow> field = ''*''"
    by (auto split: option.splits if_splits)
  with parse_tokens_sound [OF this(1)] show ?thesis by blast
qed

section \<open>Well-formed schedules\<close>

text \<open>What a parsed schedule satisfies: five non-empty fields in their ranges, Sunday as 0.\<close>

definition wf_schedule :: "CronSchedule \<Rightarrow> bool" where
  "wf_schedule s \<longleftrightarrow>
     length (cs_fields s) = 5 \<and>
     (\<forall>i < 5. cs_fields s ! i \<noteq> {} \<and>
        cs_fields s ! i \<subseteq> {fr_lo (kRanges ! i)..fr_hi (kRanges ! i)}) \<and>
     (7 \<in> cs_fields s ! 4 \<longrightarrow> 0 \<in> cs_fields s ! 4)"

lemma parse_fields_sound:
  assumes "parse_fields i ps sched = Ret (Some sched')" "length (cs_fields sched) = 5"
    "i + length ps = 5"
    "\<forall>j < i. cs_fields sched ! j \<noteq> {} \<and>
       cs_fields sched ! j \<subseteq> {fr_lo (kRanges ! j)..fr_hi (kRanges ! j)}"
  shows "length (cs_fields sched') = 5 \<and>
    (\<forall>j < 5. cs_fields sched' ! j \<noteq> {} \<and>
       cs_fields sched' ! j \<subseteq> {fr_lo (kRanges ! j)..fr_hi (kRanges ! j)})"
  using assms
proof (induction ps arbitrary: i sched)
  case Nil
  then show ?case by simp
next
  case (Cons p ps)
  from Cons.prems(1) obtain r where r: "parse_field p (kRanges ! i) = Ret r"
    and rest: "(case r of None \<Rightarrow> Ret None | Some (s, wildcard) \<Rightarrow>
        parse_fields (Suc i) ps (sched\<lparr>cs_fields := (cs_fields sched)[i := s],
          dom_wildcard := (if i = 2 then wildcard else dom_wildcard sched),
          dow_wildcard := (if i = 4 then wildcard else dow_wildcard sched)\<rparr>)) = Ret (Some sched')"
    by (auto simp only: parse_fields.simps cxx_bind_Ret_iff)
  from rest obtain s w where "r = Some (s, w)" by (cases r) auto
  note r = r [unfolded this] and rest = rest [unfolded this, simplified]
  show ?case
    using parse_field_sound [OF r] Cons.prems(2-4)
    by (intro Cons.IH [OF rest]) (auto simp: nth_list_update less_Suc_eq)
qed

lemma insert_range_no_throw: "no_throw (insert_range lo hi step out)"
  by (induction lo hi step out rule: insert_range.induct) (subst insert_range.simps, simp)

lemma parse_token_no_throw: "no_throw (parse_token token rng out)"
  by (auto simp: parse_token_def split: option.split prod.split intro!: no_throw_bind insert_range_no_throw)

lemma parse_tokens_no_throw: "no_throw (parse_tokens ts rng out)"
  by (induction ts arbitrary: out) (auto intro!: no_throw_bind parse_token_no_throw split: option.split)

lemma parse_fields_no_throw: "no_throw (parse_fields i ps sched)"
  by (induction i ps sched rule: parse_fields.induct)
     (auto intro!: no_throw_bind parse_tokens_no_throw simp: parse_field_def split: option.split)

text \<open>Every exception of \<open>std::stoi\<close> is caught inside the parser.\<close>

lemma parse_no_throw: "no_throw (parse expr)"
  by (auto simp: parse_def Let_def intro!: no_throw_bind parse_fields_no_throw)

lemma parse_RetE:
  assumes "parse expr = Ret (Some sched)"
  obtains s where "length (ws_tokens expr) = 5"
    "parse_fields 0 (ws_tokens expr) empty_schedule = Ret (Some s)" "sched = normalize_sunday s"
  using assms by (auto simp: parse_def Let_def cxx_simps split: if_splits)

lemma parse_wf: "parse expr = Ret (Some sched) \<Longrightarrow> wf_schedule sched"
proof (erule parse_RetE)
  fix s
  assume len: "length (ws_tokens expr) = 5" and sched: "sched = normalize_sunday s"
    and pf: "parse_fields 0 (ws_tokens expr) empty_schedule = Ret (Some s)"
  have *: "length (cs_fields s) = 5 \<and> (\<forall>j < 5. cs_fields s ! j \<noteq> {} \<and>
      cs_fields s ! j \<subseteq> {fr_lo (kRanges ! j)..fr_hi (kRanges ! j)})"
    using parse_fields_sound [OF pf] len by (simp add: empty_schedule_def)
  then have "cs_fields s ! 4 \<subseteq> {fr_lo (kRanges ! 4)..fr_hi (kRanges ! 4)}" by simp
  then have "cs_fields s ! 4 \<subseteq> {0..7}" by (simp add: kRanges_def)
  with * show "wf_schedule sched"
    by (auto simp: wf_schedule_def sched normalize_sunday_def nth_list_update kRanges_def)
qed

section \<open>The searches: lemmas\<close>

lemma scan_minutes_SomeD:
  "scan_minutes lt s d i t = Some r \<Longrightarrow>
   \<exists>n. r = t + d * int n \<and> i + int n < kMaxMinutes \<and> matches s (lt r) \<and>
     (\<forall>m < n. \<not> matches s (lt (t + d * int m)))"
proof (induction lt s d i t rule: scan_minutes.induct)
  case (1 lt s d i t)
  show ?case
  proof (cases "matches s (lt t)")
    case True
    with "1.prems" have "r = t" "i < kMaxMinutes"
      by (auto simp: scan_minutes.simps [of lt s d i t] split: if_splits)
    with True show ?thesis by (intro exI [of _ 0]) simp
  next
    case False
    with "1.prems" have "i < kMaxMinutes" "scan_minutes lt s d (i + 1) (t + d) = Some r"
      by (auto simp: scan_minutes.simps [of lt s d i t] split: if_splits)
    from "1.IH" [OF this(1) False this(2)] obtain n where
      "r = t + d + d * int n" "i + 1 + int n < kMaxMinutes" "matches s (lt r)"
      "\<forall>m < n. \<not> matches s (lt (t + d + d * int m))" by blast
    with False show ?thesis
      by (intro exI [of _ "Suc n"]) (simp add: All_less_Suc2 algebra_simps)
  qed
qed

lemma scan_minutes_NoneD:
  "scan_minutes lt s d i t = None \<Longrightarrow> i + int n < kMaxMinutes \<Longrightarrow>
   \<not> matches s (lt (t + d * int n))"
proof (induction n arbitrary: i t)
  case 0
  then show ?case by (auto simp: scan_minutes.simps [of lt s d i t] split: if_splits)
next
  case (Suc n)
  from Suc.prems have "scan_minutes lt s d (i + 1) (t + d) = None"
    by (auto simp: scan_minutes.simps [of lt s d i t] split: if_splits)
  from Suc.IH [OF this] Suc.prems(2) show ?case by (simp add: algebra_simps)
qed

lemma scan_minutes_hit:
  assumes "i + int n < kMaxMinutes" "matches s (lt (t + d * int n))"
    "\<forall>m < n. \<not> matches s (lt (t + d * int m))"
  shows "scan_minutes lt s d i t = Some (t + d * int n)"
proof (cases "scan_minutes lt s d i t")
  case None
  with scan_minutes_NoneD assms(1,2) show ?thesis by blast
next
  case (Some r)
  from scan_minutes_SomeD [OF this] obtain k where k: "r = t + d * int k" "matches s (lt r)"
    "\<forall>m < k. \<not> matches s (lt (t + d * int m))" by blast
  then have "k = n" using assms(2,3) by (metis linorder_neqE_nat)
  with k(1) Some show ?thesis by simp
qed

text \<open>Both searches as statements about minute-aligned times.\<close>

lemma minute_floor:
  assumes "0 \<le> (a::int)"
  shows "a - a smod 60 = 60 * (a div 60)"
  using assms
  by (cases "a = 0")
     (simp_all add: signed_modulo_int_def signed_divide_int_def minus_mod_eq_mult_div)

lemma minute_bounds: "60 * (a div 60) \<le> (a::int)" "a < 60 * (a div 60) + 60"
  using div_mult_mod_eq [of a 60] pos_mod_bound [of 60 a] pos_mod_sign [of 60 a] by linarith+

lemma minute_alignedE:
  assumes "u mod 60 = (0::int)"
  obtains c where "u = 60 * c"
  using assms by (metis mod_0_imp_dvd dvdE)

lemma next_after_SomeD:
  assumes "0 \<le> after" "next_after lt s after = Some t"
  shows "t mod 60 = 0" "after < t" "t < 60 * (after div 60 + 1) + 60 * kMaxMinutes"
    "matches s (lt t)" "\<And>u. u mod 60 = 0 \<Longrightarrow> after < u \<Longrightarrow> u < t \<Longrightarrow> \<not> matches s (lt u)"
proof -
  define q where "q = after div 60 + 1"
  have q: "after - after smod 60 + 60 = 60 * q" "after < 60 * q" "60 * q \<le> after + 60"
    using minute_floor [OF assms(1)] minute_bounds [of after] by (simp_all add: q_def)
  with assms(2) scan_minutes_SomeD [of lt s 60 0 "60 * q" t]
  obtain n where n: "t = 60 * q + 60 * int n" "int n < kMaxMinutes"
      "matches s (lt t)" "\<And>m. m < n \<Longrightarrow> \<not> matches s (lt (60 * q + 60 * int m))"
    by (auto simp: next_after_def)
  show "t mod 60 = 0" "after < t" "t < 60 * (after div 60 + 1) + 60 * kMaxMinutes" "matches s (lt t)"
    using n q by (auto simp flip: q_def)
  fix u
  assume u: "u mod 60 = 0" "after < u" "u < t"
  from u(1) obtain c where c: "u = 60 * c" by (rule minute_alignedE)
  have "q \<le> c" using u(2) q(3) c by linarith
  moreover from this have "nat (c - q) < n" using u(3) n(1) c by linarith
  ultimately show "\<not> matches s (lt u)" using n(4) [of "nat (c - q)"] c by simp
qed

lemma prev_before_SomeD:
  assumes "0 \<le> tgt" "prev_before lt s tgt = Some t"
  shows "t mod 60 = 0" "t \<le> tgt" "60 * (tgt div 60) - 60 * kMaxMinutes < t"
    "matches s (lt t)" "\<And>u. u mod 60 = 0 \<Longrightarrow> t < u \<Longrightarrow> u \<le> tgt \<Longrightarrow> \<not> matches s (lt u)"
proof -
  define q where "q = tgt div 60"
  have q: "tgt - tgt smod 60 = 60 * q" "60 * q \<le> tgt" "tgt < 60 * q + 60"
    using minute_floor [OF assms(1)] minute_bounds [of tgt] by (simp_all add: q_def)
  with assms(2) scan_minutes_SomeD [of lt s "- 60" 0 "60 * q" t]
  obtain n where n: "t = 60 * q - 60 * int n" "int n < kMaxMinutes"
      "matches s (lt t)" "\<And>m. m < n \<Longrightarrow> \<not> matches s (lt (60 * q - 60 * int m))"
    by (auto simp: prev_before_def)
  show "t mod 60 = 0" "t \<le> tgt" "60 * (tgt div 60) - 60 * kMaxMinutes < t" "matches s (lt t)"
    using n q by (auto simp flip: q_def)
  fix u
  assume u: "u mod 60 = 0" "t < u" "u \<le> tgt"
  from u(1) obtain c where c: "u = 60 * c" by (rule minute_alignedE)
  have "c \<le> q" using u(3) q(3) c by linarith
  moreover from this have "nat (q - c) < n" using u(2) n(1) c by linarith
  ultimately show "\<not> matches s (lt u)" using n(4) [of "nat (q - c)"] c by simp
qed

lemma next_after_NoneD:
  assumes "0 \<le> after" "next_after lt s after = None" "u mod 60 = 0" "after < u"
    "u < 60 * (after div 60 + 1) + 60 * kMaxMinutes"
  shows "\<not> matches s (lt u)"
proof -
  define q where "q = after div 60 + 1"
  have q: "after - after smod 60 + 60 = 60 * q" "60 * q \<le> after + 60"
    using minute_floor [OF assms(1)] minute_bounds [of after] by (simp_all add: q_def)
  from assms(3) obtain c where c: "u = 60 * c" by (rule minute_alignedE)
  have "q \<le> c" "int (nat (c - q)) < kMaxMinutes"
    using assms(4,5) q(2) c by (simp_all flip: q_def)
  with scan_minutes_NoneD [of lt s 60 0 "60 * q" "nat (c - q)"] assms(2) q(1) c
  show ?thesis by (simp add: next_after_def)
qed

lemma prev_before_NoneD:
  assumes "0 \<le> tgt" "prev_before lt s tgt = None" "u mod 60 = 0" "u \<le> tgt"
    "60 * (tgt div 60) - 60 * kMaxMinutes < u"
  shows "\<not> matches s (lt u)"
proof -
  define q where "q = tgt div 60"
  have q: "tgt - tgt smod 60 = 60 * q" "tgt < 60 * q + 60"
    using minute_floor [OF assms(1)] minute_bounds [of tgt] by (simp_all add: q_def)
  from assms(3) obtain c where c: "u = 60 * c" by (rule minute_alignedE)
  have "c \<le> q" "int (nat (q - c)) < kMaxMinutes"
    using assms(4,5) q(2) c by (simp_all flip: q_def)
  with scan_minutes_NoneD [of lt s "- 60" 0 "60 * q" "nat (q - c)"] assms(2) q(1) c
  show ?thesis by (simp add: prev_before_def)
qed

section \<open>The interface to the scheduler\<close>

text \<open>
  What the scheduler relies on: a calendar finds the first occurrence after a time and the
  last one up to a time, and gives up only when there is none within its horizon.
\<close>

locale calendar =
  fixes nxt :: "'c \<Rightarrow> int \<Rightarrow> int option"
    and prv :: "'c \<Rightarrow> int \<Rightarrow> int option"
    and occ :: "'c \<Rightarrow> int \<Rightarrow> bool"
    and horizon :: int
  assumes nxt_Some: "0 \<le> t \<Longrightarrow> nxt c t = Some u \<Longrightarrow> t < u \<and> occ c u \<and> (\<forall>v. occ c v \<longrightarrow> t < v \<longrightarrow> u \<le> v)"
    and prv_Some: "0 \<le> t \<Longrightarrow> prv c t = Some u \<Longrightarrow> u \<le> t \<and> occ c u \<and> (\<forall>v. occ c v \<longrightarrow> v \<le> t \<longrightarrow> v \<le> u)"
    and prv_None: "0 \<le> t \<Longrightarrow> prv c t = None \<Longrightarrow> occ c v \<Longrightarrow> v \<le> t \<Longrightarrow> v \<le> t - horizon"
begin

text \<open>Comparing the last occurrence with the last run decides whether an occurrence was skipped.\<close>

lemma skipped_iff:
  assumes "0 \<le> now" "now - horizon \<le> lastrun"
  shows "(\<exists>u. prv c now = Some u \<and> lastrun < u) \<longleftrightarrow> (\<exists>v. occ c v \<and> lastrun < v \<and> v \<le> now)"
proof (cases "prv c now")
  case None
  then show ?thesis using prv_None [OF assms(1) None] assms(2) by force
next
  case (Some u)
  then show ?thesis using prv_Some [OF assms(1) Some] by force
qed

text \<open>Nothing is skipped between a time and the occurrence computed from it.\<close>

lemma none_skipped_before_next:
  assumes "0 \<le> t" "nxt c t = Some u" "t \<le> now" "now < u" "prv c now = Some p"
  shows "p \<le> t"
  using nxt_Some [OF assms(1,2)] prv_Some [OF _ assms(5)] assms by force

end

definition occurs :: "(int \<Rightarrow> tm) \<Rightarrow> CronSchedule \<Rightarrow> int \<Rightarrow> bool" where
  "occurs lt s t \<longleftrightarrow> t mod 60 = 0 \<and> matches s (lt t)"

interpretation cron: calendar "next_after lt" "prev_before lt" "occurs lt" "60 * kMaxMinutes" for lt
proof
  fix t :: int and c u
  assume t: "0 \<le> t"
  show "t < u \<and> occurs lt c u \<and> (\<forall>v. occurs lt c v \<longrightarrow> t < v \<longrightarrow> u \<le> v)" if "next_after lt c t = Some u"
    using next_after_SomeD [OF t that] by (force simp: occurs_def not_less)
  show "u \<le> t \<and> occurs lt c u \<and> (\<forall>v. occurs lt c v \<longrightarrow> v \<le> t \<longrightarrow> v \<le> u)" if "prev_before lt c t = Some u"
    using prev_before_SomeD [OF t that] by (force simp: occurs_def not_less)
next
  fix t :: int and c v
  assume "0 \<le> t" "prev_before lt c t = None" "occurs lt c v" "v \<le> t"
  then have "\<not> 60 * (t div 60) - 60 * kMaxMinutes < v"
    using prev_before_NoneD by (auto simp: occurs_def)
  then show "v \<le> t - 60 * kMaxMinutes" using minute_bounds(1) [of t] by linarith
qed

section \<open>The searches: properties\<close>

text \<open>C29: \<open>next_after\<close> returns the smallest minute-aligned time strictly after its argument whose
  local time matches, whenever one lies inside the search horizon of four years of minutes.\<close>

theorem next_after_least:
  assumes "0 \<le> after"
  shows "next_after lt s after = Some t \<longleftrightarrow>
    t mod 60 = 0 \<and> after < t \<and> t < 60 * (after div 60 + 1) + 60 * kMaxMinutes \<and> matches s (lt t) \<and>
    (\<forall>u. u mod 60 = 0 \<and> after < u \<and> u < t \<longrightarrow> \<not> matches s (lt u))"
proof (cases "next_after lt s after")
  case None
  with next_after_NoneD [OF assms None] show ?thesis by auto
next
  case (Some r)
  note r = next_after_SomeD [OF assms Some]
  show ?thesis
  proof
    assume "next_after lt s after = Some t"
    with Some r show "t mod 60 = 0 \<and> after < t \<and>
        t < 60 * (after div 60 + 1) + 60 * kMaxMinutes \<and> matches s (lt t) \<and>
        (\<forall>u. u mod 60 = 0 \<and> after < u \<and> u < t \<longrightarrow> \<not> matches s (lt u))" by auto
  next
    assume t: "t mod 60 = 0 \<and> after < t \<and>
        t < 60 * (after div 60 + 1) + 60 * kMaxMinutes \<and> matches s (lt t) \<and>
        (\<forall>u. u mod 60 = 0 \<and> after < u \<and> u < t \<longrightarrow> \<not> matches s (lt u))"
    have "\<not> t < r" using t r(5) [of t] by auto
    moreover have "\<not> r < t" using t r(1,2,4) by auto
    ultimately show "next_after lt s after = Some t" using Some by simp
  qed
qed

text \<open>Fact: \<open>prev_before\<close> and \<open>next_after\<close> agree on the order of occurrences: the occurrence found at
  or before \<open>tgt\<close> is minute-aligned, matches, and the next occurrence after it lies beyond \<open>tgt\<close>,
  so missed-run detection never skips an occurrence.\<close>

theorem prev_before_adjacent:
  assumes "0 \<le> p" "0 \<le> tgt" "prev_before lt s tgt = Some p"
  shows "p mod 60 = 0 \<and> p \<le> tgt \<and> matches s (lt p) \<and>
    (\<forall>n. next_after lt s p = Some n \<longrightarrow> tgt < n)"
proof (intro conjI allI impI)
  note p = prev_before_SomeD [OF assms(2,3)]
  show "p mod 60 = 0" "p \<le> tgt" "matches s (lt p)" by (rule p)+
  fix n
  assume "next_after lt s p = Some n"
  note n = next_after_SomeD [OF assms(1) this]
  show "tgt < n"
  proof (rule ccontr)
    assume "\<not> tgt < n"
    with p(5) [OF n(1,2)] n(4) show False by simp
  qed
qed

section \<open>The cron language and its meaning\<close>

text \<open>
  The abstract syntax of the fields the header comment of \<open>cron.hpp\<close> promises (\<open>*\<close>, single values,
  comma lists, ranges, steps), the text of each and the set of values it denotes.
\<close>

datatype cron_base = Star | One int | Between int int

type_synonym cron_item = "cron_base \<times> int option"

fun base_text :: "cron_base \<Rightarrow> string" where
  "base_text Star = ''*''"
| "base_text (One n) = to_string n"
| "base_text (Between a b) = to_string a @ CHR ''-'' # to_string b"

fun item_text :: "cron_item \<Rightarrow> string" where
  "item_text (b, None) = base_text b"
| "item_text (b, Some k) = base_text b @ CHR ''/'' # to_string k"

fun join :: "char \<Rightarrow> string list \<Rightarrow> string" where
  "join d [] = []"
| "join d [x] = x"
| "join d (x # xs) = x @ d # join d xs"

fun base_bounds :: "FieldRange \<Rightarrow> cron_base \<Rightarrow> int \<times> int" where
  "base_bounds rng Star = (fr_lo rng, fr_hi rng)"
| "base_bounds rng (One n) = (n, n)"
| "base_bounds rng (Between a b) = (a, b)"

definition item_step :: "cron_item \<Rightarrow> int" where
  "item_step it = (case snd it of None \<Rightarrow> 1 | Some k \<Rightarrow> k)"

definition item_set :: "FieldRange \<Rightarrow> cron_item \<Rightarrow> int set" where
  "item_set rng it =
     range_step (fst (base_bounds rng (fst it))) (snd (base_bounds rng (fst it))) (item_step it)"

definition item_ok :: "FieldRange \<Rightarrow> cron_item \<Rightarrow> bool" where
  "item_ok rng it \<longleftrightarrow>
     (let (lo, hi) = base_bounds rng (fst it)
      in 0 \<le> fr_lo rng \<and> fr_lo rng \<le> lo \<and> lo \<le> hi \<and> hi \<le> fr_hi rng \<and> fr_hi rng < 100 \<and>
         0 < item_step it \<and> hi + item_step it \<le> INT_MAX)"

definition field_text :: "cron_item list \<Rightarrow> string" where
  "field_text items = join (CHR '','') (map item_text items)"

definition field_set :: "FieldRange \<Rightarrow> cron_item list \<Rightarrow> int set" where
  "field_set rng items = (\<Union>it \<in> set items. item_set rng it)"

definition expr_text :: "cron_item list list \<Rightarrow> string" where
  "expr_text fs = join (CHR '' '') (map field_text fs)"

lemma to_string_digits: "0 \<le> n \<Longrightarrow> to_string n \<noteq> [] \<and> (\<forall>c \<in> set (to_string n). isdigit c)"
  using dec_digits_props [of n] by (simp add: to_string_def)

lemma special_not_digit:
  "\<not> isdigit (CHR ''/'')" "\<not> isdigit (CHR '','')" "\<not> isdigit (CHR ''-'')"
  "\<not> isdigit (CHR ''*'')" "\<not> isdigit (CHR '' '')"
  by (simp_all add: isdigit_def code_of_def)

lemma to_string_no_special:
  assumes "0 \<le> n"
  shows "CHR ''/'' \<notin> set (to_string n)" "CHR '','' \<notin> set (to_string n)"
    "CHR ''-'' \<notin> set (to_string n)" "CHR ''*'' \<notin> set (to_string n)"
    "\<forall>c \<in> set (to_string n). \<not> isspace c"
  using to_string_digits [OF assms] special_not_digit isdigit_not_space by metis+

definition base_ok :: "cron_base \<Rightarrow> bool" where
  "base_ok b \<longleftrightarrow> (case b of Star \<Rightarrow> True | One n \<Rightarrow> 0 \<le> n \<and> n < 100
                   | Between x y \<Rightarrow> 0 \<le> x \<and> x < 100 \<and> 0 \<le> y \<and> y < 100)"

lemma item_ok_base: "item_ok rng it \<Longrightarrow> base_ok (fst it)"
  by (cases "fst it") (auto simp: item_ok_def base_ok_def)

lemma small_is_int32: "0 \<le> n \<Longrightarrow> n < 100 \<Longrightarrow> is_int32 n"
  by (simp add: is_int32_def INT_MIN_def INT_MAX_def)

lemma base_text_chars:
  assumes "base_ok b"
  shows "base_text b \<noteq> []" "CHR ''/'' \<notin> set (base_text b)" "CHR '','' \<notin> set (base_text b)"
    "\<forall>c \<in> set (base_text b). \<not> isspace c"
proof -
  have *: "base_text b \<noteq> [] \<and>
      (\<forall>c \<in> set (base_text b). isdigit c \<or> c = CHR ''-'' \<or> c = CHR ''*'')"
    using assms to_string_digits
    by (cases b) (auto simp: base_ok_def)
  then show "base_text b \<noteq> []" by simp
  have "\<not> isspace (CHR ''-'')" "\<not> isspace (CHR ''*'')"
    by (simp_all add: isspace_def code_of_def)
  then show "\<forall>c \<in> set (base_text b). \<not> isspace c"
    using * isdigit_not_space by metis
  show "CHR ''/'' \<notin> set (base_text b)" "CHR '','' \<notin> set (base_text b)"
    using * special_not_digit by force+
qed

lemma token_bounds_base:
  assumes "base_ok b"
  shows "token_bounds (base_text b) rng = Some (base_bounds rng b)"
proof (cases b)
  case Star
  then show ?thesis by (simp add: token_bounds_def)
next
  case (One n)
  with assms have n: "0 \<le> n" "is_int32 n" by (auto simp: base_ok_def small_is_int32)
  have "to_string n \<noteq> ''*''" using to_string_no_special(4) [OF n(1)] by auto
  with One n show ?thesis
    using stoi_to_string [of n "[]"] to_string_no_special(3) [OF n(1)]
    by (simp add: token_bounds_def find_char_None_iff [THEN iffD2])
next
  case (Between x y)
  with assms have xy: "0 \<le> x" "is_int32 x" "0 \<le> y" "is_int32 y"
    by (auto simp: base_ok_def small_is_int32)
  have "base_text b \<noteq> ''*''"
    using Between by (auto simp: append_eq_Cons_conv)
  with Between xy show ?thesis
    using stoi_to_string [of x "[]"] stoi_to_string [of y "[]"]
      find_char_append [OF to_string_no_special(3) [OF xy(1)], of "to_string y"]
    by (simp add: token_bounds_def)
qed

lemma token_step_item:
  assumes "item_ok rng it"
  shows "token_step (item_text it) = Some (base_text (fst it), item_step it)"
proof -
  obtain b st where it: "it = (b, st)" by (cases it)
  note b = base_text_chars [OF item_ok_base [OF assms, unfolded it fst_conv]]
  show ?thesis
  proof (cases st)
    case None
    with b it show ?thesis by (simp add: token_step_def item_step_def find_char_None_iff [THEN iffD2])
  next
    case (Some k)
    with assms it have "0 < k" "is_int32 k"
      by (auto simp: item_ok_def item_step_def is_int32_def INT_MIN_def)
    with b it Some show ?thesis
      using stoi_to_string [of k "[]"] find_char_append [OF b(2), of "to_string k"]
      by (simp add: token_step_def item_step_def)
  qed
qed

lemma item_text_chars:
  assumes "item_ok rng it"
  shows "item_text it \<noteq> []" "CHR '','' \<notin> set (item_text it)"
    "\<forall>c \<in> set (item_text it). \<not> isspace c"
proof -
  obtain b st where it: "it = (b, st)" by (cases it)
  note b = base_text_chars [OF item_ok_base [OF assms, unfolded it fst_conv]]
  have "0 \<le> k" if "st = Some k" for k
    using assms that it by (auto simp: item_ok_def item_step_def)
  then show "item_text it \<noteq> []" "CHR '','' \<notin> set (item_text it)"
      "\<forall>c \<in> set (item_text it). \<not> isspace c"
    using b it to_string_no_special
    by (cases st; auto simp: isspace_def code_of_def)+
qed

lemma parse_token_item:
  assumes "item_ok rng it"
  shows "parse_token (item_text it) rng out = Ret (Some (out \<union> item_set rng it))"
proof -
  obtain lo hi where bb: "base_bounds rng (fst it) = (lo, hi)" by fastforce
  then have "fr_lo rng \<le> lo" "lo \<le> hi" "hi \<le> fr_hi rng" "0 < item_step it"
      "hi + item_step it \<le> INT_MAX"
    using assms by (auto simp: item_ok_def)
  with bb show ?thesis
    using item_text_chars(1) [OF assms] token_step_item [OF assms]
      token_bounds_base [OF item_ok_base [OF assms], of rng]
    by (simp add: parse_token_def insert_range_eq item_set_def)
qed

lemma getline_split_join:
  assumes "\<forall>x \<in> set xs. x \<noteq> [] \<and> d \<notin> set x"
  shows "getline_split d (join d xs) = xs"
  using assms
  by (induction d xs rule: join.induct) (auto simp: getline_split_single getline_split_append)

lemma ws_tokens_space: "isspace c \<Longrightarrow> ws_tokens (c # t) = ws_tokens t"
  by (simp add: ws_tokens.simps [of "c # t"] ws_tokens.simps [of t])

lemma ws_tokens_Nil [simp]: "ws_tokens [] = []"
  by (simp add: ws_tokens.simps)

lemma ws_tokens_word:
  assumes "w \<noteq> []" "\<forall>c \<in> set w. \<not> isspace c" "rest = [] \<or> isspace (hd rest)"
  shows "ws_tokens (w @ rest) = w # ws_tokens rest"
proof -
  have "dropWhile isspace (w @ rest) = w @ rest"
    using assms(1,2) by (intro dropWhile_hd_id) (simp add: hd_append)
  moreover have "takeWhile (\<lambda>c. \<not> isspace c) (w @ rest) = w"
    using assms(2,3) by (intro takeWhile_stop) auto
  moreover have "dropWhile (\<lambda>c. \<not> isspace c) (w @ rest) = rest"
    using assms(2) dropWhile_hd_id [of rest "\<lambda>c. \<not> isspace c"] assms(3)
    by (simp add: dropWhile_append2)
  ultimately show ?thesis using assms(1) by (simp add: ws_tokens.simps [of "w @ rest"])
qed

lemma ws_tokens_join:
  assumes "\<forall>w \<in> set ws. w \<noteq> [] \<and> (\<forall>c \<in> set w. \<not> isspace c)" "isspace d"
  shows "ws_tokens (join d ws) = ws"
  using assms
proof (induction d ws rule: join.induct)
  case (2 d w)
  then show ?case using ws_tokens_word [of w "[]"] by simp
next
  case (3 d w v vs)
  then show ?case by (simp add: ws_tokens_word ws_tokens_space)
qed simp

lemma parse_tokens_items:
  assumes "\<forall>it \<in> set items. item_ok rng it"
  shows "parse_tokens (map item_text items) rng out = Ret (Some (out \<union> field_set rng items))"
  using assms
  by (induction items arbitrary: out) (simp_all add: parse_token_item field_set_def Un_assoc)

lemma item_set_nonempty: "item_ok rng it \<Longrightarrow> item_set rng it \<noteq> {}"
  by (auto simp: item_ok_def item_set_def range_step_def intro!: exI [of _ "fst (base_bounds rng (fst it))"])

lemma items_text_ok:
  assumes "\<forall>it \<in> set items. item_ok rng it"
  shows "\<forall>x \<in> set (map item_text items). x \<noteq> [] \<and> CHR '','' \<notin> set x \<and> (\<forall>c \<in> set x. \<not> isspace c)"
  using assms item_text_chars by (metis (no_types, lifting) imageE list.set_map)

lemma field_text_star_iff:
  assumes "\<forall>it \<in> set items. item_ok rng it"
  shows "field_text items = ''*'' \<longleftrightarrow> items = [(Star, None)]"
proof
  assume eq: "field_text items = ''*''"
  then obtain it rest where items: "items = it # rest"
    by (cases items) (auto simp: field_text_def)
  with assms have ok: "item_ok rng it" by simp
  have "rest = []"
    using eq item_text_chars(1) [OF ok] items
    by (cases rest) (auto simp: field_text_def append_eq_Cons_conv)
  with eq items have tx: "item_text it = ''*''" by (simp add: field_text_def)
  obtain b st where it: "it = (b, st)" by (cases it)
  note b = item_ok_base [OF ok, unfolded it fst_conv]
  have st: "st = None"
    using tx it base_text_chars(1) [OF b] by (cases st) (auto simp: append_eq_Cons_conv)
  have "b = Star"
    using tx it st b
    by (cases b) (auto simp: base_ok_def append_eq_Cons_conv dest!: to_string_no_special(4))
  with items it st \<open>rest = []\<close> show "items = [(Star, None)]" by simp
qed (simp add: field_text_def)

lemma parse_field_text:
  assumes "items \<noteq> []" "\<forall>it \<in> set items. item_ok rng it"
  shows "parse_field (field_text items) rng =
    Ret (Some (field_set rng items, items = [(Star, None)]))"
proof -
  have "getline_split (CHR '','') (field_text items) = map item_text items"
    unfolding field_text_def by (rule getline_split_join) (use items_text_ok [OF assms(2)] in blast)
  moreover have "field_set rng items \<noteq> {}"
    using assms item_set_nonempty by (cases items) (auto simp: field_set_def)
  ultimately show ?thesis
    using parse_tokens_items [OF assms(2), of "{}"] field_text_star_iff [OF assms(2)]
    by (simp add: parse_field_def)
qed

lemma field_text_word:
  assumes "items \<noteq> []" "\<forall>it \<in> set items. item_ok rng it"
  shows "field_text items \<noteq> [] \<and> (\<forall>c \<in> set (field_text items). \<not> isspace c)"
proof -
  have "\<not> isspace (CHR '','')" by (simp add: isspace_def code_of_def)
  then have "join (CHR '','') xs \<noteq> [] \<and> (\<forall>c \<in> set (join (CHR '','') xs). \<not> isspace c)"
    if "xs \<noteq> []" "\<forall>x \<in> set xs. x \<noteq> [] \<and> (\<forall>c \<in> set x. \<not> isspace c)" for xs
    using that by (induction "CHR '',''" xs rule: join.induct) auto
  from this [of "map item_text items"] show ?thesis
    using assms(1) items_text_ok [OF assms(2)] by (simp add: field_text_def)
qed

text \<open>A field list that describes a schedule: five fields, each a non-empty list of valid items.\<close>

definition expr_ok :: "cron_item list list \<Rightarrow> bool" where
  "expr_ok fs \<longleftrightarrow> length fs = 5 \<and>
     (\<forall>i < 5. fs ! i \<noteq> [] \<and> (\<forall>it \<in> set (fs ! i). item_ok (kRanges ! i) it))"

definition expr_schedule :: "cron_item list list \<Rightarrow> CronSchedule" where
  "expr_schedule fs = normalize_sunday
     \<lparr>cs_fields = map2 field_set kRanges fs,
      dom_wildcard = (fs ! 2 = [(Star, None)]),
      dow_wildcard = (fs ! 4 = [(Star, None)])\<rparr>"


section \<open>Further properties of the parser\<close>

text \<open>Fact: whatever text is given, an accepted expression yields a well-formed schedule: five
  non-empty sets of values inside the ranges of their fields, with Sunday present as 0
  whenever it was written 7.\<close>

theorem parse_accepts_only_wf:
  assumes "parse expr = Ret (Some sched)"
  shows "wf_schedule sched"
  using assms by (rule parse_wf)

text \<open>Fact: the step of a field is not bounded by the parser, so \<open>v += step\<close> overflows \<open>int\<close> (undefined
  behaviour) on every field \<open>*/k\<close> whose first value plus the step passes \<open>INT_MAX\<close>.\<close>

theorem star_step_overflow:
  assumes "0 < k" "k \<le> INT_MAX" "INT_MAX < fr_lo rng + k" "fr_lo rng \<le> fr_hi rng"
    "fr_lo rng \<le> INT_MAX"
  shows "parse_field (''*/'' @ to_string k) rng = Undefined"
proof -
  have k: "0 \<le> k" "is_int32 k" using assms by (simp_all add: is_int32_def INT_MIN_def)
  let ?f = "''*'' @ CHR ''/'' # to_string k"
  have "CHR '','' \<notin> set ?f" using to_string_no_special(2) [OF k(1)] by auto
  then have split: "getline_split (CHR '','') ?f = [?f]" by (intro getline_split_single) auto
  have "token_step ?f = Some (''*'', k)"
    using assms(1) stoi_to_string [OF k(2), of "[]"] find_char_append [of "CHR ''/''" "''*''"]
    by (simp add: token_step_def)
  then have "parse_token ?f rng {} = Undefined"
    using assms insert_range_overflow [of "fr_lo rng" "fr_hi rng" k]
    by (simp add: parse_token_def token_bounds_def)
  with split show ?thesis by (simp add: parse_field_def)
qed

text \<open>The parser reads numbers with \<open>std::stoi\<close>, which stops at the first character that is not a
  digit: text after a number is silently ignored, so \<open>5x\<close> is accepted as 5.\<close>

theorem number_field_ignores_suffix:
  assumes "0 \<le> n" "n \<le> INT_MAX" "junk \<noteq> []" "\<not> isdigit (hd junk)"
    "set junk \<inter> set '',/-'' = {}"
  shows "parse_field (to_string n @ junk) rng = parse_field (to_string n) rng"
proof -
  let ?f = "to_string n @ junk"
  have n32: "is_int32 n" using assms by (simp add: is_int32_def INT_MIN_def)
  note d = to_string_digits [OF assms(1)] and c = to_string_no_special [OF assms(1)]
  have nc: "CHR '','' \<notin> set ?f" "CHR ''/'' \<notin> set ?f" "CHR ''-'' \<notin> set ?f"
    using assms(5) c by auto
  have star: "to_string n \<noteq> ''*''" "?f \<noteq> ''*''"
    using c(4) d by (auto simp: append_eq_Cons_conv)
  have "token_step ?f = Some (?f, 1)" "token_step (to_string n) = Some (to_string n, 1)"
    using nc c by (simp_all add: token_step_def find_char_None_iff [THEN iffD2])
  moreover have "token_bounds ?f rng = Some (n, n)" "token_bounds (to_string n) rng = Some (n, n)"
    using nc c star stoi_to_string [OF n32, of junk] stoi_to_string [OF n32, of "[]"] assms(4)
    by (simp_all add: token_bounds_def find_char_None_iff [THEN iffD2])
  ultimately have "parse_token ?f rng {} = parse_token (to_string n) rng {}"
    using d by (simp add: parse_token_def)
  moreover have "getline_split (CHR '','') ?f = [?f]" "getline_split (CHR '','') (to_string n) = [to_string n]"
    using nc c d by (simp_all add: getline_split_single)
  moreover have "(?f = ''*'') \<longleftrightarrow> (to_string n = ''*'')" using star by simp
  ultimately show ?thesis unfolding parse_field_def by (simp only: parse_tokens.simps)
qed

text \<open>Fact: the search always ends. For a date that no calendar has (30 February) both searches
  run through their horizon and report that there is no occurrence.\<close>

theorem impossible_date_has_no_occurrence:
  assumes "\<forall>t. \<not> (tm_mon (lt t) = 1 \<and> tm_mday (lt t) = 30)"
  shows "\<exists>s. parse ''0 0 30 2 *'' = Ret (Some s) \<and>
    next_after lt s after = None \<and> prev_before lt s after = None"
proof -
  let ?s = "\<lparr>cs_fields = [{0}, {0}, {30}, {2}, {0, 1, 2, 3, 4, 5, 6, 7}],
             dom_wildcard = False, dow_wildcard = True\<rparr>"
  have "parse ''0 0 30 2 *'' = Ret (Some ?s)" by code_simp
  moreover have "\<not> matches ?s (lt t)" for t
    using assms [rule_format, of t] by (auto simp: matches_def)
  then have "scan_minutes lt ?s d i t = None" for d i t
    using scan_minutes_SomeD [of lt ?s d i t] by (cases "scan_minutes lt ?s d i t") auto
  ultimately show ?thesis by (simp add: next_after_def prev_before_def)
qed

section \<open>Witnesses\<close>

text \<open>A calendar for the witnesses: minutes and hours of UTC, every day the first of January 1970.\<close>

definition utc_day :: "int \<Rightarrow> tm" where
  "utc_day t = \<lparr>tm_min = (t div 60) mod 60, tm_hour = (t div 3600) mod 24, tm_mday = 1,
                tm_mon = 0, tm_wday = 4\<rparr>"

definition every_quarter :: CronSchedule where
  "every_quarter = \<lparr>cs_fields = [{0, 15, 30, 45}, {0..23}, {1..31}, {1..12}, {0..7}],
                    dom_wildcard = True, dow_wildcard = True\<rparr>"

lemma every_quarter_matches:
  "matches every_quarter (utc_day t) \<longleftrightarrow> (t div 60) mod 60 \<in> {0, 15, 30, 45}"
proof -
  have "0 \<le> (t div 3600) mod 24" "(t div 3600) mod 24 \<le> 23"
    using pos_mod_bound [of 24 "t div 3600"] by simp_all
  then show ?thesis by (auto simp: matches_def every_quarter_def utc_day_def Let_def)
qed

lemma every_quarter_next: "next_after utc_day every_quarter 1000 = Some 1800"
  by (simp add: next_after_def scan_minutes.simps every_quarter_matches kMaxMinutes_def
      signed_modulo_int_def signed_divide_int_def)

lemma every_quarter_prev: "prev_before utc_day every_quarter 1000 = Some 900"
  by (simp add: prev_before_def scan_minutes.simps every_quarter_matches kMaxMinutes_def
      signed_modulo_int_def signed_divide_int_def)

theorem next_after_least_witness:
  "next_after utc_day every_quarter 1000 = Some 1800 \<and>
   \<not> matches every_quarter (utc_day 1740)"
  using next_after_least [of 1000 utc_day every_quarter 1800] every_quarter_next by simp

theorem prev_before_adjacent_witness:
  "prev_before utc_day every_quarter 1000 = Some 900 \<and> matches every_quarter (utc_day 900)"
  using prev_before_adjacent [of 900 1000 utc_day every_quarter] every_quarter_prev by simp


theorem parse_accepts_only_wf_witness:
  "wf_schedule \<lparr>cs_fields = [{0}, {0}, {30}, {2}, {0, 1, 2, 3, 4, 5, 6, 7}],
                dom_wildcard = False, dow_wildcard = True\<rparr>"
  by (rule parse_accepts_only_wf [of "''0 0 30 2 *''"]) code_simp

theorem star_step_overflow_witness:
  "parse_field ''*/2147483647'' (kRanges ! 2) = Undefined \<and>
   parse ''* * */2147483647 * *'' = Undefined"
proof -
  have "to_string 2147483647 = ''2147483647''" by code_simp
  then have "parse_field ''*/2147483647'' (kRanges ! 2) = Undefined"
    using star_step_overflow [of 2147483647 "kRanges ! 2"] by (simp add: kRanges_def INT_MAX_def)
  moreover have "parse ''* * */2147483647 * *'' = Undefined" by code_simp
  ultimately show ?thesis by simp
qed

theorem number_field_ignores_suffix_witness:
  "parse_field ''5x'' (kRanges ! 0) = parse_field ''5'' (kRanges ! 0) \<and>
   parse_field ''5x'' (kRanges ! 0) = Ret (Some ({5}, False))"
proof -
  have "to_string 5 = ''5''" by code_simp
  then have "parse_field ''5x'' (kRanges ! 0) = parse_field ''5'' (kRanges ! 0)"
    using number_field_ignores_suffix [of 5 "''x''" "kRanges ! 0"]
    by (simp add: INT_MAX_def isdigit_def code_of_def)
  moreover have "parse_field ''5x'' (kRanges ! 0) = Ret (Some ({5}, False))" by code_simp
  ultimately show ?thesis by simp
qed

theorem impossible_date_witness:
  "\<exists>s. parse ''0 0 30 2 *'' = Ret (Some s) \<and>
    next_after utc_day s 1000 = None \<and> prev_before utc_day s 1000 = None"
  by (rule impossible_date_has_no_occurrence) (simp add: utc_day_def)

end
