(* ===== verification/Thermal.thy ===== *)
theory Thermal
  imports Prelude
begin

text \<open>
  The thermal states of \<open>daemon/src/metrics/thermal_sampler.hpp\<close> and \<open>thermal_sampler.mm\<close>: the
  enumeration, its ordinals and its names, and the translation of what Foundation reports. The
  value of \<open>NSProcessInfo.thermalState\<close> is an input.
\<close>

datatype ThermalState = Nominal | Fair | Serious | Critical

text \<open>\<open>static_cast<double>(state)\<close>: the enumerators are numbered 0 to 3.\<close>

fun thermal_ordinal :: "ThermalState \<Rightarrow> int" where
  "thermal_ordinal Nominal = 0"
| "thermal_ordinal Fair = 1"
| "thermal_ordinal Serious = 2"
| "thermal_ordinal Critical = 3"

fun thermal_to_string :: "ThermalState \<Rightarrow> string" where
  "thermal_to_string Nominal = ''nominal''"
| "thermal_to_string Fair = ''fair''"
| "thermal_to_string Serious = ''serious''"
| "thermal_to_string Critical = ''critical''"

definition thermal_state_from_string :: "string \<Rightarrow> ThermalState" where
  "thermal_state_from_string name =
     (if name = ''fair'' then Fair
      else if name = ''serious'' then Serious
      else if name = ''critical'' then Critical
      else Nominal)"

text \<open>\<open>NSProcessInfoThermalState\<close>: the four values Foundation names, and any other a later system may report.\<close>

datatype NSThermalState = NSNominal | NSFair | NSSerious | NSCritical | NSOther int

fun sample_thermal_state :: "NSThermalState \<Rightarrow> ThermalState" where
  "sample_thermal_state NSNominal = Nominal"
| "sample_thermal_state NSFair = Fair"
| "sample_thermal_state NSSerious = Serious"
| "sample_thermal_state NSCritical = Critical"
| "sample_thermal_state (NSOther n) = Nominal"

text \<open>The order of the enumeration, by its ordinals.\<close>

instantiation ThermalState :: linorder
begin

definition less_eq_ThermalState :: "ThermalState \<Rightarrow> ThermalState \<Rightarrow> bool" where
  "less_eq_ThermalState a b \<longleftrightarrow> thermal_ordinal a \<le> thermal_ordinal b"

definition less_ThermalState :: "ThermalState \<Rightarrow> ThermalState \<Rightarrow> bool" where
  "less_ThermalState a b \<longleftrightarrow> thermal_ordinal a < thermal_ordinal b"

instance
proof
  fix x y z :: ThermalState
  show "(x < y) = (x \<le> y \<and> \<not> y \<le> x)"
    by (auto simp: less_eq_ThermalState_def less_ThermalState_def)
  show "x \<le> x" by (simp add: less_eq_ThermalState_def)
  show "x \<le> y \<Longrightarrow> y \<le> z \<Longrightarrow> x \<le> z" by (simp add: less_eq_ThermalState_def)
  show "x \<le> y \<Longrightarrow> y \<le> x \<Longrightarrow> x = y"
    by (cases x; cases y) (auto simp: less_eq_ThermalState_def)
  show "x \<le> y \<or> y \<le> x" by (auto simp: less_eq_ThermalState_def)
qed

end

lemma thermal_string_roundtrip [simp]: "thermal_state_from_string (thermal_to_string t) = t"
  by (cases t) (simp_all add: thermal_state_from_string_def)

lemma thermal_from_string_inverse:
  "thermal_to_string (thermal_state_from_string s) = s \<longleftrightarrow>
   s \<in> {''nominal'', ''fair'', ''serious'', ''critical''}"
  by (auto simp: thermal_state_from_string_def)

end
