(* ===== verification/Config.thy ===== *)
theory Config
  imports Cron Thermal
begin

text \<open>
  The configuration of \<open>daemon/src/config/config.hpp\<close> and \<open>config.cpp\<close>: jobs, alert rules, quiet
  hours, and the loader with its validation. The YAML library is not part of the program:
  its nodes are a type parameter \<open>'n\<close> and its operations the record \<open>yaml\<close>, handed to every
  definition that uses them. \<open>std::filesystem::exists\<close> and \<open>YAML::LoadFile\<close> are parameters too.
\<close>

section \<open>Data\<close>

datatype MissedRunPolicy = PolicyNone | RunOnWake | RunNow

datatype Condition = GreaterThan | LessThan | AtLeast

record Job =
  job_name :: string
  job_command :: string
  job_schedule :: "CronSchedule option"
  job_schedule_expr :: string
  job_missed_run_policy :: MissedRunPolicy
  job_timeout_seconds :: int
  job_retries :: int
  job_source :: string

definition default_Job :: Job where
  "default_Job = \<lparr>job_name = [], job_command = [], job_schedule = None, job_schedule_expr = [],
     job_missed_run_policy = PolicyNone, job_timeout_seconds = 0, job_retries = 0,
     job_source = ''config''\<rparr>"

record Rule =
  rule_name :: string
  rule_metric :: string
  rule_condition :: Condition
  rule_threshold :: double
  rule_duration_seconds :: int
  rule_cooldown_seconds :: int
  rule_severity :: string

definition default_Rule :: Rule where
  "default_Rule = \<lparr>rule_name = [], rule_metric = [], rule_condition = GreaterThan,
     rule_threshold = Fin 0, rule_duration_seconds = 0, rule_cooldown_seconds = 0,
     rule_severity = ''warning''\<rparr>"

record QuietHours =
  qh_enabled :: bool
  qh_start_hour :: int
  qh_end_hour :: int

record Config =
  cfg_jobs :: "Job list"
  cfg_rules :: "Rule list"
  cfg_quiet_hours :: QuietHours

definition empty_Config :: Config where
  "empty_Config = \<lparr>cfg_jobs = [], cfg_rules = [],
     cfg_quiet_hours = \<lparr>qh_enabled = False, qh_start_hour = 0, qh_end_hour = 0\<rparr>\<rparr>"

section \<open>Names of enumerators\<close>

fun policy_to_string :: "MissedRunPolicy \<Rightarrow> string" where
  "policy_to_string PolicyNone = ''none''"
| "policy_to_string RunOnWake = ''run_on_wake''"
| "policy_to_string RunNow = ''run_now''"

fun condition_to_string :: "Condition \<Rightarrow> string" where
  "condition_to_string GreaterThan = ''greater_than''"
| "condition_to_string LessThan = ''less_than''"
| "condition_to_string AtLeast = ''at_least''"

definition missed_run_policy_from_string :: "string \<Rightarrow> MissedRunPolicy" where
  "missed_run_policy_from_string s =
     (if s = ''run_on_wake'' then RunOnWake else if s = ''run_now'' then RunNow else PolicyNone)"

definition parse_policy :: "string \<Rightarrow> MissedRunPolicy cxx" where
  "parse_policy s =
     (if s = ''run_on_wake'' then Ret RunOnWake
      else if s = ''run_now'' then Ret RunNow
      else if s = ''none'' \<or> s = [] then Ret PolicyNone
      else Throw (''invalid missed_run_policy: '' @ quoted s))"

definition parse_condition :: "string \<Rightarrow> Condition cxx" where
  "parse_condition s =
     (if s = ''greater_than'' \<or> s = ''>'' then Ret GreaterThan
      else if s = ''less_than'' \<or> s = ''<'' then Ret LessThan
      else if s = ''at_least'' \<or> s = ''>='' then Ret AtLeast
      else Throw (''invalid condition: '' @ quoted s))"

section \<open>The YAML interface\<close>

text \<open>
  What the loader calls of a \<open>YAML::Node\<close>. \<open>yaml_get n k\<close> is \<open>n[k]\<close>: \<open>Ret None\<close> when the entry is not
  defined (the node converts to false), a thrown exception when \<open>n\<close> cannot be subscripted.
  The conversions \<open>as<T>()\<close> throw when the scalar does not convert.
\<close>

record 'n yaml =
  yaml_is_map :: "'n \<Rightarrow> bool"
  yaml_is_sequence :: "'n \<Rightarrow> bool"
  yaml_get :: "'n \<Rightarrow> string \<Rightarrow> 'n option cxx"
  yaml_items :: "'n \<Rightarrow> 'n list"
  yaml_as_string :: "'n \<Rightarrow> string cxx"
  yaml_as_int :: "'n \<Rightarrow> int cxx"
  yaml_as_double :: "'n \<Rightarrow> double cxx"

text \<open>\<open>if (node[k]) { ... }\<close>: the conversion of an entry, or a default when it is absent.\<close>

definition optional_entry ::
    "'n yaml \<Rightarrow> 'n \<Rightarrow> string \<Rightarrow> 'a \<Rightarrow> ('n \<Rightarrow> 'a cxx) \<Rightarrow> 'a cxx" where
  "optional_entry y node k dflt conv =
     cxx_bind (yaml_get y node k) (\<lambda>m. case m of None \<Rightarrow> Ret dflt | Some n \<Rightarrow> conv n)"

text \<open>\<open>if (!node[k] || node[k].as<std::string>().empty()) throw err;\<close> then the text of the entry.\<close>

definition required_text :: "'n yaml \<Rightarrow> 'n \<Rightarrow> string \<Rightarrow> string \<Rightarrow> string cxx" where
  "required_text y node k err =
     cxx_bind (yaml_get y node k)
       (\<lambda>m. case m of
              None \<Rightarrow> Throw err
            | Some n \<Rightarrow> cxx_bind (yaml_as_string y n) (\<lambda>s. if s = [] then Throw err else Ret s))"

section \<open>The loader\<close>

definition parse_schedule_entry ::
    "'n yaml \<Rightarrow> string \<Rightarrow> 'n \<Rightarrow> (string \<times> CronSchedule option) cxx" where
  "parse_schedule_entry y name n =
     cxx_bind (yaml_as_string y n)
       (\<lambda>expr. cxx_bind (parse expr)
          (\<lambda>cron. case cron of
             None \<Rightarrow> Throw (''job '' @ quoted name @ '' has invalid cron schedule: '' @ quoted expr)
           | Some c \<Rightarrow> Ret (expr, Some c)))"

definition parse_job :: "'n yaml \<Rightarrow> 'n \<Rightarrow> nat \<Rightarrow> Job cxx" where
  "parse_job y node index =
     (if \<not> yaml_is_map y node
      then Throw (''job #'' @ to_string (int index) @ '' is not a mapping'')
      else
        cxx_bind (required_text y node ''name''
          (''job #'' @ to_string (int index) @ '' is missing '' @ quoted ''name'')) (\<lambda>name.
        cxx_bind (required_text y node ''command''
          (''job '' @ quoted name @ '' is missing '' @ quoted ''command'')) (\<lambda>command.
        cxx_bind (optional_entry y node ''schedule'' ([], None) (parse_schedule_entry y name))
          (\<lambda>(expr, sched).
        cxx_bind (optional_entry y node ''missed_run_policy'' PolicyNone
          (\<lambda>n. cxx_bind (yaml_as_string y n) parse_policy)) (\<lambda>policy.
        cxx_bind (optional_entry y node ''timeout_seconds'' 0
          (\<lambda>n. cxx_bind (yaml_as_int y n) (\<lambda>t.
             if t < 0 then Throw (''job '' @ quoted name @ '' has negative timeout_seconds'')
             else Ret t))) (\<lambda>timeout.
        cxx_bind (optional_entry y node ''retries'' 0
          (\<lambda>n. cxx_bind (yaml_as_int y n) (\<lambda>r.
             if r < 0 then Throw (''job '' @ quoted name @ '' has negative retries'')
             else Ret r))) (\<lambda>retries.
        Ret (default_Job\<lparr>job_name := name, job_command := command, job_schedule := sched,
               job_schedule_expr := expr, job_missed_run_policy := policy,
               job_timeout_seconds := timeout, job_retries := retries\<rparr>))))))))"

text \<open>\<open>if (!node[k]) throw err;\<close> then a conversion of the entry, which may be empty.\<close>

definition required_entry :: "'n yaml \<Rightarrow> 'n \<Rightarrow> string \<Rightarrow> string \<Rightarrow> ('n \<Rightarrow> 'a cxx) \<Rightarrow> 'a cxx" where
  "required_entry y node k err conv =
     cxx_bind (yaml_get y node k) (\<lambda>m. case m of None \<Rightarrow> Throw err | Some n \<Rightarrow> conv n)"

definition parse_threshold :: "'n yaml \<Rightarrow> string \<Rightarrow> 'n \<Rightarrow> double cxx" where
  "parse_threshold y metric n =
     (if metric = ''system.thermal_state''
      then cxx_bind (yaml_as_string y n)
             (\<lambda>s. Ret (Fin (of_int (thermal_ordinal (thermal_state_from_string s)))))
      else yaml_as_double y n)"

definition parse_rule :: "'n yaml \<Rightarrow> 'n \<Rightarrow> nat \<Rightarrow> Rule cxx" where
  "parse_rule y node index =
     (if \<not> yaml_is_map y node
      then Throw (''rule #'' @ to_string (int index) @ '' is not a mapping'')
      else
        cxx_bind (required_text y node ''name''
          (''rule #'' @ to_string (int index) @ '' is missing '' @ quoted ''name'')) (\<lambda>name.
        cxx_bind (required_entry y node ''metric''
          (''rule '' @ quoted name @ '' is missing '' @ quoted ''metric'') (yaml_as_string y))
          (\<lambda>metric.
        cxx_bind (required_entry y node ''condition''
          (''rule '' @ quoted name @ '' is missing '' @ quoted ''condition'')
          (\<lambda>n. cxx_bind (yaml_as_string y n) parse_condition)) (\<lambda>cond.
        cxx_bind (required_entry y node ''threshold''
          (''rule '' @ quoted name @ '' is missing '' @ quoted ''threshold'')
          (parse_threshold y metric)) (\<lambda>threshold.
        cxx_bind (optional_entry y node ''duration_seconds'' 0 (yaml_as_int y)) (\<lambda>duration.
        cxx_bind (optional_entry y node ''cooldown_seconds'' 0 (yaml_as_int y)) (\<lambda>cooldown.
        cxx_bind (optional_entry y node ''severity'' ''warning'' (yaml_as_string y)) (\<lambda>severity.
        if duration < 0 \<or> cooldown < 0
        then Throw (''rule '' @ quoted name @ '' has negative duration/cooldown'')
        else Ret \<lparr>rule_name = name, rule_metric = metric, rule_condition = cond,
                  rule_threshold = threshold, rule_duration_seconds = duration,
                  rule_cooldown_seconds = cooldown, rule_severity = severity\<rparr>))))))))"

text \<open>
  The loop over a sequence, with the set of names seen so far: shared by jobs and rules, which
  differ in the parser, the name and the word in the message.
\<close>

fun load_entries ::
    "('n \<Rightarrow> nat \<Rightarrow> 'a cxx) \<Rightarrow> ('a \<Rightarrow> string) \<Rightarrow> string \<Rightarrow> nat \<Rightarrow> string set \<Rightarrow> 'n list \<Rightarrow> 'a list cxx" where
  "load_entries pe nm kind i names [] = Ret []"
| "load_entries pe nm kind i names (node # nodes) =
     cxx_bind (pe node i) (\<lambda>x.
       if nm x \<in> names then Throw (''duplicate '' @ kind @ '' name: '' @ quoted (nm x))
       else cxx_bind (load_entries pe nm kind (Suc i) (insert (nm x) names) nodes)
              (\<lambda>xs. Ret (x # xs)))"

definition load_section ::
    "'n yaml \<Rightarrow> 'n \<Rightarrow> string \<Rightarrow> ('n \<Rightarrow> nat \<Rightarrow> 'a cxx) \<Rightarrow> ('a \<Rightarrow> string) \<Rightarrow> string \<Rightarrow> 'a list cxx" where
  "load_section y rootn key pe nm kind =
     optional_entry y rootn key []
       (\<lambda>n. if \<not> yaml_is_sequence y n then Throw (quoted key @ '' must be a sequence'')
            else load_entries pe nm kind 0 {} (yaml_items y n))"

definition load_quiet_hours :: "'n yaml \<Rightarrow> 'n \<Rightarrow> QuietHours cxx" where
  "load_quiet_hours y rootn =
     optional_entry y rootn ''quiet_hours'' \<lparr>qh_enabled = False, qh_start_hour = 0, qh_end_hour = 0\<rparr>
       (\<lambda>qh. cxx_bind (optional_entry y qh ''start_hour'' 0 (yaml_as_int y)) (\<lambda>start.
             cxx_bind (optional_entry y qh ''end_hour'' 0 (yaml_as_int y)) (\<lambda>stop.
             Ret \<lparr>qh_enabled = True, qh_start_hour = start, qh_end_hour = stop\<rparr>)))"

text \<open>
  \<open>load_config\<close>: \<open>file_exists\<close> and \<open>load_file\<close> stand for the file system and \<open>YAML::LoadFile\<close>, whose
  exceptions are rethrown with a prefix.
\<close>

definition load_config ::
    "'n yaml \<Rightarrow> (string \<Rightarrow> bool) \<Rightarrow> (string \<Rightarrow> 'n cxx) \<Rightarrow> string \<Rightarrow> Config cxx" where
  "load_config y file_exists load_file path =
     (if \<not> file_exists path then Ret empty_Config
      else case load_file path of
             Throw e \<Rightarrow> Throw (''cannot parse config: '' @ e)
           | Undefined \<Rightarrow> Undefined
           | Terminate \<Rightarrow> Terminate
           | Ret rootn \<Rightarrow>
               cxx_bind (load_section y rootn ''jobs'' (parse_job y) job_name ''job'') (\<lambda>jobs.
               cxx_bind (load_section y rootn ''rules'' (parse_rule y) rule_name ''rule'') (\<lambda>rules.
               cxx_bind (load_quiet_hours y rootn) (\<lambda>quiet.
               Ret \<lparr>cfg_jobs = jobs, cfg_rules = rules, cfg_quiet_hours = quiet\<rparr>))))"

section \<open>Lemmas\<close>

text \<open>A job as the API builds it: no NUL bytes, and the schedule is what its expression parses to.\<close>

definition ui_job_ok :: "Job \<Rightarrow> bool" where
  "ui_job_ok j \<longleftrightarrow> nul_free (job_name j) \<and> nul_free (job_command j) \<and> nul_free (job_schedule_expr j) \<and>
     (if job_schedule_expr j = [] then job_schedule j = None
      else parse (job_schedule_expr j) = Ret (job_schedule j))"

lemma policy_roundtrip [simp]: "missed_run_policy_from_string (policy_to_string p) = p"
  by (cases p) (simp_all add: missed_run_policy_from_string_def)

lemma parse_policy_to_string [simp]: "parse_policy (policy_to_string p) = Ret p"
  by (cases p) (simp_all add: parse_policy_def)

lemma parse_policy_lenient: "parse_policy s = Ret p \<Longrightarrow> missed_run_policy_from_string s = p"
  by (auto simp: parse_policy_def missed_run_policy_from_string_def split: if_splits)

lemma parse_condition_to_string [simp]: "parse_condition (condition_to_string c) = Ret c"
  by (cases c) (simp_all add: parse_condition_def)

lemma optional_entry_RetE:
  assumes "optional_entry y node k dflt conv = Ret v"
  obtains "v = dflt" | n where "conv n = Ret v"
  using assms by (auto simp: optional_entry_def cxx_simps split: option.splits)

lemma required_text_nonempty: "required_text y node k err = Ret s \<Longrightarrow> s \<noteq> []"
  by (auto simp: required_text_def cxx_simps split: option.splits if_splits)

text \<open>What the validation of \<open>parse_job\<close> guarantees.\<close>

definition wf_job :: "Job \<Rightarrow> bool" where
  "wf_job j \<longleftrightarrow>
     job_name j \<noteq> [] \<and> job_command j \<noteq> [] \<and>
     0 \<le> job_timeout_seconds j \<and> 0 \<le> job_retries j \<and>
     (case job_schedule j of
        None \<Rightarrow> job_schedule_expr j = []
      | Some c \<Rightarrow> parse (job_schedule_expr j) = Ret (Some c) \<and> wf_schedule c)"

definition wf_rule :: "Rule \<Rightarrow> bool" where
  "wf_rule r \<longleftrightarrow> rule_name r \<noteq> [] \<and> 0 \<le> rule_duration_seconds r \<and> 0 \<le> rule_cooldown_seconds r"

definition wf_config :: "Config \<Rightarrow> bool" where
  "wf_config c \<longleftrightarrow>
     (\<forall>j \<in> set (cfg_jobs c). wf_job j \<and> job_source j = ''config'') \<and>
     distinct (map job_name (cfg_jobs c)) \<and>
     (\<forall>r \<in> set (cfg_rules c). wf_rule r) \<and> distinct (map rule_name (cfg_rules c))"

lemma nonneg_entry:
  assumes "optional_entry y node k 0 (\<lambda>n. cxx_bind (yaml_as_int y n)
      (\<lambda>t. if t < 0 then Throw e else Ret t)) = Ret v"
  shows "0 \<le> v"
  using assms
  by (elim optional_entry_RetE) (auto simp: cxx_simps split: if_splits)

lemma schedule_entry_parsed:
  assumes "optional_entry y node k ([], None) (parse_schedule_entry y name) = Ret (expr, sched)"
  shows "case sched of None \<Rightarrow> expr = [] | Some c \<Rightarrow> parse expr = Ret (Some c) \<and> wf_schedule c"
  using assms
proof (rule optional_entry_RetE)
  fix n
  assume "parse_schedule_entry y name n = Ret (expr, sched)"
  then obtain c where "parse expr = Ret (Some c)" "sched = Some c"
    by (auto simp: parse_schedule_entry_def cxx_simps split: option.splits)
  then show ?thesis using parse_wf [of expr c] by simp
qed simp

lemma parse_job_wf:
  assumes "parse_job y node i = Ret j"
  shows "wf_job j \<and> job_source j = ''config''"
proof -
  from assms obtain e1 e2 e3 name command expr sched policy timeout retries where
      name: "required_text y node ''name'' e1 = Ret name"
      and command: "required_text y node ''command'' e2 = Ret command"
      and sched: "optional_entry y node ''schedule'' ([], None) (parse_schedule_entry y name) =
        Ret (expr, sched)"
      and timeout: "optional_entry y node ''timeout_seconds'' 0 (\<lambda>n. cxx_bind (yaml_as_int y n)
        (\<lambda>t. if t < 0 then Throw (''job '' @ quoted name @ '' has negative timeout_seconds'')
          else Ret t)) = Ret timeout"
      and retries: "optional_entry y node ''retries'' 0 (\<lambda>n. cxx_bind (yaml_as_int y n)
        (\<lambda>r. if r < 0 then Throw (''job '' @ quoted name @ '' has negative retries'')
          else Ret r)) = Ret retries"
      and j: "j = default_Job\<lparr>job_name := name, job_command := command, job_schedule := sched,
        job_schedule_expr := expr, job_missed_run_policy := policy,
        job_timeout_seconds := timeout, job_retries := retries\<rparr>"
    unfolding parse_job_def by (auto simp: cxx_bind_Ret_iff split: if_splits)
  from required_text_nonempty [OF name] required_text_nonempty [OF command]
    schedule_entry_parsed [OF sched] nonneg_entry [OF timeout] nonneg_entry [OF retries]
  show ?thesis by (simp add: j wf_job_def default_Job_def split: option.splits)
qed

lemma parse_rule_wf:
  assumes "parse_rule y node i = Ret r"
  shows "wf_rule r"
proof -
  from assms obtain e name where "required_text y node ''name'' e = Ret name"
      and "rule_name r = name" "0 \<le> rule_duration_seconds r" "0 \<le> rule_cooldown_seconds r"
    unfolding parse_rule_def by (auto simp: cxx_bind_Ret_iff split: if_splits)
  with required_text_nonempty [OF this(1)] show ?thesis by (simp add: wf_rule_def)
qed

lemma load_entries_iff:
  "load_entries pe nm kind i names nodes = Ret xs \<longleftrightarrow>
     length xs = length nodes \<and> (\<forall>k < length nodes. pe (nodes ! k) (i + k) = Ret (xs ! k)) \<and>
     distinct (map nm xs) \<and> nm ` set xs \<inter> names = {}"
proof (induction nodes arbitrary: i names xs)
  case Nil
  then show ?case by auto
next
  case (Cons node nodes)
  show ?case
  proof (cases xs)
    case Nil
    then show ?thesis by (auto simp: cxx_bind_Ret_iff split: if_splits)
  next
    case (Cons x ys)
    then show ?thesis
      using Cons.IH [of "Suc i" "insert (nm x) names" ys]
      by (auto simp: cxx_bind_Ret_iff All_less_Suc2 split: if_splits)
  qed
qed

lemma load_section_elems:
  assumes "load_section y rootn key pe nm kind = Ret xs"
  shows "distinct (map nm xs) \<and> (\<forall>x \<in> set xs. \<exists>node i. pe node i = Ret x)"
  using assms unfolding load_section_def
proof (rule optional_entry_RetE)
  fix n
  assume "(if \<not> yaml_is_sequence y n then Throw (quoted key @ '' must be a sequence'')
      else load_entries pe nm kind 0 {} (yaml_items y n)) = Ret xs"
  then have "distinct (map nm xs)" "length xs = length (yaml_items y n)"
      "\<And>k. k < length xs \<Longrightarrow> pe (yaml_items y n ! k) k = Ret (xs ! k)"
    by (auto simp: load_entries_iff split: if_splits)
  then show ?thesis by (metis in_set_conv_nth)
qed simp

lemma load_config_RetE:
  assumes "load_config y ex ld path = Ret c"
  obtains "\<not> ex path" "c = empty_Config"
  | rootn where "ex path" "ld path = Ret rootn"
      "load_section y rootn ''jobs'' (parse_job y) job_name ''job'' = Ret (cfg_jobs c)"
      "load_section y rootn ''rules'' (parse_rule y) rule_name ''rule'' = Ret (cfg_rules c)"
      "load_quiet_hours y rootn = Ret (cfg_quiet_hours c)"
  using assms by (auto simp: load_config_def cxx_bind_Ret_iff split: if_splits cxx.splits)

lemma load_config_wf: "load_config y ex ld path = Ret c \<Longrightarrow> wf_config c"
proof (erule load_config_RetE)
  assume "c = empty_Config"
  then show "wf_config c" by (simp add: wf_config_def empty_Config_def)
next
  fix rootn
  assume "load_section y rootn ''jobs'' (parse_job y) job_name ''job'' = Ret (cfg_jobs c)"
    and "load_section y rootn ''rules'' (parse_rule y) rule_name ''rule'' = Ret (cfg_rules c)"
  from this [THEN load_section_elems] show "wf_config c"
    unfolding wf_config_def by (metis parse_job_wf parse_rule_wf)
qed

section \<open>Properties\<close>

text \<open>C36: a configuration that loads is valid: job and rule names are non-empty and distinct,
  commands are non-empty, timeouts, retries, durations and cooldowns are not negative, and
  every schedule is the well-formed result of parsing the expression stored with it.\<close>

theorem load_config_valid:
  assumes "load_config y file_exists load_file path = Ret cfg"
  shows "wf_config cfg"
  using assms by (rule load_config_wf)

text \<open>Fact: the \<open>jobs\<close> section loads exactly when it is a sequence whose every entry parses with its own
  index and no two entries have the same name; the jobs are kept in file order. A duplicate
  name or a single bad entry rejects the whole file.\<close>

theorem load_jobs_exact:
  assumes "yaml_get y rootn ''jobs'' = Ret (Some n)"
  shows "load_section y rootn ''jobs'' (parse_job y) job_name ''job'' = Ret js \<longleftrightarrow>
    yaml_is_sequence y n \<and> length js = length (yaml_items y n) \<and>
    (\<forall>k < length js. parse_job y (yaml_items y n ! k) k = Ret (js ! k)) \<and>
    distinct (map job_name js)"
  using assms by (auto simp: load_section_def optional_entry_def load_entries_iff)

section \<open>Witnesses\<close>

text \<open>A small YAML document type that meets the interface, and a document with one job.\<close>

datatype ynode = YStr string | YInt int | YSeq "ynode list" | YMap "(string \<times> ynode) list"

fun ynode_get :: "ynode \<Rightarrow> string \<Rightarrow> ynode option cxx" where
  "ynode_get (YMap es) k = Ret (map_of es k)"
| "ynode_get _ k = Throw ''operator[] call on a scalar''"

fun ynode_string :: "ynode \<Rightarrow> string cxx" where
  "ynode_string (YStr s) = Ret s"
| "ynode_string (YInt n) = Ret (to_string n)"
| "ynode_string _ = Throw ''bad conversion''"

fun ynode_int :: "ynode \<Rightarrow> int cxx" where
  "ynode_int (YInt n) = Ret n"
| "ynode_int _ = Throw ''bad conversion''"

fun ynode_items :: "ynode \<Rightarrow> ynode list" where
  "ynode_items (YSeq ns) = ns"
| "ynode_items _ = []"

definition sample_yaml :: "ynode yaml" where
  "sample_yaml = \<lparr>yaml_is_map = (\<lambda>n. case n of YMap _ \<Rightarrow> True | _ \<Rightarrow> False),
     yaml_is_sequence = (\<lambda>n. case n of YSeq _ \<Rightarrow> True | _ \<Rightarrow> False),
     yaml_get = ynode_get, yaml_items = ynode_items, yaml_as_string = ynode_string,
     yaml_as_int = ynode_int, yaml_as_double = (\<lambda>n. Throw ''bad conversion'')\<rparr>"

definition sample_job_node :: ynode where
  "sample_job_node = YMap [(''name'', YStr ''email-scan''), (''command'', YStr ''echo scan''),
     (''schedule'', YStr ''0 8 * * 1''), (''missed_run_policy'', YStr ''run_on_wake''),
     (''timeout_seconds'', YInt 300), (''retries'', YInt 2)]"

definition sample_job :: Job where
  "sample_job = \<lparr>job_name = ''email-scan'', job_command = ''echo scan'',
     job_schedule = Some \<lparr>cs_fields = [{0}, {8}, {1..31}, {1..12}, {1}],
                          dom_wildcard = True, dow_wildcard = False\<rparr>,
     job_schedule_expr = ''0 8 * * 1'', job_missed_run_policy = RunOnWake,
     job_timeout_seconds = 300, job_retries = 2, job_source = ''config''\<rparr>"

definition sample_document :: ynode where
  "sample_document = YMap [(''jobs'', YSeq [sample_job_node]),
     (''quiet_hours'', YMap [(''start_hour'', YInt 23), (''end_hour'', YInt 7)])]"

lemma sample_parse_job: "parse_job sample_yaml sample_job_node 0 = Ret sample_job"
  by code_simp

lemma sample_load:
  "load_config sample_yaml (\<lambda>_. True) (\<lambda>_. Ret sample_document) ''config.yaml'' =
   Ret \<lparr>cfg_jobs = [sample_job], cfg_rules = [],
        cfg_quiet_hours = \<lparr>qh_enabled = True, qh_start_hour = 23, qh_end_hour = 7\<rparr>\<rparr>"
  using sample_parse_job
  by (simp add: load_config_def load_section_def load_quiet_hours_def optional_entry_def
      sample_document_def sample_yaml_def sample_job_def)

theorem load_config_valid_witness:
  "wf_config \<lparr>cfg_jobs = [sample_job], cfg_rules = [],
     cfg_quiet_hours = \<lparr>qh_enabled = True, qh_start_hour = 23, qh_end_hour = 7\<rparr>\<rparr>"
  by (rule load_config_valid [OF sample_load])

theorem load_jobs_exact_witness:
  "load_section sample_yaml sample_document ''jobs'' (parse_job sample_yaml) job_name ''job'' =
   Ret [sample_job]"
proof -
  have "yaml_get sample_yaml sample_document ''jobs'' = Ret (Some (YSeq [sample_job_node]))"
    by (simp add: sample_yaml_def sample_document_def)
  from load_jobs_exact [OF this, of "[sample_job]"] show ?thesis
    using sample_parse_job by (simp add: sample_yaml_def)
qed

end
