(* ===== verification/Shared_State.thy ===== *)
theory Shared_State
  imports Prelude
begin

text \<open>
  The in-memory snapshot of \<open>daemon/src/shared_state.hpp\<close> that the sampler and the scheduler
  write and the socket thread reads. Every member function holds the mutex for its whole
  body, so each is one atomic function on the state. The ring of recent alerts has an
  interface of its own, which both writers rely on.
\<close>

section \<open>Data\<close>

record ProcInfo =
  pi_pid :: int
  pi_name :: string
  pi_cpu_percent :: double
  pi_rss_bytes :: nat

record AlertInfo =
  ai_ts :: int
  ai_rule_name :: string
  ai_severity :: string
  ai_metric :: string
  ai_kind :: string
  ai_value :: double
  ai_threshold :: double
  ai_message :: string
  ai_attribution :: string
  ai_notify :: bool

record SystemSnapshot =
  sys_valid :: bool
  sys_sampled_at :: int
  sys_mem_total_bytes :: nat
  sys_mem_used_bytes :: nat
  sys_mem_used_percent :: double
  sys_disk_total_bytes :: nat
  sys_disk_available_bytes :: nat
  sys_disk_used_percent :: double
  sys_thermal_state :: string
  sys_top_processes :: "ProcInfo list"

record JobStatus =
  js_name :: string
  js_schedule_expr :: string
  js_source :: string
  js_next_run :: int
  js_running :: bool
  js_has_last_run :: bool
  js_last_status :: string
  js_last_started_at :: int
  js_last_exit_code :: int
  js_last_duration_ms :: int
  js_last_trigger :: string

record Cpu =
  cpu_valid :: bool
  cpu_percent :: double
  cpu_sampled_at :: int

record Self =
  self_valid :: bool
  self_rss_bytes :: nat
  self_cpu_percent :: double

record SharedState =
  ss_cpu :: Cpu
  ss_self :: Self
  ss_jobs :: "JobStatus list"
  ss_system :: SystemSnapshot
  ss_alerts :: "AlertInfo list"

definition default_SystemSnapshot :: SystemSnapshot where
  "default_SystemSnapshot = \<lparr>sys_valid = False, sys_sampled_at = 0, sys_mem_total_bytes = 0,
     sys_mem_used_bytes = 0, sys_mem_used_percent = Fin 0, sys_disk_total_bytes = 0,
     sys_disk_available_bytes = 0, sys_disk_used_percent = Fin 0, sys_thermal_state = [],
     sys_top_processes = []\<rparr>"

definition default_JobStatus :: JobStatus where
  "default_JobStatus = \<lparr>js_name = [], js_schedule_expr = [], js_source = ''config'',
     js_next_run = 0, js_running = False, js_has_last_run = False, js_last_status = [],
     js_last_started_at = 0, js_last_exit_code = 0, js_last_duration_ms = 0, js_last_trigger = []\<rparr>"

definition init_SharedState :: SharedState where
  "init_SharedState = \<lparr>
     ss_cpu = \<lparr>cpu_valid = False, cpu_percent = Fin 0, cpu_sampled_at = 0\<rparr>,
     ss_self = \<lparr>self_valid = False, self_rss_bytes = 0, self_cpu_percent = Fin 0\<rparr>,
     ss_jobs = [], ss_system = default_SystemSnapshot, ss_alerts = []\<rparr>"

section \<open>Operations\<close>

definition set_cpu :: "double \<Rightarrow> int \<Rightarrow> SharedState \<Rightarrow> SharedState" where
  "set_cpu percent sampled_at st =
     st\<lparr>ss_cpu := \<lparr>cpu_valid = True, cpu_percent = percent, cpu_sampled_at = sampled_at\<rparr>\<rparr>"

definition set_self :: "nat \<Rightarrow> double \<Rightarrow> SharedState \<Rightarrow> SharedState" where
  "set_self rss_bytes percent st =
     st\<lparr>ss_self := \<lparr>self_valid = True, self_rss_bytes = rss_bytes, self_cpu_percent = percent\<rparr>\<rparr>"

definition set_jobs :: "JobStatus list \<Rightarrow> SharedState \<Rightarrow> SharedState" where
  "set_jobs jobs st = st\<lparr>ss_jobs := jobs\<rparr>"

definition set_system :: "SystemSnapshot \<Rightarrow> SharedState \<Rightarrow> SharedState" where
  "set_system system st = st\<lparr>ss_system := system\<rparr>"

definition set_alerts :: "AlertInfo list \<Rightarrow> SharedState \<Rightarrow> SharedState" where
  "set_alerts alerts st = st\<lparr>ss_alerts := alerts\<rparr>"

text \<open>\<open>insert\<close> at the front, then \<open>resize(cap)\<close> if the vector has grown past \<open>cap\<close>.\<close>

definition add_alert :: "nat \<Rightarrow> AlertInfo \<Rightarrow> SharedState \<Rightarrow> SharedState" where
  "add_alert cap alert st =
     (let alerts = alert # ss_alerts st
      in st\<lparr>ss_alerts := (if length alerts > cap then take cap alerts else alerts)\<rparr>)"

definition kRecentAlerts :: nat where
  "kRecentAlerts = 25"

section \<open>The interface of the alert ring\<close>

text \<open>
  What a writer of the ring relies on: the newest alert is in front and everything beyond the
  capacity is dropped.
\<close>

locale alert_ring =
  fixes push :: "'a \<Rightarrow> 's \<Rightarrow> 's"
    and view :: "'s \<Rightarrow> 'a list"
    and cap :: nat
  assumes view_push: "view (push a s) = take cap (a # view s)"
begin

lemma view_pushes: "view (fold push as s) = take cap (rev as @ view s)" if "length (view s) \<le> cap"
  using that
proof (induction "as" arbitrary: s)
  case Nil
  then show ?case by simp
next
  case (Cons a as)
  have "length (view (push a s)) \<le> cap" by (simp add: view_push)
  from Cons.IH [OF this] show ?case
    by (simp add: view_push take_append min_def)
qed

lemma view_bounded: "length (view (push a s)) \<le> cap"
  by (simp add: view_push)

lemma pushes_bounded: "length (view s) \<le> cap \<Longrightarrow> length (view (fold push as s)) \<le> cap"
  by (simp add: view_pushes)

lemma newest_first: "0 < cap \<Longrightarrow> \<exists>rest. view (push a s) = a # rest"
  by (cases cap) (simp_all add: view_push)

end

interpretation ring: alert_ring "add_alert cap" ss_alerts cap for cap
  by unfold_locales (simp add: add_alert_def Let_def)

text \<open>The other snapshots are not touched by the ring, nor the ring by them.\<close>

lemma add_alert_frame [simp]:
  "ss_jobs (add_alert cap a st) = ss_jobs st" "ss_cpu (add_alert cap a st) = ss_cpu st"
  "ss_self (add_alert cap a st) = ss_self st" "ss_system (add_alert cap a st) = ss_system st"
  by (simp_all add: add_alert_def Let_def)

lemma set_jobs_frame [simp]:
  "ss_jobs (set_jobs js st) = js" "ss_alerts (set_jobs js st) = ss_alerts st"
  "ss_cpu (set_jobs js st) = ss_cpu st" "ss_system (set_jobs js st) = ss_system st"
  by (simp_all add: set_jobs_def)

section \<open>Properties\<close>

text \<open>Fact: after any sequence of alerts from either writer the ring holds the most recent alerts, newest
  first, and never more than the capacity.\<close>

theorem alerts_ring_keeps_newest:
  assumes "length (ss_alerts st) \<le> cap"
  shows "ss_alerts (fold (add_alert cap) as st) = take cap (rev as @ ss_alerts st) \<and>
    length (ss_alerts (fold (add_alert cap) as st)) \<le> cap"
  using ring.view_pushes [OF assms] by simp

definition sample_alert :: "int \<Rightarrow> AlertInfo" where
  "sample_alert n = \<lparr>ai_ts = n, ai_rule_name = ''r'', ai_severity = ''warning'', ai_metric = ''job'',
     ai_kind = ''firing'', ai_value = NaN, ai_threshold = NaN, ai_message = [],
     ai_attribution = [], ai_notify = True\<rparr>"

theorem alerts_ring_keeps_newest_witness:
  "ss_alerts (fold (add_alert 2) [sample_alert 1, sample_alert 2, sample_alert 3] init_SharedState) =
   [sample_alert 3, sample_alert 2]"
  using alerts_ring_keeps_newest
    [of init_SharedState 2 "[sample_alert 1, sample_alert 2, sample_alert 3]"]
  by (simp add: init_SharedState_def)

end
