(* ===== verification/Alert_Engine.thy ===== *)
theory Alert_Engine
  imports Config
begin

text \<open>
  The rule engine of \<open>daemon/src/alerts/alert_engine.hpp\<close> and \<open>alert_engine.cpp\<close>. An evaluation
  takes the metric values and the time as arguments, as in the code. Two library functions
  are parameters: \<open>lt\<close> is \<open>localtime_r\<close> and \<open>show_double\<close> is \<open>operator<<\<close> of an output stream on a
  \<open>double\<close>. The body of the loop over the rules is \<open>rule_step\<close>; a single rule watched over a
  sequence of evaluations is \<open>rule_run\<close>, and the whole engine is proved to be the
  interleaving of its rules.
\<close>

section \<open>Data\<close>

record AlertEvent =
  ev_rule_name :: string
  ev_severity :: string
  ev_metric :: string
  ev_kind :: string
  ev_value :: double
  ev_threshold :: double
  ev_ts :: int
  ev_message :: string
  ev_attribution :: string
  ev_notify :: bool

record RuleState =
  rs_since :: int
  rs_firing :: bool
  rs_notified :: bool
  rs_last_fired :: int

definition init_RuleState :: RuleState where
  "init_RuleState = \<lparr>rs_since = 0, rs_firing = False, rs_notified = False, rs_last_fired = 0\<rparr>"

record AlertEngine =
  ae_rules :: "Rule list"
  ae_quiet_hours :: QuietHours
  ae_state :: "string \<rightharpoonup> RuleState"

type_synonym MetricMap = "string \<rightharpoonup> double"

definition new_engine :: "Rule list \<Rightarrow> QuietHours \<Rightarrow> AlertEngine" where
  "new_engine rules quiet = \<lparr>ae_rules = rules, ae_quiet_hours = quiet, ae_state = Map.empty\<rparr>"

section \<open>Operations\<close>

fun condition_met :: "Condition \<Rightarrow> double \<Rightarrow> double \<Rightarrow> bool" where
  "condition_met GreaterThan v threshold = dbl_less threshold v"
| "condition_met LessThan v threshold = dbl_less v threshold"
| "condition_met AtLeast v threshold = dbl_le threshold v"

definition in_quiet_hours :: "(int \<Rightarrow> tm) \<Rightarrow> QuietHours \<Rightarrow> int \<Rightarrow> bool" where
  "in_quiet_hours lt qh now =
     (if \<not> qh_enabled qh then False
      else let h = tm_hour (lt now); start = qh_start_hour qh; stop = qh_end_hour qh
           in if start = stop then False
              else if start < stop then start \<le> h \<and> h < stop
              else start \<le> h \<or> h < stop)"

definition format_message :: "(double \<Rightarrow> string) \<Rightarrow> Rule \<Rightarrow> double \<Rightarrow> bool \<Rightarrow> string" where
  "format_message show_double rule v firing =
     (if firing
      then rule_name rule @ '': '' @ rule_metric rule @ '' = '' @ show_double v @ '' ('' @
           condition_to_string (rule_condition rule) @ '' '' @
           show_double (rule_threshold rule) @ '')''
      else rule_name rule @ '': recovered ('' @ rule_metric rule @ '' = '' @ show_double v @ '')'')"

text \<open>The body of the loop over \<open>rules_\<close>: the new state of the rule and the events pushed.\<close>

definition rule_step ::
    "(double \<Rightarrow> string) \<Rightarrow> Rule \<Rightarrow> bool \<Rightarrow> MetricMap \<Rightarrow> int \<Rightarrow> string \<Rightarrow> RuleState \<Rightarrow>
     RuleState \<times> AlertEvent list" where
  "rule_step show_double rule quiet metrics now cpu_attribution st =
     (let found = metrics (rule_metric rule);
          have_value = (found \<noteq> None);
          v = (case found of Some x \<Rightarrow> x | None \<Rightarrow> Fin 0);
          met = (have_value \<and> condition_met (rule_condition rule) v (rule_threshold rule))
      in if met
         then
           let st1 = (if rs_since st = 0 then st\<lparr>rs_since := now\<rparr> else st);
               duration_ok = (now - rs_since st1 \<ge> rule_duration_seconds rule)
           in if duration_ok
              then
                let st2 = st1\<lparr>rs_firing := True\<rparr>
                in if \<not> rs_notified st2
                   then
                     let cooldown_ok = (rs_last_fired st2 = 0 \<or>
                           now - rs_last_fired st2 \<ge> rule_cooldown_seconds rule)
                     in if cooldown_ok
                        then (st2\<lparr>rs_notified := True, rs_last_fired := now\<rparr>,
                              [\<lparr>ev_rule_name = rule_name rule, ev_severity = rule_severity rule,
                                ev_metric = rule_metric rule, ev_kind = ''firing'', ev_value = v,
                                ev_threshold = rule_threshold rule, ev_ts = now,
                                ev_message = format_message show_double rule v True,
                                ev_attribution =
                                  (if rule_metric rule = ''system.cpu.percent''
                                   then cpu_attribution else []),
                                ev_notify = (rule_severity rule = ''critical'' \<or> \<not> quiet)\<rparr>])
                        else (st2, [])
                   else (st2, [])
              else (st1, [])
         else
           let st1 = st\<lparr>rs_since := 0, rs_firing := False\<rparr>
           in if rs_notified st1
              then (st1\<lparr>rs_notified := False\<rparr>,
                    [\<lparr>ev_rule_name = rule_name rule, ev_severity = rule_severity rule,
                      ev_metric = rule_metric rule, ev_kind = ''recovered'', ev_value = v,
                      ev_threshold = rule_threshold rule, ev_ts = now,
                      ev_message = format_message show_double rule v False,
                      ev_attribution = [],
                      ev_notify = (rule_severity rule = ''critical'' \<or> \<not> quiet)\<rparr>])
              else (st1, []))"

text \<open>\<open>state_[name]\<close>: a missing entry is created with the initial state.\<close>

definition state_of :: "(string \<rightharpoonup> RuleState) \<Rightarrow> string \<Rightarrow> RuleState" where
  "state_of m n = (case m n of Some st \<Rightarrow> st | None \<Rightarrow> init_RuleState)"

fun eval_rules ::
    "(double \<Rightarrow> string) \<Rightarrow> bool \<Rightarrow> MetricMap \<Rightarrow> int \<Rightarrow> string \<Rightarrow> Rule list \<Rightarrow> (string \<rightharpoonup> RuleState) \<Rightarrow>
     (string \<rightharpoonup> RuleState) \<times> AlertEvent list" where
  "eval_rules sd quiet metrics now attr [] m = (m, [])"
| "eval_rules sd quiet metrics now attr (rule # rules) m =
     (let (st, evs) = rule_step sd rule quiet metrics now attr (state_of m (rule_name rule));
          (m', evs') = eval_rules sd quiet metrics now attr rules (m(rule_name rule \<mapsto> st))
      in (m', evs @ evs'))"

definition evaluate ::
    "(int \<Rightarrow> tm) \<Rightarrow> (double \<Rightarrow> string) \<Rightarrow> MetricMap \<Rightarrow> int \<Rightarrow> string \<Rightarrow> AlertEngine \<Rightarrow>
     AlertEngine \<times> AlertEvent list" where
  "evaluate lt sd metrics now cpu_attribution eng =
     (let quiet = in_quiet_hours lt (ae_quiet_hours eng) now;
          (m, evs) = eval_rules sd quiet metrics now cpu_attribution (ae_rules eng) (ae_state eng)
      in (eng\<lparr>ae_state := m\<rparr>, evs))"

section \<open>Sequences of evaluations\<close>

text \<open>One evaluation of the sampler: the metrics, the time and the attribution handed in.\<close>

record observation =
  ob_metrics :: MetricMap
  ob_now :: int
  ob_attribution :: string

definition run_engine ::
    "(int \<Rightarrow> tm) \<Rightarrow> (double \<Rightarrow> string) \<Rightarrow> observation list \<Rightarrow> AlertEngine \<Rightarrow>
     AlertEngine \<times> AlertEvent list" where
  "run_engine lt sd =
     run_steps (\<lambda>ob. evaluate lt sd (ob_metrics ob) (ob_now ob) (ob_attribution ob))"

text \<open>One rule on its own, and whether its condition holds at an observation.\<close>

definition watch :: "(int \<Rightarrow> tm) \<Rightarrow> (double \<Rightarrow> string) \<Rightarrow> QuietHours \<Rightarrow> Rule \<Rightarrow> observation \<Rightarrow> RuleState \<Rightarrow>
    RuleState \<times> AlertEvent list" where
  "watch lt sd qh rule ob st =
     rule_step sd rule (in_quiet_hours lt qh (ob_now ob)) (ob_metrics ob) (ob_now ob)
       (ob_attribution ob) st"

definition rule_run :: "(int \<Rightarrow> tm) \<Rightarrow> (double \<Rightarrow> string) \<Rightarrow> QuietHours \<Rightarrow> Rule \<Rightarrow> observation list \<Rightarrow>
    RuleState \<Rightarrow> RuleState \<times> AlertEvent list" where
  "rule_run lt sd qh rule = run_steps (watch lt sd qh rule)"

definition rule_met :: "Rule \<Rightarrow> observation \<Rightarrow> bool" where
  "rule_met rule ob =
     (case ob_metrics ob (rule_metric rule) of
        None \<Rightarrow> False
      | Some v \<Rightarrow> condition_met (rule_condition rule) v (rule_threshold rule))"

section \<open>One rule\<close>

definition alert_event :: "(int \<Rightarrow> tm) \<Rightarrow> (double \<Rightarrow> string) \<Rightarrow> QuietHours \<Rightarrow> Rule \<Rightarrow> observation \<Rightarrow> bool \<Rightarrow>
    AlertEvent" where
  "alert_event lt sd qh rule ob firing =
     (let v = (case ob_metrics ob (rule_metric rule) of Some x \<Rightarrow> x | None \<Rightarrow> Fin 0)
      in \<lparr>ev_rule_name = rule_name rule, ev_severity = rule_severity rule,
          ev_metric = rule_metric rule, ev_kind = (if firing then ''firing'' else ''recovered''),
          ev_value = v, ev_threshold = rule_threshold rule, ev_ts = ob_now ob,
          ev_message = format_message sd rule v firing,
          ev_attribution = (if firing \<and> rule_metric rule = ''system.cpu.percent''
                            then ob_attribution ob else []),
          ev_notify = (rule_severity rule = ''critical'' \<or> \<not> in_quiet_hours lt qh (ob_now ob))\<rparr>)"

lemma alert_event_simps [simp]:
  "ev_rule_name (alert_event lt sd qh rule ob f) = rule_name rule"
  "ev_kind (alert_event lt sd qh rule ob f) = (if f then ''firing'' else ''recovered'')"
  "ev_ts (alert_event lt sd qh rule ob f) = ob_now ob"
  "ev_severity (alert_event lt sd qh rule ob f) = rule_severity rule"
  "ev_notify (alert_event lt sd qh rule ob f) =
     (rule_severity rule = ''critical'' \<or> \<not> in_quiet_hours lt qh (ob_now ob))"
  by (simp_all add: alert_event_def Let_def)

definition since_at :: "RuleState \<Rightarrow> observation \<Rightarrow> int" where
  "since_at st ob = (if rs_since st = 0 then ob_now ob else rs_since st)"

definition may_fire :: "Rule \<Rightarrow> observation \<Rightarrow> RuleState \<Rightarrow> bool" where
  "may_fire rule ob st \<longleftrightarrow>
     rule_met rule ob \<and> rule_duration_seconds rule \<le> ob_now ob - since_at st ob \<and>
     \<not> rs_notified st \<and>
     (rs_last_fired st = 0 \<or> rule_cooldown_seconds rule \<le> ob_now ob - rs_last_fired st)"

lemma watch_not_met:
  assumes "\<not> rule_met rule ob"
  shows "watch lt sd qh rule ob st =
    (st\<lparr>rs_since := 0, rs_firing := False, rs_notified := False\<rparr>,
     if rs_notified st then [alert_event lt sd qh rule ob False] else [])"
  using assms
  by (cases "ob_metrics ob (rule_metric rule)"; cases st)
     (auto simp: watch_def rule_step_def rule_met_def alert_event_def Let_def)

lemma watch_fire:
  assumes "may_fire rule ob st"
  shows "watch lt sd qh rule ob st =
    (\<lparr>rs_since = since_at st ob, rs_firing = True, rs_notified = True, rs_last_fired = ob_now ob\<rparr>,
     [alert_event lt sd qh rule ob True])"
  using assms
  by (cases "ob_metrics ob (rule_metric rule)"; cases st)
     (auto simp: watch_def rule_step_def rule_met_def alert_event_def may_fire_def since_at_def Let_def)

lemma watch_hold:
  assumes "rule_met rule ob" "\<not> may_fire rule ob st"
  shows "watch lt sd qh rule ob st =
    (st\<lparr>rs_since := since_at st ob,
        rs_firing := (rs_firing st \<or> rule_duration_seconds rule \<le> ob_now ob - since_at st ob)\<rparr>, [])"
  using assms
  by (cases "ob_metrics ob (rule_metric rule)"; cases st)
     (auto simp: watch_def rule_step_def rule_met_def may_fire_def since_at_def Let_def)

lemma watch_cases [consumes 0, case_names clear fire hold]:
  obtains "\<not> rule_met rule ob" | "may_fire rule ob st" "rule_met rule ob"
  | "rule_met rule ob" "\<not> may_fire rule ob st"
  by (auto simp: may_fire_def)

section \<open>The engine is the interleaving of its rules\<close>

lemma eval_rules_other:
  assumes "n \<notin> rule_name ` set rules" "eval_rules sd quiet metrics now attr rules m = (m', evs)"
  shows "m' n = m n" "filter (\<lambda>e. ev_rule_name e = n) evs = []"
proof -
  have names: "\<forall>e \<in> set (snd (rule_step sd r quiet metrics now attr st)). ev_rule_name e = rule_name r"
    for r st by (simp add: rule_step_def Let_def)
  have "m' n = m n \<and> filter (\<lambda>e. ev_rule_name e = n) evs = []"
    using assms
  proof (induction rules arbitrary: m m' evs)
    case Nil
    then show ?case by simp
  next
    case (Cons r rs)
    obtain st evs1 where s: "rule_step sd r quiet metrics now attr (state_of m (rule_name r)) = (st, evs1)"
      by fastforce
    obtain m2 evs2 where e: "eval_rules sd quiet metrics now attr rs (m(rule_name r \<mapsto> st)) = (m2, evs2)"
      by fastforce
    from Cons.prems s e have m': "m' = m2" "evs = evs1 @ evs2" "n \<noteq> rule_name r" by auto
    moreover have "filter (\<lambda>e. ev_rule_name e = n) evs1 = []"
      using names [of r "state_of m (rule_name r)"] s m'(3) by (auto simp: filter_empty_conv)
    ultimately show ?case using Cons.IH [OF _ e] Cons.prems(1) by auto
  qed
  then show "m' n = m n" "filter (\<lambda>e. ev_rule_name e = n) evs = []" by auto
qed

lemma eval_rules_proj:
  assumes "distinct (map rule_name rules)" "r \<in> set rules"
    "eval_rules sd quiet metrics now attr rules m = (m', evs)"
  shows "m' (rule_name r) = Some (fst (rule_step sd r quiet metrics now attr (state_of m (rule_name r)))) \<and>
    filter (\<lambda>e. ev_rule_name e = rule_name r) evs =
      snd (rule_step sd r quiet metrics now attr (state_of m (rule_name r)))"
  using assms
proof (induction rules arbitrary: m m' evs)
  case Nil
  then show ?case by simp
next
  case (Cons q rs)
  obtain st evs1 where s: "rule_step sd q quiet metrics now attr (state_of m (rule_name q)) = (st, evs1)"
    by fastforce
  obtain m2 evs2 where e: "eval_rules sd quiet metrics now attr rs (m(rule_name q \<mapsto> st)) = (m2, evs2)"
    by fastforce
  from Cons.prems(3) s e have m': "m' = m2" "evs = evs1 @ evs2" by auto
  have names: "\<forall>e \<in> set evs1. ev_rule_name e = rule_name q"
    using arg_cong [OF s, of snd] by (auto simp: rule_step_def Let_def split: if_splits)
  show ?case
  proof (cases "r = q")
    case True
    with Cons.prems(1) have "rule_name r \<notin> rule_name ` set rs" by auto
    from eval_rules_other [OF this e] show ?thesis
      using s True m' names by (simp add: filter_id_conv)
  next
    case False
    with Cons.prems(2) have "r \<in> set rs" by simp
    moreover from this Cons.prems(1) have "rule_name r \<noteq> rule_name q" by (force simp: image_iff)
    ultimately have r: "r \<in> set rs" "rule_name r \<noteq> rule_name q" by simp_all
    then have "filter (\<lambda>e. ev_rule_name e = rule_name r) evs1 = []"
      using names by (auto simp: filter_empty_conv)
    moreover have "state_of (m(rule_name q \<mapsto> st)) (rule_name r) = state_of m (rule_name r)"
      using r(2) by (simp add: state_of_def)
    ultimately show ?thesis
      using Cons.IH [OF _ r(1) e] Cons.prems(1) m' by (simp del: fun_upd_apply)
  qed
qed

lemma evaluate_proj:
  assumes "distinct (map rule_name (ae_rules eng))" "r \<in> set (ae_rules eng)"
    "evaluate lt sd (ob_metrics ob) (ob_now ob) (ob_attribution ob) eng = (eng', evs)"
  shows "state_of (ae_state eng') (rule_name r) =
      fst (watch lt sd (ae_quiet_hours eng) r ob (state_of (ae_state eng) (rule_name r)))"
    "filter (\<lambda>e. ev_rule_name e = rule_name r) evs =
      snd (watch lt sd (ae_quiet_hours eng) r ob (state_of (ae_state eng) (rule_name r)))"
    "ae_rules eng' = ae_rules eng" "ae_quiet_hours eng' = ae_quiet_hours eng"
proof -
  obtain m where m: "eval_rules sd (in_quiet_hours lt (ae_quiet_hours eng) (ob_now ob)) (ob_metrics ob)
      (ob_now ob) (ob_attribution ob) (ae_rules eng) (ae_state eng) = (m, evs)"
    and eng': "eng' = eng\<lparr>ae_state := m\<rparr>"
    using assms(3) by (auto simp: evaluate_def Let_def split: prod.splits)
  show "ae_rules eng' = ae_rules eng" "ae_quiet_hours eng' = ae_quiet_hours eng"
    by (simp_all add: eng')
  show "state_of (ae_state eng') (rule_name r) =
      fst (watch lt sd (ae_quiet_hours eng) r ob (state_of (ae_state eng) (rule_name r)))"
    "filter (\<lambda>e. ev_rule_name e = rule_name r) evs =
      snd (watch lt sd (ae_quiet_hours eng) r ob (state_of (ae_state eng) (rule_name r)))"
    using eval_rules_proj [OF assms(1,2) m] by (simp_all add: eng' watch_def state_of_def)
qed

lemma run_engine_proj:
  assumes "distinct (map rule_name (ae_rules eng))" "r \<in> set (ae_rules eng)"
  shows "filter (\<lambda>e. ev_rule_name e = rule_name r) (snd (run_engine lt sd obs eng)) =
    snd (rule_run lt sd (ae_quiet_hours eng) r obs (state_of (ae_state eng) (rule_name r)))"
  using assms
proof (induction obs arbitrary: eng)
  case Nil
  then show ?case by (simp add: run_engine_def rule_run_def)
next
  case (Cons ob obs)
  obtain eng1 evs where e: "evaluate lt sd (ob_metrics ob) (ob_now ob) (ob_attribution ob) eng = (eng1, evs)"
    by fastforce
  note p = evaluate_proj [OF Cons.prems e]
  have "filter (\<lambda>e. ev_rule_name e = rule_name r) (snd (run_engine lt sd obs eng1)) =
      snd (rule_run lt sd (ae_quiet_hours eng) r obs (state_of (ae_state eng1) (rule_name r)))"
    using Cons.IH [of eng1] Cons.prems p(3,4) by simp
  then show ?case
    using e p(1,2) by (simp add: run_engine_def rule_run_def)
qed

section \<open>The protocol of a monitor\<close>

text \<open>
  What the consumers of the alert stream rely on: a monitor opens an episode, closes it, or
  stays silent, one event at a time. Whoever meets this contract emits an alternating stream.
\<close>

fun alternates :: "('e \<Rightarrow> bool) \<Rightarrow> ('e \<Rightarrow> bool) \<Rightarrow> bool \<Rightarrow> 'e list \<Rightarrow> bool" where
  "alternates opens closes isopen [] = True"
| "alternates opens closes isopen (e # es) =
     (if isopen then closes e \<and> alternates opens closes False es
      else opens e \<and> alternates opens closes True es)"

locale alert_protocol =
  fixes step :: "'i \<Rightarrow> 's \<Rightarrow> 's \<times> 'e list"
    and is_open :: "'s \<Rightarrow> bool"
    and opens :: "'e \<Rightarrow> bool"
    and closes :: "'e \<Rightarrow> bool"
  assumes protocol:
    "(snd (step x s) = [] \<and> is_open (fst (step x s)) = is_open s) \<or>
     (\<exists>e. snd (step x s) = [e] \<and> opens e \<and> \<not> is_open s \<and> is_open (fst (step x s))) \<or>
     (\<exists>e. snd (step x s) = [e] \<and> closes e \<and> is_open s \<and> \<not> is_open (fst (step x s)))"
begin

lemma run_alternates: "alternates opens closes (is_open s) (snd (run_steps step xs s))"
proof (induction xs arbitrary: s)
  case Nil
  then show ?case by simp
next
  case (Cons x xs)
  have IH: "alternates opens closes b (snd (run_steps step xs (fst (step x s))))"
    if "b = is_open (fst (step x s))" for b
    using Cons.IH [of "fst (step x s)"] that by simp
  show ?case
    using protocol [of x s] by (auto simp: IH)
qed

lemma at_most_one_event: "length (snd (step x s)) \<le> 1"
  using protocol [of x s] by auto

end

interpretation rule: alert_protocol "watch lt sd qh r" rs_notified
  "\<lambda>e. ev_kind e = ''firing''" "\<lambda>e. ev_kind e = ''recovered''" for lt sd qh r
proof
  fix ob st
  show "(snd (watch lt sd qh r ob st) = [] \<and>
       rs_notified (fst (watch lt sd qh r ob st)) = rs_notified st) \<or>
     (\<exists>e. snd (watch lt sd qh r ob st) = [e] \<and> ev_kind e = ''firing'' \<and> \<not> rs_notified st \<and>
       rs_notified (fst (watch lt sd qh r ob st))) \<or>
     (\<exists>e. snd (watch lt sd qh r ob st) = [e] \<and> ev_kind e = ''recovered'' \<and> rs_notified st \<and>
       \<not> rs_notified (fst (watch lt sd qh r ob st)))"
  proof (cases rule: watch_cases [where rule = r and ob = ob and st = st])
    case clear
    then show ?thesis by (simp add: watch_not_met)
  next
    case fire
    then show ?thesis by (simp add: watch_fire may_fire_def)
  next
    case hold
    then show ?thesis by (simp add: watch_hold)
  qed
qed


section \<open>A rule over time\<close>

text \<open>The evaluations since the condition of the rule last began to hold.\<close>

definition held :: "Rule \<Rightarrow> observation list \<Rightarrow> observation list" where
  "held rule obs = rev (takeWhile (rule_met rule) (rev obs))"

abbreviation firings :: "AlertEvent list \<Rightarrow> AlertEvent list" where
  "firings \<equiv> filter (\<lambda>e. ev_kind e = ''firing'')"

lemma held_snoc:
  "held rule (obs @ [ob]) = (if rule_met rule ob then held rule obs @ [ob] else [])"
  by (simp add: held_def)

lemma held_suffix: "\<exists>pre. obs = pre @ held rule obs"
proof -
  have "rev obs = takeWhile (rule_met rule) (rev obs) @ dropWhile (rule_met rule) (rev obs)" by simp
  then have "obs = rev (dropWhile (rule_met rule) (rev obs)) @ held rule obs"
    unfolding held_def by (metis rev_append rev_rev_ident)
  then show ?thesis by blast
qed

lemma held_met: "ob \<in> set (held rule obs) \<Longrightarrow> rule_met rule ob"
  by (auto simp: held_def dest: set_takeWhileD)

lemma held_append:
  "held rule (pre @ obs) = (if \<forall>ob \<in> set obs. rule_met rule ob then held rule pre @ obs else held rule obs)"
  by (simp add: held_def takeWhile_append)

lemma rule_run_snoc:
  "rule_run lt sd qh r (obs @ [ob]) st =
    (fst (watch lt sd qh r ob (fst (rule_run lt sd qh r obs st))),
     snd (rule_run lt sd qh r obs st) @ snd (watch lt sd qh r ob (fst (rule_run lt sd qh r obs st))))"
  by (simp add: rule_run_def run_steps_snoc prod_eq_iff)

lemma run_since:
  assumes "\<forall>ob \<in> set obs. ob_now ob \<noteq> 0"
  shows "rs_since (fst (rule_run lt sd qh r obs init_RuleState)) =
    (case held r obs of [] \<Rightarrow> 0 | ob # _ \<Rightarrow> ob_now ob)"
  using assms
proof (induction obs rule: rev_induct)
  case Nil
  then show ?case by (simp add: rule_run_def held_def init_RuleState_def)
next
  case (snoc ob obs)
  let ?st = "fst (rule_run lt sd qh r obs init_RuleState)"
  have nz: "ob_now o' \<noteq> 0" if "o' \<in> set (held r obs)" for o'
    using that snoc.prems held_suffix [of obs r] by (metis Un_iff set_append)
  have since: "since_at ?st ob = (case held r obs of [] \<Rightarrow> ob_now ob | o' # _ \<Rightarrow> ob_now o')"
    using snoc nz by (auto simp: since_at_def split: list.split)
  have tail: "(case held r obs @ [ob] of [] \<Rightarrow> 0 | o' # _ \<Rightarrow> ob_now o') =
      (case held r obs of [] \<Rightarrow> ob_now ob | o' # _ \<Rightarrow> ob_now o')"
    by (simp split: list.split)
  show ?case
    by (cases rule: watch_cases [where rule = r and ob = ob and st = ?st])
       (simp_all add: rule_run_snoc held_snoc watch_not_met watch_fire watch_hold since tail)
qed

lemma firings_event: "e \<in> set (snd (watch lt sd qh r ob st)) \<Longrightarrow>
    ev_kind e = ''firing'' \<Longrightarrow> may_fire r ob st \<and> e = alert_event lt sd qh r ob True"
  by (cases rule: watch_cases [where rule = r and ob = ob and st = st])
     (auto simp: watch_not_met watch_fire watch_hold split: if_splits)

lemma run_last_fired:
  "rs_last_fired (fst (rule_run lt sd qh r obs st)) =
    (case rev (firings (snd (rule_run lt sd qh r obs st))) of [] \<Rightarrow> rs_last_fired st | e # _ \<Rightarrow> ev_ts e)"
proof (induction obs rule: rev_induct)
  case Nil
  then show ?case by (simp add: rule_run_def)
next
  case (snoc ob obs)
  then show ?case
    by (cases rule: watch_cases [where rule = r and ob = ob and st = "fst (rule_run lt sd qh r obs st)"])
       (simp_all add: rule_run_snoc watch_not_met watch_fire watch_hold)
qed

lemma run_notified:
  assumes "obs \<noteq> []" "\<not> rule_met r (last obs)"
  shows "\<not> rs_notified (fst (rule_run lt sd qh r obs st))"
  using assms by (cases obs rule: rev_cases) (simp_all add: rule_run_snoc watch_not_met)

lemma run_held_events:
  assumes "\<forall>ob \<in> set obs. rule_met r ob"
  shows "length (snd (rule_run lt sd qh r obs st)) =
      (if rs_notified (fst (rule_run lt sd qh r obs st)) \<and> \<not> rs_notified st then 1 else 0) \<and>
    (rs_notified st \<longrightarrow> rs_notified (fst (rule_run lt sd qh r obs st)))  \<and>
    (\<forall>e \<in> set (snd (rule_run lt sd qh r obs st)). ev_kind e = ''firing'')"
  using assms
proof (induction obs rule: rev_induct)
  case Nil
  then show ?case by (simp add: rule_run_def)
next
  case (snoc ob obs)
  then show ?case
    by (cases rule: watch_cases [where rule = r and ob = ob and st = "fst (rule_run lt sd qh r obs st)"])
       (auto simp: rule_run_snoc watch_fire watch_hold may_fire_def)
qed


section \<open>What the engine guarantees\<close>

abbreviation rule_events where
  "rule_events lt sd rules qh r obs \<equiv>
     filter (\<lambda>e. ev_rule_name e = rule_name r) (snd (run_engine lt sd obs (new_engine rules qh)))"

lemma rule_events_run:
  assumes "distinct (map rule_name rules)" "r \<in> set rules"
  shows "rule_events lt sd rules qh r obs = snd (rule_run lt sd qh r obs init_RuleState)"
  using run_engine_proj [of "new_engine rules qh" r lt sd obs] assms
  by (simp add: new_engine_def state_of_def)

lemma run_cooldown:
  assumes "\<forall>ob \<in> set obs. ob_now ob \<noteq> 0"
  shows "successively (\<lambda>a b. rule_cooldown_seconds r \<le> b - a)
    ((if rs_last_fired st = 0 then [] else [rs_last_fired st]) @
     map ev_ts (firings (snd (rule_run lt sd qh r obs st))))"
  using assms
proof (induction obs arbitrary: st)
  case Nil
  then show ?case by (simp add: rule_run_def)
next
  case (Cons ob obs)
  have IH: "successively (\<lambda>a b. rule_cooldown_seconds r \<le> b - a)
      ((if rs_last_fired st = 0 then [] else [rs_last_fired st]) @
       map ev_ts (firings (snd (rule_run lt sd qh r obs st))))" for st
    using Cons by simp
  show ?case
    using IH [of "fst (watch lt sd qh r ob st)"] Cons.prems
    by (cases rule: watch_cases [where rule = r and ob = ob and st = st])
       (auto simp: rule_run_def watch_not_met watch_fire watch_hold may_fire_def successively_Cons)
qed

lemma run_fires_when_due:
  assumes nz: "\<forall>ob \<in> set (pre @ obs). ob_now ob \<noteq> 0"
    and before: "pre = [] \<or> \<not> rule_met r (last pre)"
    and obs: "obs \<noteq> []" "\<forall>ob \<in> set obs. rule_met r ob"
    and duration: "rule_duration_seconds r \<le> ob_now (last obs) - ob_now (hd obs)"
    and cooldown: "\<forall>e \<in> set (firings (snd (rule_run lt sd qh r pre init_RuleState))).
      rule_cooldown_seconds r \<le> ob_now (last obs) - ev_ts e"
  shows "length (snd (rule_run lt sd qh r obs (fst (rule_run lt sd qh r pre init_RuleState)))) = 1"
proof -
  let ?run = "\<lambda>obs. rule_run lt sd qh r obs"
  let ?st = "fst (?run pre init_RuleState)"
  obtain ini ob where ini: "obs = ini @ [ob]" using obs(1) by (cases obs rule: rev_cases) auto
  have fresh: "\<not> rs_notified ?st"
    using before run_notified [of pre r lt sd qh init_RuleState]
    by (cases "pre = []") (simp_all add: rule_run_def init_RuleState_def)
  let ?mid = "fst (?run ini ?st)"
  have mid: "?mid = fst (?run (pre @ ini) init_RuleState)"
    by (simp add: rule_run_def run_steps_append split_beta)
  have "held r pre = []"
    using before by (cases pre rule: rev_cases) (simp_all add: held_def)
  then have held: "held r (pre @ ini) = ini" using obs(2) by (simp add: held_append ini)
  have "rs_since ?mid = (case ini of [] \<Rightarrow> 0 | o' # _ \<Rightarrow> ob_now o')"
    using run_since [of "pre @ ini" lt sd qh r] nz unfolding mid held by (simp add: ini)
  then have "since_at ?mid ob = ob_now (hd obs)"
    using nz by (cases ini) (simp_all add: since_at_def ini)
  moreover have "rs_notified (fst (?run obs ?st))"
    if "since_at ?mid ob = ob_now (hd obs)"
  proof (cases "rs_notified ?mid")
    case True
    with obs(2) show ?thesis
      by (cases "may_fire r ob ?mid") (simp_all add: ini rule_run_snoc watch_fire watch_hold)
  next
    case False
    have "snd (?run ini ?st) = []"
      using run_held_events [of ini r lt sd qh ?st] obs(2) False by (simp add: ini)
    then have "rs_last_fired ?mid = rs_last_fired ?st" by (simp add: run_last_fired)
    moreover have "rs_last_fired ?st = 0 \<or> rule_cooldown_seconds r \<le> ob_now ob - rs_last_fired ?st"
    proof (cases "rev (firings (snd (?run pre init_RuleState)))")
      case Nil
      then show ?thesis by (simp add: run_last_fired init_RuleState_def)
    next
      case (Cons e es)
      then have "e \<in> set (firings (snd (?run pre init_RuleState)))"
        using set_rev [of "firings (snd (?run pre init_RuleState))"] by simp
      from bspec [OF cooldown this] Cons show ?thesis by (simp add: run_last_fired ini)
    qed
    ultimately have "may_fire r ob ?mid"
      using obs(2) duration that False by (simp add: may_fire_def ini)
    then show ?thesis by (simp add: ini rule_run_snoc watch_fire)
  qed
  ultimately show ?thesis
    using run_held_events [OF obs(2), of lt sd qh ?st] fresh by simp
qed


lemma eval_rules_mute:
  "eval_rules sd False metrics now attr rules m =
    (fst (eval_rules sd quiet metrics now attr rules m),
     map (ev_notify_update (\<lambda>_. True)) (snd (eval_rules sd quiet metrics now attr rules m)))"
proof (induction rules arbitrary: m)
  case Nil
  then show ?case by simp
next
  case (Cons r rs)
  obtain st evs where s: "rule_step sd r quiet metrics now attr (state_of m (rule_name r)) = (st, evs)"
    by fastforce
  then have "rule_step sd r False metrics now attr (state_of m (rule_name r)) =
      (st, map (ev_notify_update (\<lambda>_. True)) evs)"
    by (auto simp: rule_step_def Let_def split: if_splits)
  with s show ?case by (simp add: Cons.IH [of "m(rule_name r \<mapsto> st)"] split_beta del: fun_upd_apply)
qed

lemma run_engine_mute:
  "map (ev_notify_update (\<lambda>_. True)) (snd (run_engine lt sd obs eng)) =
   snd (run_engine lt sd obs (eng\<lparr>ae_quiet_hours := (ae_quiet_hours eng)\<lparr>qh_enabled := False\<rparr>\<rparr>))"
proof (induction obs arbitrary: eng)
  case Nil
  then show ?case by (simp add: run_engine_def)
next
  case (Cons ob obs)
  let ?off = "\<lambda>eng. eng\<lparr>ae_quiet_hours := (ae_quiet_hours eng)\<lparr>qh_enabled := False\<rparr>\<rparr>"
  let ?ev = "\<lambda>eng. evaluate lt sd (ob_metrics ob) (ob_now ob) (ob_attribution ob) eng"
  have step: "?ev (?off eng) = (?off (fst (?ev eng)), map (ev_notify_update (\<lambda>_. True)) (snd (?ev eng)))"
    using eval_rules_mute [of sd "ob_metrics ob" "ob_now ob" "ob_attribution ob" "ae_rules eng" "ae_state eng"
        "in_quiet_hours lt (ae_quiet_hours eng) (ob_now ob)"]
    by (simp add: evaluate_def in_quiet_hours_def Let_def split_beta)
  show ?case
    using Cons.IH [of "fst (?ev eng)"] by (simp add: run_engine_def step)
qed

subsection \<open>Properties\<close>

definition sample_rule :: Rule where
  "sample_rule = \<lparr>rule_name = ''hot'', rule_metric = ''cpu'', rule_condition = GreaterThan,
     rule_threshold = Fin 90, rule_duration_seconds = 10, rule_cooldown_seconds = 60,
     rule_severity = ''warning''\<rparr>"

definition sample_obs :: "real \<Rightarrow> int \<Rightarrow> observation" where
  "sample_obs v t = \<lparr>ob_metrics = [''cpu'' \<mapsto> Fin v], ob_now = t, ob_attribution = []\<rparr>"

definition no_quiet :: QuietHours where
  "no_quiet = \<lparr>qh_enabled = False, qh_start_hour = 0, qh_end_hour = 0\<rparr>"

lemma sample_met [simp]: "rule_met sample_rule (sample_obs v t) \<longleftrightarrow> 90 < v"
  by (simp add: rule_met_def sample_rule_def sample_obs_def)

lemma sample_fields [simp]:
  "rule_name sample_rule = ''hot''" "rule_duration_seconds sample_rule = 10"
  "rule_cooldown_seconds sample_rule = 60" "rule_severity sample_rule = ''warning''"
  "ob_now (sample_obs v t) = t"
  by (simp_all add: sample_rule_def sample_obs_def)

text \<open>C21: the engine treats its rules independently. For rules with distinct names, the events it
  emits for one rule over any sequence of evaluations are the events of that rule watched on
  its own, from the initial state, over the same sequence.\<close>

theorem rules_are_independent:
  assumes "distinct (map rule_name rules)" "r \<in> set rules"
  shows "filter (\<lambda>e. ev_rule_name e = rule_name r) (snd (run_engine lt sd obs (new_engine rules qh))) =
    snd (rule_run lt sd qh r obs init_RuleState)"
  using assms by (rule rule_events_run)

theorem rules_are_independent_witness:
  "filter (\<lambda>e. ev_rule_name e = ''hot'')
     (snd (run_engine utc_day (\<lambda>_. []) [sample_obs 95 100, sample_obs 95 110]
        (new_engine [sample_rule, sample_rule\<lparr>rule_name := ''other''\<rparr>] no_quiet))) =
   snd (rule_run utc_day (\<lambda>_. []) no_quiet sample_rule [sample_obs 95 100, sample_obs 95 110]
     init_RuleState)"
  using rules_are_independent [of "[sample_rule, sample_rule\<lparr>rule_name := ''other''\<rparr>]" sample_rule]
  by simp

text \<open>C24: for every rule the stream of events alternates: it starts with a firing, every firing is
  followed by a recovery before the next firing, and no evaluation emits a second event.\<close>

theorem alerts_alternate:
  assumes "distinct (map rule_name rules)" "r \<in> set rules"
  shows "alternates (\<lambda>e. ev_kind e = ''firing'') (\<lambda>e. ev_kind e = ''recovered'') False
    (filter (\<lambda>e. ev_rule_name e = rule_name r) (snd (run_engine lt sd obs (new_engine rules qh))))"
  using rule.run_alternates [of init_RuleState lt sd qh r obs] rule_events_run [OF assms]
  by (simp add: rule_run_def init_RuleState_def)

theorem alerts_alternate_witness:
  "alternates (\<lambda>e. ev_kind e = ''firing'') (\<lambda>e. ev_kind e = ''recovered'') False
     (filter (\<lambda>e. ev_rule_name e = ''hot'')
       (snd (run_engine utc_day (\<lambda>_. []) [sample_obs 95 100, sample_obs 95 110, sample_obs 5 120]
          (new_engine [sample_rule] no_quiet))))"
  using alerts_alternate [of "[sample_rule]" sample_rule] by simp

text \<open>C25: two consecutive firings of a rule are at least its cooldown apart, whatever the metrics did
  in between, as long as no evaluation happens at epoch zero.\<close>

theorem firings_respect_cooldown:
  assumes "distinct (map rule_name rules)" "r \<in> set rules" "\<forall>ob \<in> set obs. ob_now ob \<noteq> 0"
  shows "successively (\<lambda>a b. rule_cooldown_seconds r \<le> b - a)
    (map ev_ts (filter (\<lambda>e. ev_kind e = ''firing'')
      (filter (\<lambda>e. ev_rule_name e = rule_name r) (snd (run_engine lt sd obs (new_engine rules qh))))))"
  using run_cooldown [OF assms(3), of r init_RuleState lt sd qh] rule_events_run [OF assms(1,2)]
  by (simp add: init_RuleState_def)

theorem firings_respect_cooldown_witness:
  "successively (\<lambda>a b. 60 \<le> b - a)
    (map ev_ts (filter (\<lambda>e. ev_kind e = ''firing'') (filter (\<lambda>e. ev_rule_name e = ''hot'')
      (snd (run_engine utc_day (\<lambda>_. []) [sample_obs 95 100, sample_obs 5 110, sample_obs 95 120]
        (new_engine [sample_rule] no_quiet))))))"
  using firings_respect_cooldown [of "[sample_rule]" sample_rule
      "[sample_obs 95 100, sample_obs 5 110, sample_obs 95 120]"]
  by simp

text \<open>C22: a firing is justified by the history. When the evaluation after a history emits a firing
  for a rule, the condition held at that evaluation and at every one of a run of evaluations
  right before it, the first of which is at least the rule's duration old; the event
  carries the time, value and message of the evaluation, and it asks for a notification
  unless quiet hours hold it back (a critical rule always asks).\<close>

theorem firing_is_justified:
  assumes "distinct (map rule_name rules)" "r \<in> set rules" "\<forall>ob \<in> set (obs @ [ob]). ob_now ob \<noteq> 0"
    and "evaluate lt sd (ob_metrics ob) (ob_now ob) (ob_attribution ob)
      (fst (run_engine lt sd obs (new_engine rules qh))) = (eng', evs)"
    and "e \<in> set evs" "ev_rule_name e = rule_name r" "ev_kind e = ''firing''"
  shows "\<exists>pre start mid v. obs @ [ob] = pre @ start # mid \<and>
    (\<forall>o' \<in> set (start # mid). rule_met r o') \<and>
    rule_duration_seconds r \<le> ob_now ob - ob_now start \<and>
    ob_metrics ob (rule_metric r) = Some v \<and> ev_value e = v \<and> ev_ts e = ob_now ob \<and>
    ev_message e = format_message sd r v True \<and>
    ev_notify e = (rule_severity r = ''critical'' \<or> \<not> in_quiet_hours lt qh (ob_now ob))"
proof -
  let ?st = "fst (rule_run lt sd qh r obs init_RuleState)"
  have "snd (run_engine lt sd (obs @ [ob]) (new_engine rules qh)) =
      snd (run_engine lt sd obs (new_engine rules qh)) @ evs"
    using assms(4) by (simp add: run_engine_def run_steps_snoc)
  then have "filter (\<lambda>e. ev_rule_name e = rule_name r) evs = snd (watch lt sd qh r ob ?st)"
    using rule_events_run [OF assms(1,2), where lt = lt and sd = sd and obs = "obs @ [ob]" and qh = qh]
      rule_events_run [OF assms(1,2), where lt = lt and sd = sd and obs = obs and qh = qh]
    by (simp add: rule_run_snoc)
  moreover have "e \<in> set (filter (\<lambda>e. ev_rule_name e = rule_name r) evs)" using assms(5,6) by simp
  ultimately have "e \<in> set (snd (watch lt sd qh r ob ?st))" by simp
  then have fire: "may_fire r ob ?st" and e: "e = alert_event lt sd qh r ob True"
    using firings_event assms(7) by blast+
  obtain v where v: "ob_metrics ob (rule_metric r) = Some v"
    using fire by (auto simp: may_fire_def rule_met_def split: option.splits)
  obtain pre where pre: "obs = pre @ held r obs" using held_suffix by blast
  obtain start mid where start: "held r obs @ [ob] = start # mid" by (cases "held r obs") auto
  have "rs_since ?st = (case held r obs of [] \<Rightarrow> 0 | ob # _ \<Rightarrow> ob_now ob)"
    using assms(3) by (intro run_since) simp
  moreover have "\<forall>o' \<in> set (held r obs). ob_now o' \<noteq> 0"
    using assms(3) pre by (metis UnCI set_append)
  ultimately have "since_at ?st ob = ob_now start"
    using start by (cases "held r obs") (auto simp: since_at_def)
  moreover have "\<forall>o' \<in> set (start # mid). rule_met r o'"
    using held_met fire by (auto simp: may_fire_def simp flip: start)
  moreover have "obs @ [ob] = pre @ start # mid" using pre start by (metis append.assoc)
  ultimately show ?thesis
    using fire v by (intro exI [of _ pre] exI [of _ start] exI [of _ mid] exI [of _ v])
      (simp add: e alert_event_def may_fire_def)
qed


theorem firing_is_justified_witness:
  "\<exists>eng e pre start mid.
    evaluate utc_day (\<lambda>_. []) [''cpu'' \<mapsto> Fin 96] 110 []
      (fst (run_engine utc_day (\<lambda>_. []) [sample_obs 95 100] (new_engine [sample_rule] no_quiet))) =
      (eng, [e]) \<and> ev_kind e = ''firing'' \<and>
    [sample_obs 95 100] @ [sample_obs 96 110] = pre @ start # mid \<and> 10 \<le> 110 - ob_now start"
proof -
  let ?eng = "fst (run_engine utc_day (\<lambda>_. []) [sample_obs 95 100] (new_engine [sample_rule] no_quiet))"
  let ?obs = "sample_obs 96 110"
  obtain eng e where ev: "evaluate utc_day (\<lambda>_. []) (ob_metrics ?obs) (ob_now ?obs)
      (ob_attribution ?obs) ?eng = (eng, [e])" "ev_rule_name e = ''hot''" "ev_kind e = ''firing''"
    by (simp add: run_engine_def run_steps.simps evaluate_def rule_step_def state_of_def new_engine_def
      sample_rule_def sample_obs_def init_RuleState_def Let_def)
  from firing_is_justified [of "[sample_rule]" sample_rule "[sample_obs 95 100]", OF _ _ _ ev(1), of e] ev
  show ?thesis by (auto simp: sample_obs_def)
qed

text \<open>C23: a rule whose condition has held for its duration does fire. After any history that did not
  end inside an episode, a run of evaluations at which the condition holds, long enough for
  the duration and with the cooldown over since every earlier firing of the rule, emits
  exactly one event for the rule, and it is a firing.\<close>

theorem firing_happens:
  assumes "distinct (map rule_name rules)" "r \<in> set rules"
    and "\<forall>ob \<in> set (pre @ obs). ob_now ob \<noteq> 0" "pre = [] \<or> \<not> rule_met r (last pre)"
    and "obs \<noteq> []" "\<forall>ob \<in> set obs. rule_met r ob"
    and "rule_duration_seconds r \<le> ob_now (last obs) - ob_now (hd obs)"
    and "\<forall>e \<in> set (snd (run_engine lt sd pre (new_engine rules qh))).
      ev_rule_name e = rule_name r \<and> ev_kind e = ''firing'' \<longrightarrow>
      rule_cooldown_seconds r \<le> ob_now (last obs) - ev_ts e"
  shows "\<exists>e. filter (\<lambda>e. ev_rule_name e = rule_name r)
      (snd (run_engine lt sd (pre @ obs) (new_engine rules qh))) =
    filter (\<lambda>e. ev_rule_name e = rule_name r) (snd (run_engine lt sd pre (new_engine rules qh))) @ [e] \<and>
    ev_kind e = ''firing''"
proof -
  let ?st = "fst (rule_run lt sd qh r pre init_RuleState)"
  note proj = rule_events_run [OF assms(1,2), where lt = lt and sd = sd and qh = qh]
  have "\<forall>e \<in> set (firings (rule_events lt sd rules qh r pre)).
      rule_cooldown_seconds r \<le> ob_now (last obs) - ev_ts e"
    using assms(8) by simp
  from run_fires_when_due [OF assms(3-7) this [unfolded proj]]
  obtain e where e: "snd (rule_run lt sd qh r obs ?st) = [e]"
    by (auto simp: length_Suc_conv)
  moreover have "ev_kind e = ''firing''"
    using run_held_events [OF assms(6), of lt sd qh ?st] e by simp
  moreover have "snd (rule_run lt sd qh r (pre @ obs) init_RuleState) =
      snd (rule_run lt sd qh r pre init_RuleState) @ snd (rule_run lt sd qh r obs ?st)"
    by (simp add: rule_run_def run_steps_append split_beta)
  ultimately show ?thesis by (simp add: proj)
qed

theorem firing_happens_witness:
  "\<exists>e. filter (\<lambda>e. ev_rule_name e = ''hot'')
      (snd (run_engine utc_day (\<lambda>_. []) [sample_obs 5 50, sample_obs 95 100, sample_obs 99 110]
        (new_engine [sample_rule] no_quiet))) = [e] \<and> ev_kind e = ''firing''"
proof -
  have "snd (run_engine utc_day (\<lambda>_. []) [sample_obs 5 50] (new_engine [sample_rule] no_quiet)) = []"
    by (simp add: run_engine_def evaluate_def rule_step_def state_of_def new_engine_def
      sample_rule_def sample_obs_def init_RuleState_def)
  with firing_happens [of "[sample_rule]" sample_rule "[sample_obs 5 50]"
      "[sample_obs 95 100, sample_obs 99 110]" utc_day "\<lambda>_. []" no_quiet]
  show ?thesis by simp
qed

text \<open>Fact: quiet hours are the hours of a circular interval: with hours in 0 to 23, the hour of the
  local time is quiet exactly when its distance after the start, around the clock, is less
  than the length of the interval. An interval of equal ends is empty, and one whose end
  is before its start wraps past midnight.\<close>

theorem quiet_hours_circular:
  assumes "qh_enabled qh" "0 \<le> qh_start_hour qh" "qh_start_hour qh < 24" "0 \<le> qh_end_hour qh"
    "qh_end_hour qh < 24" "0 \<le> tm_hour (lt now)" "tm_hour (lt now) < 24"
  shows "in_quiet_hours lt qh now \<longleftrightarrow>
    (tm_hour (lt now) - qh_start_hour qh) mod 24 < (qh_end_hour qh - qh_start_hour qh) mod 24"
proof -
  have wrap: "(a - b) mod 24 = (if b \<le> a then a - b else a - b + 24)"
    if "0 \<le> a" "a < 24" "0 \<le> b" "b < 24" for a b :: int
    using that mod_pos_pos_trivial [of "a - b" 24] mod_pos_pos_trivial [of "a - b + 24" 24]
    by auto
  show ?thesis
    using assms by (auto simp: in_quiet_hours_def Let_def wrap)
qed

theorem quiet_hours_circular_witness:
  "in_quiet_hours (\<lambda>t. (utc_day t)\<lparr>tm_hour := 23\<rparr>)
     \<lparr>qh_enabled = True, qh_start_hour = 22, qh_end_hour = 7\<rparr> 0 \<longleftrightarrow> (23 - 22) mod 24 < (7 - 22) mod (24 :: int)"
  using quiet_hours_circular [of "\<lparr>qh_enabled = True, qh_start_hour = 22, qh_end_hour = 7\<rparr>"
      "\<lambda>t. (utc_day t)\<lparr>tm_hour := 23\<rparr>" 0]
  by simp

text \<open>Fact: quiet hours only mute. Over any sequence of evaluations the engine emits the very same
  events, in the same order, whatever the quiet hours are; they differ only in the request
  for a notification, which every event makes when there are no quiet hours.\<close>

theorem quiet_hours_only_mute:
  "map (ev_notify_update (\<lambda>_. True)) (snd (run_engine lt sd obs (new_engine rules qh))) =
   snd (run_engine lt sd obs (new_engine rules (qh\<lparr>qh_enabled := False\<rparr>)))"
  using run_engine_mute [where eng = "new_engine rules qh"] by (simp add: new_engine_def)

end
