(* ===== verification/Notifier.thy ===== *)
theory Notifier
  imports Prelude
begin

text \<open>
  Native notifications, \<open>daemon/src/alerts/notifier.cpp\<close>: the AppleScript text built from a title
  and a message and handed to \<open>osascript\<close>. Spawning the process is a parameter (the return
  code of \<open>posix_spawn\<close>), and so is the language \<open>osascript\<close> reads: its string literals enter a
  theorem as the laws of a reader.
\<close>

section \<open>Operations\<close>

abbreviation backslash :: char where "backslash \<equiv> CHR 0x5C"
abbreviation dquote :: char where "dquote \<equiv> CHR 0x22"
abbreviation newline :: char where "newline \<equiv> CHR 0x0A"

fun escape_applescript :: "string \<Rightarrow> string" where
  "escape_applescript [] = []"
| "escape_applescript (c # cs) =
     (if c = backslash \<or> c = dquote then [backslash] else []) @
     (if c = newline then [backslash, CHR ''n''] else [c]) @ escape_applescript cs"

definition notification_script :: "string \<Rightarrow> string \<Rightarrow> string" where
  "notification_script title message =
     ''display notification '' @ [dquote] @ escape_applescript message @ [dquote] @
     '' with title '' @ [dquote] @ escape_applescript title @ [dquote]"

text \<open>The argument vector handed to \<open>posix_spawn\<close> and the warning logged when it fails.\<close>

definition send_notification :: "int \<Rightarrow> string \<Rightarrow> string \<Rightarrow> string list \<times> string list" where
  "send_notification rc title message =
     ([''osascript'', ''-e'', c_str (notification_script title message)],
      if rc \<noteq> 0 then [''notification spawn failed (rc='' @ to_string rc @ '')''] else [])"

section \<open>Lemmas\<close>

lemma escape_nul_free [simp]: "nul_free (escape_applescript s) = nul_free s"
proof -
  have "code_of backslash \<noteq> 0" "code_of (CHR ''n'') \<noteq> 0" "code_of newline \<noteq> 0"
    by (simp_all add: code_of_def)
  then have "(\<exists>c \<in> set (escape_applescript s). code_of c = 0) = (\<exists>c \<in> set s. code_of c = 0)"
    by (induction s) auto
  then show ?thesis by (auto simp: nul_free_def)
qed

lemma script_nul_free:
  "nul_free title \<Longrightarrow> nul_free message \<Longrightarrow> nul_free (notification_script title message)"
  using escape_nul_free [of title] escape_nul_free [of message]
  by (auto simp: notification_script_def nul_free_def code_of_def)

text \<open>A reader of string literals undoes the escaping and stops at the closing quote.\<close>

lemma reader_undoes_escape:
  assumes "\<And>s. rd (dquote # s) = Some ([], s)"
    and "\<And>c s. c = backslash \<or> c = dquote \<Longrightarrow>
      rd (backslash # c # s) = map_option (\<lambda>(b, r). (c # b, r)) (rd s)"
    and "\<And>s. rd (backslash # CHR ''n'' # s) = map_option (\<lambda>(b, r). (newline # b, r)) (rd s)"
    and "\<And>c s. c \<noteq> backslash \<Longrightarrow> c \<noteq> dquote \<Longrightarrow> rd (c # s) = map_option (\<lambda>(b, r). (c # b, r)) (rd s)"
  shows "rd (escape_applescript s @ dquote # t) = Some (s, t)"
  by (induction s) (simp_all add: assms)

section \<open>Properties\<close>

text \<open>C37: no text can break out of its literal. For any title and message without a NUL byte, the
  script passed to \<open>osascript\<close> is \<open>display notification\<close>, a literal that reads back as exactly
  the message, \<open>with title\<close>, and a literal that reads back as exactly the title, with nothing
  after it, for every reader of literals with the four documented rules: a quote ends the
  literal, a backslash before a backslash or a quote stands for that character, backslash n
  stands for a newline, and every other character for itself.\<close>

theorem notification_script_safe:
  assumes "nul_free title" "nul_free message"
    and "\<And>s. rd (CHR 0x22 # s) = Some ([], s)"
    and "\<And>c s. c = CHR 0x5C \<or> c = CHR 0x22 \<Longrightarrow>
      rd (CHR 0x5C # c # s) = map_option (\<lambda>(b, r). (c # b, r)) (rd s)"
    and "\<And>s. rd (CHR 0x5C # CHR ''n'' # s) = map_option (\<lambda>(b, r). (CHR 0x0A # b, r)) (rd s)"
    and "\<And>c s. c \<noteq> CHR 0x5C \<Longrightarrow> c \<noteq> CHR 0x22 \<Longrightarrow>
      rd (c # s) = map_option (\<lambda>(b, r). (c # b, r)) (rd s)"
  shows "\<exists>lit1 lit2. fst (send_notification rc title message) =
      [''osascript'', ''-e'', ''display notification '' @ CHR 0x22 # lit1] \<and>
    rd lit1 = Some (message, '' with title '' @ CHR 0x22 # lit2) \<and> rd lit2 = Some (title, [])"
proof -
  note rd = reader_undoes_escape [of rd, OF assms(3-6)]
  have "c_str (notification_script title message) = notification_script title message"
    using assms(1,2) by (simp add: script_nul_free c_str_id)
  then show ?thesis
    by (intro exI [of _ "escape_applescript message @ dquote # '' with title '' @ dquote #
          escape_applescript title @ [dquote]"] exI [of _ "escape_applescript title @ [dquote]"])
       (simp add: send_notification_def notification_script_def rd)
qed

fun read_literal :: "string \<Rightarrow> (string \<times> string) option" where
  "read_literal [] = None"
| "read_literal (c # s) =
     (if c = dquote then Some ([], s)
      else if c = backslash then
        (case s of
           [] \<Rightarrow> None
         | d # t \<Rightarrow>
             map_option (\<lambda>(b, r). ((if d = CHR ''n'' then newline else d) # b, r)) (read_literal t))
      else map_option (\<lambda>(b, r). (c # b, r)) (read_literal s))"

theorem notification_script_safe_witness:
  "\<exists>lit1 lit2. fst (send_notification 0 ''T'' [CHR 0x22, CHR 0x0A]) =
      [''osascript'', ''-e'', ''display notification '' @ CHR 0x22 # lit1] \<and>
    read_literal lit1 = Some ([CHR 0x22, CHR 0x0A], '' with title '' @ CHR 0x22 # lit2) \<and>
    read_literal lit2 = Some (''T'', [])"
  by (rule notification_script_safe) (auto simp: nul_free_def code_of_def)

end
