(* ===== verification/Process_Runner.thy ===== *)
theory Process_Runner
  imports Prelude
begin

text \<open>
  Running one shell command, \<open>daemon/src/jobs/process_runner.hpp\<close> and \<open>process_runner.cpp\<close>. The
  operating system is a parameter: the record \<open>run_env\<close> says how \<open>pipe\<close>, \<open>posix_spawn\<close>, every
  \<open>poll\<close> with its \<open>read\<close>s, \<open>waitpid\<close> and the clocks answer. The list of poll answers is finite; a
  run that uses it up, or a child that is never reaped, has not returned and is \<open>None\<close>. What
  the function asks of the system (the spawned argument vector, the time-out of every \<open>poll\<close>,
  the kill of the process group) is its trace of effects.
\<close>

section \<open>Data\<close>

datatype RunStatus = Success | Failed | Timeout | SpawnError

record RunResult =
  rr_status :: RunStatus
  rr_exit_code :: int
  rr_started_at :: int
  rr_ended_at :: int
  rr_duration_ms :: int
  rr_stdout_text :: string
  rr_stderr_text :: string
  rr_stdout_truncated :: bool
  rr_stderr_truncated :: bool
  rr_error :: string

definition default_RunResult :: RunResult where
  "default_RunResult = \<lparr>rr_status = SpawnError, rr_exit_code = -1, rr_started_at = 0, rr_ended_at = 0,
     rr_duration_ms = 0, rr_stdout_text = [], rr_stderr_text = [], rr_stdout_truncated = False,
     rr_stderr_truncated = False, rr_error = []\<rparr>"

fun status_to_string :: "RunStatus \<Rightarrow> string" where
  "status_to_string Success = ''success''"
| "status_to_string Failed = ''failed''"
| "status_to_string Timeout = ''timeout''"
| "status_to_string SpawnError = ''spawn_error''"

text \<open>\<open>read\<close>: an error, or the bytes read (at most 4096, and none at the end of the file). \<open>poll\<close>: interrupted, failed, timed out,
  or ready, with the outcome of the \<open>read\<close> of each stream whose \<open>revents\<close> has \<open>POLLIN\<close> or \<open>POLLHUP\<close>.\<close>

datatype read_result = Read_error | Read_bytes string

datatype poll_answer =
    Poll_eintr
  | Poll_error
  | Poll_timeout
  | Poll_ready "read_result option" "read_result option"

text \<open>A call of \<open>poll\<close>: nanoseconds since \<open>start\<close> when its time-out is computed and when it returns.\<close>

record poll_event =
  pe_elapsed :: nat
  pe_returned :: nat
  pe_answer :: poll_answer

datatype wait_status = Wait_exited int | Wait_signaled int | Wait_other | Wait_failed

record run_env =
  en_started_at :: int
  en_pipe :: "string option"
  en_spawn :: "string option"
  en_polls :: "poll_event list"
  en_wait :: "wait_status option"
  en_duration :: nat
  en_ended_at :: int

datatype run_effect = Spawn "string list" | Poll_call int | Kill_group

text \<open>One captured stream: its text, the truncation flag and whether it is still read.\<close>

record capture =
  cap_text :: string
  cap_truncated :: bool
  cap_keep :: bool

record drain_state =
  ds_out :: capture
  ds_err :: capture
  ds_timed_out :: bool
  ds_killed :: bool

section \<open>Operations\<close>

definition kMaxCapture :: nat where
  "kMaxCapture = 64 * 1024"

definition append_capped :: "string \<Rightarrow> string \<Rightarrow> bool \<Rightarrow> string \<times> bool \<times> bool" where
  "append_capped buf data truncated =
     (if kMaxCapture \<le> length buf then (buf, True, False)
      else let room = kMaxCapture - length buf;
               n = length data;
               tk = (if n < room then n else room);
               buf' = buf @ take tk data
           in if tk < n then (buf', True, False) else (buf', truncated, True))"

text \<open>The lambda \<open>drain\<close>: nothing for a stream that is not polled or not ready.\<close>

definition drain :: "read_result option \<Rightarrow> capture \<Rightarrow> capture" where
  "drain r c =
     (if \<not> cap_keep c then c
      else case r of
        None \<Rightarrow> c
      | Some Read_error \<Rightarrow> c\<lparr>cap_keep := False\<rparr>
      | Some (Read_bytes d) \<Rightarrow>
          if d = [] then c\<lparr>cap_keep := False\<rparr>
          else (let (buf, truncated, more) = append_capped (cap_text c) d (cap_truncated c)
           in if more then c\<lparr>cap_text := buf, cap_truncated := truncated\<rparr>
              else c\<lparr>cap_text := buf, cap_truncated := truncated, cap_keep := False\<rparr>))"

definition poll_timeout :: "int \<Rightarrow> nat \<Rightarrow> bool \<Rightarrow> int" where
  "poll_timeout timeout_seconds elapsed killed =
     (if timeout_seconds > 0 \<and> \<not> killed
      then let remaining = timeout_seconds - int (elapsed div 1000000000);
               ms = remaining * 1000
           in if ms > 0 then to_int32 ms else 0
      else -1)"

definition init_drain :: drain_state where
  "init_drain = \<lparr>ds_out = \<lparr>cap_text = [], cap_truncated = False, cap_keep = True\<rparr>,
     ds_err = \<lparr>cap_text = [], cap_truncated = False, cap_keep = True\<rparr>,
     ds_timed_out = False, ds_killed = False\<rparr>"

definition reading :: "drain_state \<Rightarrow> bool" where
  "reading s \<longleftrightarrow> cap_keep (ds_out s) \<or> cap_keep (ds_err s)"

definition kill_group :: "drain_state \<Rightarrow> drain_state" where
  "kill_group s = s\<lparr>ds_timed_out := True, ds_killed := True\<rparr>"

fun drain_loop :: "int \<Rightarrow> poll_event list \<Rightarrow> drain_state \<Rightarrow> (drain_state \<times> run_effect list) option" where
  "drain_loop timeout_seconds [] s = (if reading s then None else Some (s, []))"
| "drain_loop timeout_seconds (e # es) s =
     (if \<not> reading s then Some (s, [])
      else
        let call = Poll_call (poll_timeout timeout_seconds (pe_elapsed e) (ds_killed s))
        in case pe_answer e of
             Poll_eintr \<Rightarrow> map_option (apsnd (Cons call)) (drain_loop timeout_seconds es s)
           | Poll_error \<Rightarrow> Some (s, [call])
           | Poll_timeout \<Rightarrow>
               map_option (apsnd (append (if ds_killed s then [call] else [call, Kill_group])))
                 (drain_loop timeout_seconds es (kill_group s))
           | Poll_ready ro re \<Rightarrow>
               map_option (apsnd (Cons call))
                 (drain_loop timeout_seconds es
                   (s\<lparr>ds_out := drain ro (ds_out s), ds_err := drain re (ds_err s)\<rparr>)))"

text \<open>The classification at the end. A \<open>waitpid\<close> that fails leaves \<open>status\<close> at 0, which reads as an
  exit with code 0.\<close>

definition classify :: "bool \<Rightarrow> wait_status \<Rightarrow> RunResult \<Rightarrow> RunResult" where
  "classify timed_out w res =
     (if timed_out then res\<lparr>rr_status := Timeout, rr_exit_code := -9\<rparr>
      else case w of
        Wait_exited c \<Rightarrow> res\<lparr>rr_exit_code := c, rr_status := (if c = 0 then Success else Failed)\<rparr>
      | Wait_signaled sig \<Rightarrow> res\<lparr>rr_exit_code := - sig, rr_status := Failed\<rparr>
      | Wait_other \<Rightarrow> res\<lparr>rr_status := Failed\<rparr>
      | Wait_failed \<Rightarrow> res\<lparr>rr_exit_code := 0, rr_status := Success\<rparr>)"

definition run_command :: "run_env \<Rightarrow> string \<Rightarrow> int \<Rightarrow> (RunResult \<times> run_effect list) option" where
  "run_command env command timeout_seconds =
     (let result = default_RunResult\<lparr>rr_started_at := en_started_at env\<rparr>;
          spawn = Spawn [''/bin/sh'', ''-c'', c_str command]
      in case en_pipe env of
           Some e \<Rightarrow> Some (result\<lparr>rr_error := ''pipe(): '' @ e, rr_ended_at := en_ended_at env\<rparr>, [])
         | None \<Rightarrow>
             (case en_spawn env of
                Some e \<Rightarrow>
                  Some (result\<lparr>rr_error := ''posix_spawn(): '' @ e, rr_ended_at := en_ended_at env\<rparr>,
                        [spawn])
              | None \<Rightarrow>
                  (case drain_loop timeout_seconds (en_polls env) init_drain of
                     None \<Rightarrow> None
                   | Some (s, effs) \<Rightarrow>
                       (case en_wait env of
                          None \<Rightarrow> None
                        | Some w \<Rightarrow>
                            Some (classify (ds_timed_out s) w
                              (result\<lparr>rr_stdout_text := cap_text (ds_out s),
                                 rr_stderr_text := cap_text (ds_err s),
                                 rr_stdout_truncated := cap_truncated (ds_out s),
                                 rr_stderr_truncated := cap_truncated (ds_err s),
                                 rr_duration_ms := int (en_duration env div 1000000),
                                 rr_ended_at := en_ended_at env\<rparr>), spawn # effs)))))"

section \<open>What is captured\<close>

text \<open>The bytes a stream delivers to the loop, up to its end, an error or a failed \<open>poll\<close>.\<close>

fun stream_bytes :: "(read_result option \<times> read_result option \<Rightarrow> read_result option) \<Rightarrow>
    poll_event list \<Rightarrow> string" where
  "stream_bytes sel [] = []"
| "stream_bytes sel (e # es) =
     (case pe_answer e of
        Poll_error \<Rightarrow> []
      | Poll_ready ro re \<Rightarrow>
          (case sel (ro, re) of
             None \<Rightarrow> stream_bytes sel es
           | Some Read_error \<Rightarrow> []
           | Some (Read_bytes d) \<Rightarrow> if d = [] then [] else d @ stream_bytes sel es)
      | _ \<Rightarrow> stream_bytes sel es)"

text \<open>A capture that has read \<open>xs\<close> so far.\<close>

definition captured :: "string \<Rightarrow> capture \<Rightarrow> bool" where
  "captured xs c \<longleftrightarrow> cap_text c = take kMaxCapture xs \<and> (cap_truncated c \<longleftrightarrow> kMaxCapture < length xs)"

lemma drain_bytes:
  assumes "captured xs c" "cap_keep c" "\<not> cap_truncated c" "d \<noteq> []"
  shows "captured (xs @ d) (drain (Some (Read_bytes d)) c)"
    "cap_keep (drain (Some (Read_bytes d)) c) \<longleftrightarrow> \<not> cap_truncated (drain (Some (Read_bytes d)) c)"
proof -
  have xs: "cap_text c = xs" "length xs \<le> kMaxCapture" using assms(1,3) by (auto simp: captured_def)
  have "0 < length d" using assms(4) by simp
  then show "captured (xs @ d) (drain (Some (Read_bytes d)) c)"
    "cap_keep (drain (Some (Read_bytes d)) c) \<longleftrightarrow> \<not> cap_truncated (drain (Some (Read_bytes d)) c)"
    using assms xs by (auto simp: drain_def append_capped_def captured_def Let_def)
qed

lemma drain_closed [simp]: "\<not> cap_keep c \<Longrightarrow> drain r c = c"
  by (simp add: drain_def)

lemma captured_more: "captured xs c \<Longrightarrow> cap_truncated c \<Longrightarrow> captured (xs @ ys) c"
  by (auto simp: captured_def)

text \<open>Both streams are captured the same way: \<open>sel\<close> and \<open>get\<close> pick one of them.\<close>

definition stream_of :: "(read_result option \<times> read_result option \<Rightarrow> read_result option) \<Rightarrow>
    (drain_state \<Rightarrow> capture) \<Rightarrow> bool" where
  "stream_of sel get \<longleftrightarrow> (sel = fst \<and> get = ds_out) \<or> (sel = snd \<and> get = ds_err)"

lemma stream_step:
  assumes "stream_of sel get"
  shows "get (s\<lparr>ds_out := drain ro (ds_out s), ds_err := drain re (ds_err s)\<rparr>) = drain (sel (ro, re)) (get s)"
    "get (kill_group s) = get s"
  using assms by (auto simp: stream_of_def kill_group_def)

lemma loop_closed:
  assumes "stream_of sel get" "\<not> cap_keep (get s)" "drain_loop T es s = Some (s', effs)"
  shows "get s' = get s"
  using assms
proof (induction T es s arbitrary: s' effs rule: drain_loop.induct)
  case (1 T s)
  then show ?case by (auto split: if_splits)
next
  case (2 T e es s)
  then show ?case
    by (auto simp: Let_def stream_step split: if_splits poll_answer.splits)
qed

lemma loop_captures:
  assumes "stream_of sel get" "cap_keep (get s)" "\<not> cap_truncated (get s)" "captured xs (get s)"
    "drain_loop T es s = Some (s', effs)"
  shows "captured (xs @ stream_bytes sel es) (get s')"
  using assms
proof (induction T es s arbitrary: s' effs xs rule: drain_loop.induct)
  case (1 T s)
  then show ?case by (auto simp: stream_of_def reading_def split: if_splits)
next
  case (2 T e es s)
  have reading: "reading s" using "2.prems"(1,2) by (auto simp: stream_of_def reading_def)
  show ?case
  proof (cases "pe_answer e")
    case (Poll_ready ro re)
    let ?s1 = "s\<lparr>ds_out := drain ro (ds_out s), ds_err := drain re (ds_err s)\<rparr>"
    obtain effs1 where run: "drain_loop T es ?s1 = Some (s', effs1)"
      using "2.prems"(5) reading Poll_ready by (auto simp: Let_def)
    note get1 = stream_step(1) [OF "2.prems"(1), where s = s and ro = ro and re = re]
    note IH = "2.IH"(3) [OF _ refl Poll_ready "2.prems"(1) _ _ _ run] and closed = loop_closed [OF "2.prems"(1) _ run]
    show ?thesis
    proof (cases "sel (ro, re)")
      case None
      then show ?thesis using IH reading "2.prems"(2-4) Poll_ready get1 by (simp add: drain_def)
    next
      case (Some r)
      show ?thesis
      proof (cases "\<exists>d. r = Read_bytes d \<and> d \<noteq> []")
        case True
        then obtain d where d: "r = Read_bytes d" "d \<noteq> []" by blast
        note step = drain_bytes [OF "2.prems"(4) "2.prems"(2) "2.prems"(3) d(2)]
        show ?thesis
        proof (cases "cap_keep (get ?s1)")
          case True
          then show ?thesis
            using IH [of "xs @ d"] reading step get1 Some d Poll_ready by simp
        next
          case False
          then show ?thesis
            using closed captured_more [OF step(1)] step(2) get1 Some d Poll_ready by simp
        qed
      next
        case False
        then show ?thesis
          using closed get1 Some Poll_ready "2.prems"(2,4)
          by (cases r) (simp_all add: drain_def captured_def)
      qed
    qed
  next
    case Poll_eintr
    then obtain effs1 where "drain_loop T es s = Some (s', effs1)"
      using "2.prems"(5) reading by (auto simp: Let_def)
    from "2.IH"(1) [OF _ refl Poll_eintr "2.prems"(1-4) this] show ?thesis
      using reading Poll_eintr by simp
  next
    case Poll_error
    then show ?thesis using "2.prems"(4,5) reading by (simp add: Let_def)
  next
    case Poll_timeout
    then obtain effs1 where "drain_loop T es (kill_group s) = Some (s', effs1)"
      using "2.prems"(5) reading by (auto simp: Let_def)
    from "2.IH"(2) [OF _ refl Poll_timeout "2.prems"(1) _ _ _ this] show ?thesis
      using reading Poll_timeout "2.prems"(2-4) stream_step(2) [OF "2.prems"(1)] by simp
  qed
qed

section \<open>The deadline\<close>

text \<open>
  The documented behaviour of \<open>poll\<close>, and all that is assumed of it: it answers 0 only when it
  was given a time-out, and not before that time-out has passed.
\<close>

fun polls_ok :: "int \<Rightarrow> bool \<Rightarrow> poll_event list \<Rightarrow> bool" where
  "polls_ok timeout_seconds killed [] = True"
| "polls_ok timeout_seconds killed (e # es) =
     (let t = poll_timeout timeout_seconds (pe_elapsed e) killed; fired = (pe_answer e = Poll_timeout)
      in (fired \<longrightarrow> 0 \<le> t \<and> int (pe_elapsed e) + t * 1000000 \<le> int (pe_returned e)) \<and>
         polls_ok timeout_seconds (killed \<or> fired) es)"

lemma poll_timeout_bounds:
  assumes "0 < T" "T \<le> 2147483"
  shows "0 \<le> poll_timeout T e False" "T * 1000000000 \<le> int e + poll_timeout T e False * 1000000"
    "int e < T * 1000000000 \<Longrightarrow> int e + poll_timeout T e False * 1000000 < (T + 1) * 1000000000"
proof -
  let ?q = "int (e div 1000000000)"
  have q: "?q * 1000000000 \<le> int e" "int e < ?q * 1000000000 + 1000000000" "0 \<le> ?q" by linarith+
  have "to_int32 ((T - ?q) * 1000) = (T - ?q) * 1000" if "?q < T"
    using that q(3) assms by (intro to_int32_id) (simp add: is_int32_def INT_MIN_def INT_MAX_def)
  then have t: "poll_timeout T e False = (if ?q < T then (T - ?q) * 1000 else 0)"
    using assms(1) by (simp add: poll_timeout_def Let_def)
  show "0 \<le> poll_timeout T e False" "T * 1000000000 \<le> int e + poll_timeout T e False * 1000000"
    "int e < T * 1000000000 \<Longrightarrow> int e + poll_timeout T e False * 1000000 < (T + 1) * 1000000000"
    using q by (auto simp: t simp del: of_nat_div zdiv_int)
qed

lemma loop_after_kill:
  assumes "drain_loop T es s = Some (s', effs)" "ds_killed s"
  shows "set effs \<subseteq> {Poll_call (-1)} \<and> ds_killed s' \<and> (ds_timed_out s \<longrightarrow> ds_timed_out s')"
  using assms
proof (induction T es s arbitrary: s' effs rule: drain_loop.induct)
  case (1 T s)
  then show ?case by (auto split: if_splits)
next
  case (2 T e es s)
  have "poll_timeout T (pe_elapsed e) (ds_killed s) = -1"
    using 2 by (simp add: poll_timeout_def)
  with 2 show ?case
    by (fastforce simp: Let_def kill_group_def split: if_splits poll_answer.splits)
qed

text \<open>At most one kill, exactly when the run timed out; from then on \<open>poll\<close> waits without limit.\<close>

definition kill_trace :: "bool \<Rightarrow> run_effect list \<Rightarrow> bool" where
  "kill_trace timed_out effs \<longleftrightarrow>
     (if timed_out
      then \<exists>pre post. effs = pre @ Kill_group # post \<and> Kill_group \<notin> set pre \<and> set post \<subseteq> {Poll_call (-1)}
      else Kill_group \<notin> set effs)"

lemma kill_traceI:
  assumes "effs = pre @ Kill_group # post" "Kill_group \<notin> set pre" "set post \<subseteq> {Poll_call (-1)}"
  shows "kill_trace True effs"
  unfolding kill_trace_def if_True using assms by blast

lemma kill_trace_Cons:
  assumes "kill_trace b effs" "x \<noteq> Kill_group"
  shows "kill_trace b (x # effs)"
proof (cases b)
  case True
  then obtain pre post where "effs = pre @ Kill_group # post" "Kill_group \<notin> set pre"
    "set post \<subseteq> {Poll_call (-1)}"
    using assms(1) by (auto simp: kill_trace_def)
  then show ?thesis
    using assms(2) True kill_traceI [of "x # effs" "x # pre" post] by simp
qed (use assms in \<open>simp add: kill_trace_def\<close>)

lemma loop_kill:
  assumes "drain_loop T es s = Some (s', effs)" "\<not> ds_killed s" "\<not> ds_timed_out s"
  shows "kill_trace (ds_timed_out s') effs"
  using assms
proof (induction T es s arbitrary: s' effs rule: drain_loop.induct)
  case (1 T s)
  then show ?case by (auto simp: kill_trace_def split: if_splits)
next
  case (2 T e es s)
  let ?call = "Poll_call (poll_timeout T (pe_elapsed e) (ds_killed s))"
  show ?case
  proof (cases "reading s \<and> pe_answer e = Poll_timeout")
    case True
    then obtain effs1 where run: "drain_loop T es (kill_group s) = Some (s', effs1)"
      and effs: "effs = [?call] @ Kill_group # effs1"
      using "2.prems" by (auto simp: Let_def)
    from loop_after_kill [OF run] have "ds_timed_out s'" "set effs1 \<subseteq> {Poll_call (-1)}"
      by (simp_all add: kill_group_def)
    then show ?thesis using kill_traceI [OF effs] by simp
  next
    case False
    with 2 show ?thesis
      by (cases "pe_answer e")
         (auto simp: Let_def intro: kill_trace_Cons split: if_splits, auto simp: kill_trace_def)
  qed
qed

lemma loop_timeout_event:
  assumes "drain_loop T es s = Some (s', effs)" "\<not> ds_killed s" "\<not> ds_timed_out s" "ds_timed_out s'"
    "polls_ok T False es"
  shows "\<exists>e \<in> set es. pe_answer e = Poll_timeout \<and> 0 \<le> poll_timeout T (pe_elapsed e) False \<and>
    int (pe_elapsed e) + poll_timeout T (pe_elapsed e) False * 1000000 \<le> int (pe_returned e)"
  using assms
proof (induction T es s arbitrary: s' effs rule: drain_loop.induct)
  case (1 T s)
  then show ?case by (auto split: if_splits)
next
  case (2 T e es s)
  then show ?case
    by (cases "pe_answer e") (auto simp: Let_def split: if_splits)
qed

section \<open>Returning\<close>

text \<open>The script delivers the end of a stream.\<close>

definition stream_ends :: "(read_result option \<times> read_result option \<Rightarrow> read_result option) \<Rightarrow>
    poll_event list \<Rightarrow> bool" where
  "stream_ends sel es \<longleftrightarrow>
     (\<exists>e \<in> set es. case pe_answer e of
        Poll_ready ro re \<Rightarrow> sel (ro, re) = Some Read_error \<or> sel (ro, re) = Some (Read_bytes [])
      | _ \<Rightarrow> False)"

lemma stream_ends_Cons:
  "stream_ends sel (e # es) \<longleftrightarrow>
     (case pe_answer e of
        Poll_ready ro re \<Rightarrow> sel (ro, re) = Some Read_error \<or> sel (ro, re) = Some (Read_bytes [])
      | _ \<Rightarrow> False) \<or> stream_ends sel es"
  by (simp add: stream_ends_def)

lemma drain_keep: "cap_keep (drain r c) \<Longrightarrow> cap_keep c \<and> r \<noteq> Some Read_error \<and> r \<noteq> Some (Read_bytes [])"
  by (auto simp: drain_def split: if_splits)

lemma loop_returns:
  assumes "cap_keep (ds_out s) \<longrightarrow> stream_ends fst es" "cap_keep (ds_err s) \<longrightarrow> stream_ends snd es"
  shows "\<exists>r. drain_loop T es s = Some r"
  using assms
proof (induction T es s rule: drain_loop.induct)
  case (1 T s)
  then show ?case by (simp add: reading_def stream_ends_def)
next
  case (2 T e es s)
  show ?case
  proof (cases "reading s")
    case True
    with 2 show ?thesis
      by (cases "pe_answer e") (auto simp: Let_def stream_ends_Cons kill_group_def dest!: drain_keep)
  qed simp
qed

section \<open>Properties\<close>

text \<open>The outcome of a run that got past \<open>posix_spawn\<close>.\<close>

lemma run_command_SomeE:
  assumes "run_command env command T = Some (r, effs)" "en_pipe env = None" "en_spawn env = None"
  obtains s effs1 w where "drain_loop T (en_polls env) init_drain = Some (s, effs1)" "en_wait env = Some w"
    "effs = Spawn [''/bin/sh'', ''-c'', c_str command] # effs1"
    "rr_stdout_text r = cap_text (ds_out s)" "rr_stdout_truncated r = cap_truncated (ds_out s)"
    "rr_stderr_text r = cap_text (ds_err s)" "rr_stderr_truncated r = cap_truncated (ds_err s)"
    "rr_status r = Timeout \<longleftrightarrow> ds_timed_out s"
  using assms
  by (auto simp: run_command_def classify_def Let_def split: option.splits wait_status.splits if_splits)

lemma no_spawn_result:
  assumes "run_command env command T = Some (r, effs)" "en_pipe env \<noteq> None \<or> en_spawn env \<noteq> None"
  shows "rr_status r = SpawnError \<and> rr_exit_code r = -1 \<and> rr_error r \<noteq> [] \<and> Kill_group \<notin> set effs"
  using assms by (auto simp: run_command_def default_RunResult_def Let_def split: option.splits)

text \<open>C31: each stream is captured as the first 64 KiB of the bytes it delivered, and it is flagged as
  truncated exactly when it delivered more.\<close>

theorem output_is_capped_prefix:
  assumes "run_command env command timeout_seconds = Some (r, effs)" "en_pipe env = None" "en_spawn env = None"
  shows "rr_stdout_text r = take 65536 (stream_bytes fst (en_polls env)) \<and>
    (rr_stdout_truncated r \<longleftrightarrow> 65536 < length (stream_bytes fst (en_polls env))) \<and>
    rr_stderr_text r = take 65536 (stream_bytes snd (en_polls env)) \<and>
    (rr_stderr_truncated r \<longleftrightarrow> 65536 < length (stream_bytes snd (en_polls env)))"
  using assms
proof (rule run_command_SomeE)
  fix s effs1
  assume run: "drain_loop timeout_seconds (en_polls env) init_drain = Some (s, effs1)"
    and r: "rr_stdout_text r = cap_text (ds_out s)" "rr_stdout_truncated r = cap_truncated (ds_out s)"
    "rr_stderr_text r = cap_text (ds_err s)" "rr_stderr_truncated r = cap_truncated (ds_err s)"
  have "captured ([] @ stream_bytes fst (en_polls env)) (ds_out s)"
    by (rule loop_captures [OF _ _ _ _ run]) (simp_all add: stream_of_def init_drain_def captured_def)
  moreover have "captured ([] @ stream_bytes snd (en_polls env)) (ds_err s)"
    by (rule loop_captures [OF _ _ _ _ run]) (simp_all add: stream_of_def init_drain_def captured_def)
  ultimately show ?thesis by (simp add: r captured_def kMaxCapture_def)
qed

text \<open>C32: the process group is killed at most once, exactly in the runs reported as timed out, and
  after the kill the loop keeps draining with no further time-out.\<close>

theorem kill_iff_timeout:
  assumes "run_command env command timeout_seconds = Some (r, effs)"
  shows "if rr_status r = Timeout
    then \<exists>pre post. effs = pre @ Kill_group # post \<and> Kill_group \<notin> set pre \<and> set post \<subseteq> {Poll_call (-1)}
    else Kill_group \<notin> set effs"
proof (cases "en_pipe env = None \<and> en_spawn env = None")
  case True
  with assms show ?thesis
  proof (elim conjE run_command_SomeE)
    fix s effs1
    assume "drain_loop timeout_seconds (en_polls env) init_drain = Some (s, effs1)"
      and effs: "effs = Spawn [''/bin/sh'', ''-c'', c_str command] # effs1"
      and status: "rr_status r = Timeout \<longleftrightarrow> ds_timed_out s"
    then have "kill_trace (ds_timed_out s) effs"
      by (auto intro!: kill_trace_Cons loop_kill simp: init_drain_def)
    then show ?thesis unfolding kill_trace_def status .
  qed
next
  case False
  then show ?thesis using no_spawn_result [OF assms] by auto
qed

text \<open>Fact: no command is killed early. With a time-out of at most 2147483 seconds, and a \<open>poll\<close> that
  never times out before its time-out, a run is reported as timed out only if a time-out is
  set and a \<open>poll\<close> came back at least that many seconds after the start.\<close>

theorem never_killed_early:
  assumes "run_command env command timeout_seconds = Some (r, effs)" "rr_status r = Timeout"
    and "polls_ok timeout_seconds False (en_polls env)" "timeout_seconds \<le> 2147483"
  shows "0 < timeout_seconds \<and>
    (\<exists>e \<in> set (en_polls env). timeout_seconds * 1000000000 \<le> int (pe_returned e))"
proof -
  have "\<not> (en_pipe env \<noteq> None \<or> en_spawn env \<noteq> None)"
    using no_spawn_result [OF assms(1)] assms(2) by fastforce
  then have "en_pipe env = None" "en_spawn env = None" by simp_all
  from run_command_SomeE [OF assms(1) this] obtain s effs1
    where run: "drain_loop timeout_seconds (en_polls env) init_drain = Some (s, effs1)" "ds_timed_out s"
    using assms(2) by metis
  obtain e where e: "e \<in> set (en_polls env)" "0 \<le> poll_timeout timeout_seconds (pe_elapsed e) False"
    "int (pe_elapsed e) + poll_timeout timeout_seconds (pe_elapsed e) False * 1000000 \<le> int (pe_returned e)"
    using loop_timeout_event [OF run(1) _ _ run(2) assms(3)] by (auto simp: init_drain_def)
  have "0 < timeout_seconds" using e(2) by (auto simp: poll_timeout_def split: if_splits)
  with poll_timeout_bounds(2) [OF this assms(4), of "pe_elapsed e"] e show ?thesis by force
qed

text \<open>Fact: with a time-out of at most 2147483 seconds, every \<open>poll\<close> before the deadline is given a
  time-out that ends at the deadline or less than one second after it, never before it.\<close>

theorem poll_wakes_at_deadline:
  assumes "0 < timeout_seconds" "timeout_seconds \<le> 2147483" "int elapsed < timeout_seconds * 1000000000"
  shows "timeout_seconds * 1000000000
      \<le> int elapsed + poll_timeout timeout_seconds elapsed False * 1000000 \<and>
    int elapsed + poll_timeout timeout_seconds elapsed False * 1000000
      < (timeout_seconds + 1) * 1000000000"
  using poll_timeout_bounds(2,3) [OF assms(1,2)] assms(3) by simp

theorem poll_wakes_at_deadline_witness:
  "(2 :: int) * 1000000000 \<le> int 1500000000 + poll_timeout 2 1500000000 False * 1000000 \<and>
   int 1500000000 + poll_timeout 2 1500000000 False * 1000000 < (2 + 1) * 1000000000"
  by (rule poll_wakes_at_deadline) simp_all

text \<open>Fact: beyond 2147483 seconds the deadline is wrong: the milliseconds are converted to a 32-bit
  \<open>int\<close> and wrap, so a time-out of 4294968 seconds (seven weeks) makes the first \<open>poll\<close> wake
  after 704 milliseconds, and one of 2147484 seconds makes it wait without limit.\<close>

theorem long_timeout_wraps:
  "poll_timeout 4294968 0 False = 704 \<and> poll_timeout 2147484 0 False < 0"
  by (simp add: poll_timeout_def to_int32_def)

text \<open>C33: a run whose two streams end, and whose child terminates, returns, whatever the other
  answers of the system are.\<close>

theorem run_command_returns:
  assumes "stream_ends fst (en_polls env)" "stream_ends snd (en_polls env)" "en_wait env \<noteq> None"
  shows "\<exists>r effs. run_command env command timeout_seconds = Some (r, effs)"
proof -
  obtain s effs where "drain_loop timeout_seconds (en_polls env) init_drain = Some (s, effs)"
    using loop_returns [of init_drain "en_polls env" timeout_seconds] assms by auto
  then show ?thesis
    using assms(3) by (auto simp: run_command_def Let_def split: option.split)
qed

definition sample_env :: "poll_event list \<Rightarrow> run_env" where
  "sample_env polls = \<lparr>en_started_at = 1000, en_pipe = None, en_spawn = None, en_polls = polls,
     en_wait = Some (Wait_exited 0), en_duration = 3600000000000, en_ended_at = 4600\<rparr>"

definition eof_poll :: "nat \<Rightarrow> poll_event" where
  "eof_poll t = \<lparr>pe_elapsed = t, pe_returned = t,
     pe_answer = Poll_ready (Some (Read_bytes [])) (Some (Read_bytes []))\<rparr>"

definition hello_poll :: poll_event where
  "hello_poll = \<lparr>pe_elapsed = 0, pe_returned = 5, pe_answer = Poll_ready (Some (Read_bytes ''hello'')) None\<rparr>"

definition late_poll :: poll_event where
  "late_poll = \<lparr>pe_elapsed = 0, pe_returned = 1000000000, pe_answer = Poll_timeout\<rparr>"

lemmas sample_run_defs = sample_env_def eof_poll_def hello_poll_def late_poll_def run_command_def
  init_drain_def reading_def drain_def append_capped_def kMaxCapture_def poll_timeout_def classify_def
  kill_group_def default_RunResult_def to_int32_def Let_def

theorem run_command_returns_witness:
  "\<exists>r effs. run_command (sample_env [hello_poll, eof_poll 9]) ''ls'' 0 = Some (r, effs)"
  by (rule run_command_returns) (simp_all add: sample_env_def hello_poll_def eof_poll_def stream_ends_def)

theorem output_is_capped_prefix_witness:
  "\<exists>r effs. run_command (sample_env [hello_poll, eof_poll 9]) ''ls'' 0 = Some (r, effs) \<and>
     rr_stdout_text r = ''hello'' \<and> \<not> rr_stdout_truncated r"
proof -
  obtain r effs where run: "run_command (sample_env [hello_poll, eof_poll 9]) ''ls'' 0 = Some (r, effs)"
    by (simp add: sample_run_defs)
  from output_is_capped_prefix [OF this] run show ?thesis
    by (simp add: sample_env_def hello_poll_def eof_poll_def)
qed

theorem kill_iff_timeout_witness:
  "\<exists>r effs pre post. run_command (sample_env [late_poll, eof_poll 1000000001]) ''ls'' 1 = Some (r, effs) \<and>
     effs = pre @ Kill_group # post \<and> Kill_group \<notin> set pre \<and> set post \<subseteq> {Poll_call (-1)}"
proof -
  obtain r effs where run: "run_command (sample_env [late_poll, eof_poll 1000000001]) ''ls'' 1 = Some (r, effs)"
    "rr_status r = Timeout"
    by (simp add: sample_run_defs)
  from kill_iff_timeout [OF run(1)] run show ?thesis by auto
qed

theorem never_killed_early_witness:
  "\<exists>e \<in> set [late_poll, eof_poll 1000000001]. 1 * 1000000000 \<le> int (pe_returned e)"
proof -
  obtain r effs where run: "run_command (sample_env [late_poll, eof_poll 1000000001]) ''ls'' 1 = Some (r, effs)"
    "rr_status r = Timeout"
    by (simp add: sample_run_defs)
  from never_killed_early [OF run] show ?thesis
    by (simp add: sample_env_def late_poll_def eof_poll_def poll_timeout_def to_int32_def Let_def)
qed

text \<open>Fact: the time-out covers only the reading of the streams. A command with a time-out of one
  second that closes its output at once and then runs for an hour is not killed, and it is
  reported as a success.\<close>

theorem timeout_not_enforced_after_eof:
  "\<exists>r. run_command (sample_env [eof_poll 1000000]) ''daemonise'' 1 =
      Some (r, [Spawn [''/bin/sh'', ''-c'', c_str ''daemonise''], Poll_call 1000]) \<and>
    rr_status r = Success \<and> 3600000 \<le> rr_duration_ms r"
  by (simp add: sample_run_defs)

end
