(* ===== verification/Database.thy ===== *)
theory Database
  imports Prelude "HOL-Library.Product_Lexorder" "HOL-Library.Multiset"
begin

text \<open>
  The SQLite layer of \<open>daemon/src/db.hpp\<close> and \<open>db.cpp\<close>. A table is the list of its rows and each
  member function is the meaning of its SQL statement on them. How SQLite answers is a
  parameter of every call: a statement may fail to prepare, a write may fail to step (and
  then throws), a read may stop early (and then does not), and the id of a new row is the
  one SQLite picks. Text is bound through \<open>c_str()\<close>, so it is cut at its first NUL byte.
\<close>

section \<open>Data\<close>

record metric_row =
  mt_id :: int
  mt_ts :: int
  mt_metric :: string
  mt_value :: double

record RunRecord =
  run_id :: int
  run_job_name :: string
  run_started_at :: int
  run_ended_at :: int
  run_status :: string
  run_exit_code :: int
  run_duration_ms :: int
  run_stdout_text :: string
  run_stderr_text :: string
  run_trigger :: string

record AlertRecord =
  al_id :: int
  al_ts :: int
  al_rule_name :: string
  al_severity :: string
  al_metric :: string
  al_kind :: string
  al_value :: double
  al_threshold :: double
  al_message :: string
  al_attribution :: string

record JobDef =
  def_name :: string
  def_command :: string
  def_schedule_expr :: string
  def_missed_run_policy :: string
  def_timeout_seconds :: int
  def_retries :: int

record Database =
  db_metrics :: "metric_row list"
  db_runs :: "RunRecord list"
  db_alerts :: "AlertRecord list"
  db_job_defs :: "JobDef list"

text \<open>How a statement ends: the message is that of \<open>sqlite3_errmsg\<close>.\<close>

datatype write_rc = Write_prepare_error string | Write_step_error string | Write_done int

datatype read_rc = Read_prepare_error string | Read_stops nat | Read_complete

section \<open>Opening\<close>

text \<open>The outcome of \<open>sqlite3_exec\<close>: success, or an error with or without a message.\<close>

definition exec_or_throw :: "string option option \<Rightarrow> unit cxx" where
  "exec_or_throw rc =
     (case rc of None \<Rightarrow> Ret () | Some (Some err) \<Rightarrow> Throw err | Some None \<Rightarrow> Throw ''unknown error'')"

definition open_database :: "string option option \<Rightarrow> string option option \<Rightarrow> string option option \<Rightarrow>
    string option option \<Rightarrow> unit cxx" where
  "open_database opened journal synchronous foreign_keys =
     (case opened of
        Some err \<Rightarrow>
          Throw (''cannot open database: '' @ (case err of Some m \<Rightarrow> m | None \<Rightarrow> ''out of memory''))
      | None \<Rightarrow>
          cxx_bind (exec_or_throw journal) (\<lambda>_.
          cxx_bind (exec_or_throw synchronous) (\<lambda>_.
          exec_or_throw foreign_keys)))"

section \<open>Statements\<close>

text \<open>A statement with no result rows: the change it makes, and the value or the \<open>DbError\<close>.\<close>

definition write_stmt :: "string \<Rightarrow> write_rc \<Rightarrow> (int \<Rightarrow> Database \<Rightarrow> Database) \<Rightarrow> Database \<Rightarrow> Database \<times> int cxx" where
  "write_stmt what rc change db =
     (case rc of
        Write_prepare_error msg \<Rightarrow> (db, Throw (''prepare '' @ what @ '': '' @ msg))
      | Write_step_error msg \<Rightarrow> (db, Throw (''step '' @ what @ '': '' @ msg))
      | Write_done rowid \<Rightarrow> (change rowid db, Ret rowid))"

text \<open>\<open>while (sqlite3_step(stmt) == SQLITE_ROW)\<close>: the loop also ends when a step fails.\<close>

definition fetch :: "string \<Rightarrow> read_rc \<Rightarrow> 'a list \<Rightarrow> 'a list cxx" where
  "fetch what rc rows =
     (case rc of
        Read_prepare_error msg \<Rightarrow> Throw (''prepare '' @ what @ '': '' @ msg)
      | Read_stops k \<Rightarrow> Ret (take k rows)
      | Read_complete \<Rightarrow> Ret rows)"

definition first_row :: "'a list \<Rightarrow> 'a option" where
  "first_row rows = (case rows of [] \<Rightarrow> None | r # _ \<Rightarrow> Some r)"

text \<open>\<open>ORDER BY k DESC, id DESC\<close> and \<open>LIMIT n\<close> (a negative limit is no limit).\<close>

definition newest_first :: "('a \<Rightarrow> int) \<Rightarrow> ('a \<Rightarrow> int) \<Rightarrow> 'a list \<Rightarrow> 'a list" where
  "newest_first key rid = sort_key (\<lambda>r. (- key r, - rid r))"

definition limit_rows :: "int \<Rightarrow> 'a list \<Rightarrow> 'a list" where
  "limit_rows n rows = (if n < 0 then rows else take (nat n) rows)"

subsection \<open>Metrics\<close>

definition insert_metric :: "write_rc \<Rightarrow> int \<Rightarrow> string \<Rightarrow> double \<Rightarrow> Database \<Rightarrow> Database \<times> unit cxx" where
  "insert_metric rc ts_unix metric v db =
     apsnd (\<lambda>r. cxx_bind r (\<lambda>_. Ret ()))
       (write_stmt ''insert_metric'' rc
          (\<lambda>rowid. db_metrics_update (\<lambda>rows. rows @
             [\<lparr>mt_id = rowid, mt_ts = ts_unix, mt_metric = c_str metric, mt_value = v\<rparr>])) db)"

definition latest_metric :: "read_rc \<Rightarrow> string \<Rightarrow> Database \<Rightarrow> (int \<times> double) option cxx" where
  "latest_metric rc metric db =
     cxx_bind
       (fetch ''latest_metric'' rc
         (limit_rows 1 (newest_first mt_ts mt_id
           (filter (\<lambda>r. mt_metric r = c_str metric) (db_metrics db)))))
       (\<lambda>rows. Ret (map_option (\<lambda>r. (mt_ts r, mt_value r)) (first_row rows)))"

text \<open>\<open>ORDER BY ts ASC\<close> leaves the order of equal times to SQLite: it is the parameter \<open>by_ts\<close>.\<close>

definition metric_history :: "(metric_row list \<Rightarrow> metric_row list) \<Rightarrow> read_rc \<Rightarrow> string \<Rightarrow> int \<Rightarrow>
    Database \<Rightarrow> (int \<times> double) list cxx" where
  "metric_history by_ts rc metric since_ts db =
     fetch ''metric_history'' rc
       (map (\<lambda>r. (mt_ts r, mt_value r))
         (by_ts (filter (\<lambda>r. mt_metric r = c_str metric \<and> since_ts \<le> mt_ts r) (db_metrics db))))"

subsection \<open>Runs\<close>

definition stored_run :: "int \<Rightarrow> RunRecord \<Rightarrow> RunRecord" where
  "stored_run rowid r = r\<lparr>run_id := rowid, run_job_name := c_str (run_job_name r),
     run_status := c_str (run_status r), run_stdout_text := c_str (run_stdout_text r),
     run_stderr_text := c_str (run_stderr_text r), run_trigger := c_str (run_trigger r)\<rparr>"

definition insert_run :: "write_rc \<Rightarrow> RunRecord \<Rightarrow> Database \<Rightarrow> Database \<times> int cxx" where
  "insert_run rc r =
     write_stmt ''insert_run'' rc (\<lambda>rowid. db_runs_update (\<lambda>rows. rows @ [stored_run rowid r]))"

definition runs_of :: "string \<Rightarrow> Database \<Rightarrow> RunRecord list" where
  "runs_of job db = filter (\<lambda>r. run_job_name r = c_str job) (db_runs db)"

definition last_run :: "read_rc \<Rightarrow> string \<Rightarrow> Database \<Rightarrow> RunRecord option cxx" where
  "last_run rc job db =
     cxx_bind
       (fetch ''last_run'' rc (limit_rows 1 (newest_first run_started_at run_id (runs_of job db))))
       (\<lambda>rows. Ret (first_row rows))"

text \<open>\<open>sqlite3_column_int\<close> keeps the low 32 bits of the count; a step that yields no row gives 0.\<close>

definition count_runs :: "read_rc \<Rightarrow> string \<Rightarrow> Database \<Rightarrow> int cxx" where
  "count_runs rc job db =
     cxx_bind (fetch ''count_runs'' rc [int (length (runs_of job db))])
       (\<lambda>rows. Ret (case rows of [] \<Rightarrow> 0 | n # _ \<Rightarrow> to_int32 n))"

definition recent_runs :: "read_rc \<Rightarrow> string \<Rightarrow> int \<Rightarrow> Database \<Rightarrow> RunRecord list cxx" where
  "recent_runs rc job n db =
     fetch ''recent_runs'' rc
       (limit_rows n (newest_first run_started_at run_id (runs_of job db)))"

subsection \<open>Alerts\<close>

definition stored_alert :: "int \<Rightarrow> AlertRecord \<Rightarrow> AlertRecord" where
  "stored_alert rowid a = a\<lparr>al_id := rowid, al_rule_name := c_str (al_rule_name a),
     al_severity := c_str (al_severity a), al_metric := c_str (al_metric a),
     al_kind := c_str (al_kind a), al_message := c_str (al_message a),
     al_attribution := c_str (al_attribution a)\<rparr>"

definition insert_alert :: "write_rc \<Rightarrow> AlertRecord \<Rightarrow> Database \<Rightarrow> Database \<times> int cxx" where
  "insert_alert rc a =
     write_stmt ''insert_alert'' rc (\<lambda>rowid. db_alerts_update (\<lambda>rows. rows @ [stored_alert rowid a]))"

definition recent_alerts :: "read_rc \<Rightarrow> int \<Rightarrow> Database \<Rightarrow> AlertRecord list cxx" where
  "recent_alerts rc n db =
     fetch ''recent_alerts'' rc (limit_rows n (newest_first al_ts al_id (db_alerts db)))"

subsection \<open>Job definitions\<close>

definition stored_def :: "JobDef \<Rightarrow> JobDef" where
  "stored_def d = d\<lparr>def_name := c_str (def_name d), def_command := c_str (def_command d),
     def_schedule_expr := c_str (def_schedule_expr d),
     def_missed_run_policy := c_str (def_missed_run_policy d)\<rparr>"

text \<open>\<open>INSERT ... ON CONFLICT(name) DO UPDATE\<close>: replace the row of that name, or add one.\<close>

definition upsert_row :: "JobDef \<Rightarrow> JobDef list \<Rightarrow> JobDef list" where
  "upsert_row d rows =
     (if def_name d \<in> def_name ` set rows
      then map (\<lambda>e. if def_name e = def_name d then d else e) rows
      else rows @ [d])"

definition delete_row :: "string \<Rightarrow> JobDef list \<Rightarrow> JobDef list" where
  "delete_row n rows = filter (\<lambda>e. def_name e \<noteq> n) rows"

definition upsert_job_def :: "write_rc \<Rightarrow> JobDef \<Rightarrow> Database \<Rightarrow> Database \<times> unit cxx" where
  "upsert_job_def rc d db =
     apsnd (\<lambda>r. cxx_bind r (\<lambda>_. Ret ()))
       (write_stmt ''upsert_job_def'' rc (\<lambda>_. db_job_defs_update (upsert_row (stored_def d))) db)"

definition delete_job_def :: "write_rc \<Rightarrow> string \<Rightarrow> Database \<Rightarrow> Database \<times> unit cxx" where
  "delete_job_def rc n db =
     apsnd (\<lambda>r. cxx_bind r (\<lambda>_. Ret ()))
       (write_stmt ''delete_job_def'' rc (\<lambda>_. db_job_defs_update (delete_row (c_str n))) db)"

definition load_job_defs :: "read_rc \<Rightarrow> Database \<Rightarrow> JobDef list cxx" where
  "load_job_defs rc db = fetch ''load_job_defs'' rc (sort_key def_name (db_job_defs db))"

section \<open>The interface of the job store\<close>

text \<open>
  What the scheduler relies on to keep its jobs across restarts: a store of definitions by
  name, in which a write or a delete of one name leaves every other name alone.
\<close>

locale job_store =
  fixes lookup :: "'s \<Rightarrow> string \<Rightarrow> 'd option"
    and put :: "'d \<Rightarrow> 's \<Rightarrow> 's"
    and del :: "string \<Rightarrow> 's \<Rightarrow> 's"
    and name_of :: "'d \<Rightarrow> string"
  assumes lookup_put: "lookup (put d s) n = (if n = name_of d then Some d else lookup s n)"
    and lookup_del: "lookup (del m s) n = (if n = m then None else lookup s n)"
begin

lemma lookup_put_del: "lookup (del (name_of d) (put d s)) n = lookup (del (name_of d) s) n"
  by (simp add: lookup_put lookup_del)

lemma lookup_puts:
  "lookup (fold put ds s) n =
    (case find (\<lambda>d. name_of d = n) (rev ds) of Some d \<Rightarrow> Some d | None \<Rightarrow> lookup s n)"
proof (induction ds rule: rev_induct)
  case Nil
  then show ?case by simp
next
  case (snoc d ds)
  then show ?case by (auto simp: lookup_put)
qed

end

definition lookup_def :: "JobDef list \<Rightarrow> string \<Rightarrow> JobDef option" where
  "lookup_def rows n = find (\<lambda>d. def_name d = n) rows"

lemma find_map_replace:
  "find (\<lambda>e. def_name e = n) (map (\<lambda>e. if def_name e = def_name d then d else e) rows) =
    (if n = def_name d \<and> def_name d \<in> def_name ` set rows then Some d
     else find (\<lambda>e. def_name e = n) rows)"
  by (induction rows) auto

lemma find_append: "find P (xs @ ys) = (case find P xs of Some x \<Rightarrow> Some x | None \<Rightarrow> find P ys)"
  by (induction xs) auto

lemma find_filter_other:
  "find (\<lambda>e. def_name e = n) (filter (\<lambda>e. def_name e \<noteq> m) rows) =
    (if n = m then None else find (\<lambda>e. def_name e = n) rows)"
  by (induction rows) auto

interpretation store: job_store lookup_def upsert_row delete_row def_name
proof
  fix d and rows :: "JobDef list" and n
  have "find (\<lambda>e. def_name e = n) rows = None" if "n \<notin> def_name ` set rows"
    using that by (auto simp: find_None_iff)
  then show "lookup_def (upsert_row d rows) n = (if n = def_name d then Some d else lookup_def rows n)"
    by (auto simp: lookup_def_def upsert_row_def find_map_replace find_append split: option.split)
next
  fix m rows n
  show "lookup_def (delete_row m rows) n = (if n = m then None else lookup_def rows n)"
    by (simp add: lookup_def_def delete_row_def find_filter_other)
qed

section \<open>Well-formed tables\<close>

text \<open>The primary key of \<open>job_defs\<close> and the cut at NUL: what every statement maintains.\<close>

definition wf_def :: "JobDef \<Rightarrow> bool" where
  "wf_def d \<longleftrightarrow> stored_def d = d"

definition wf_job_defs :: "JobDef list \<Rightarrow> bool" where
  "wf_job_defs rows \<longleftrightarrow> distinct (map def_name rows) \<and> (\<forall>d \<in> set rows. wf_def d)"

lemma stored_def_wf [simp]: "wf_def (stored_def d)"
  by (simp add: wf_def_def stored_def_def)

lemma set_upsert_row:
  assumes "distinct (map def_name rows)"
  shows "set (upsert_row d rows) = insert d {e \<in> set rows. def_name e \<noteq> def_name d}"
  using assms by (auto simp: upsert_row_def image_iff)

lemma distinct_upsert_row:
  assumes "distinct (map def_name rows)"
  shows "distinct (map def_name (upsert_row d rows))"
proof -
  have "def_name \<circ> (\<lambda>e. if def_name e = def_name d then d else e) = def_name"
    by (simp add: fun_eq_iff)
  with assms show ?thesis by (simp add: upsert_row_def)
qed

lemma distinct_delete_row: "distinct (map def_name rows) \<Longrightarrow> distinct (map def_name (delete_row n rows))"
  by (simp add: delete_row_def distinct_map_filter)

lemma upsert_wf: "wf_job_defs rows \<Longrightarrow> wf_def d \<Longrightarrow> wf_job_defs (upsert_row d rows)"
  by (auto simp: wf_job_defs_def distinct_upsert_row set_upsert_row)

lemma delete_wf: "wf_job_defs rows \<Longrightarrow> wf_job_defs (delete_row n rows)"
  by (auto simp: wf_job_defs_def distinct_delete_row) (simp add: delete_row_def)

lemma lookup_def_mem:
  assumes "distinct (map def_name rows)"
  shows "lookup_def rows n = Some d \<longleftrightarrow> d \<in> set rows \<and> def_name d = n"
  using assms by (induction rows) (auto simp: lookup_def_def)

text \<open>A read error after the first rows is not reported: the caller gets a shorter list.\<close>

lemma read_errors_are_silent: "load_job_defs (Read_stops k) db = Ret (take k (sort_key def_name (db_job_defs db)))"
  by (simp add: load_job_defs_def fetch_def)

section \<open>Ordering\<close>

lemma newest_first_head:
  assumes "newest_first key rid rows = r # rest"
  shows "r \<in> set rows \<and> (\<forall>q \<in> set rows. (key q, rid q) \<le> (key r, rid r))"
proof -
  have rows: "set rows = insert r (set rest)"
    using arg_cong [OF assms, of set] by (simp add: newest_first_def)
  have "sorted (map (\<lambda>r. (- key r, - rid r)) (r # rest))"
    using sorted_sort_key [of "\<lambda>r. (- key r, - rid r)" rows] assms [unfolded newest_first_def]
    by (simp only:)
  then have "\<forall>q \<in> set rest. (- key r, - rid r) \<le> (- key q, - rid q)" by auto
  with rows show ?thesis by (auto simp: less_eq_prod_def)
qed

lemma newest_first_Nil [simp]: "newest_first key rid rows = [] \<longleftrightarrow> rows = []"
  by (metis length_0_conv length_sort newest_first_def)

lemma set_newest_first [simp]: "set (newest_first key rid rows) = set rows"
  by (simp add: newest_first_def)

lemma length_newest_first [simp]: "length (newest_first key rid rows) = length rows"
  by (simp add: newest_first_def)

lemma newest_first_sorted:
  "sorted_wrt (\<lambda>a b. (key b, rid b) \<le> (key a, rid a)) (newest_first key rid rows)"
proof -
  have "sorted (map (\<lambda>r. (- key r, - rid r)) (newest_first key rid rows))"
    by (simp add: newest_first_def)
  then have "sorted_wrt (\<lambda>a b. (- key a, - rid a) \<le> (- key b, - rid b)) (newest_first key rid rows)"
    by (simp add: sorted_map)
  then show ?thesis by (rule sorted_wrt_mono_rel [rotated]) auto
qed

lemma last_run_complete:
  "last_run Read_complete job db = Ret (first_row (newest_first run_started_at run_id (runs_of job db)))"
  by (cases "newest_first run_started_at run_id (runs_of job db)")
     (simp_all add: last_run_def fetch_def limit_rows_def first_row_def)

section \<open>Properties\<close>

text \<open>Fact: a job definition that is saved survives. After a successful \<open>upsert_job_def\<close> of a definition
  without NUL bytes, loading returns exactly that definition and the earlier ones of other
  names, each name once and in the order of their bytes, and the table stays well-formed.\<close>

theorem upsert_load_roundtrip:
  assumes "upsert_job_def (Write_done rowid) d db = (db', res)" "wf_job_defs (db_job_defs db)" "wf_def d"
    "load_job_defs Read_complete db = Ret before" "load_job_defs Read_complete db' = Ret loaded"
  shows "res = Ret () \<and> wf_job_defs (db_job_defs db') \<and>
    set loaded = insert d {e \<in> set before. def_name e \<noteq> def_name d} \<and>
    sorted (map def_name loaded) \<and> distinct (map def_name loaded)"
proof -
  have db': "db' = db\<lparr>db_job_defs := upsert_row d (db_job_defs db)\<rparr>" "res = Ret ()"
    using assms(1,3) by (auto simp: upsert_job_def_def write_stmt_def wf_def_def)
  have wf: "wf_job_defs (db_job_defs db')"
    using upsert_wf [OF assms(2,3)] by (simp add: db')
  have lists: "before = sort_key def_name (db_job_defs db)" "loaded = sort_key def_name (db_job_defs db')"
    using assms(4,5) by (simp_all add: load_job_defs_def fetch_def)
  have "distinct (map def_name loaded)"
    using wf by (simp add: lists wf_job_defs_def distinct_map)
  moreover have "set loaded = insert d {e \<in> set before. def_name e \<noteq> def_name d}"
    using assms(2) by (simp add: lists db' wf_job_defs_def set_upsert_row)
  ultimately show ?thesis using wf db'(2) by (simp add: lists)
qed

text \<open>Fact: deleting a definition removes that name and nothing else, and saving then deleting a name is
  as good as deleting it.\<close>

theorem delete_removes_only:
  "fst (delete_job_def (Write_done i) n db) =
     db\<lparr>db_job_defs := filter (\<lambda>e. def_name e \<noteq> c_str n) (db_job_defs db)\<rparr> \<and>
   lookup_def (db_job_defs (fst (delete_job_def (Write_done i) (def_name d)
     (fst (upsert_job_def (Write_done k) d db))))) m =
   lookup_def (db_job_defs (fst (delete_job_def (Write_done i) (def_name d) db))) m"
  using store.lookup_put_del [of "stored_def d" "db_job_defs db" m]
  by (simp add: delete_job_def_def upsert_job_def_def write_stmt_def stored_def_def delete_row_def)

text \<open>Fact: what \<open>last_run\<close> returns after a run is recorded is that run: it holds for a run that
  started no earlier than the recorded runs of the job and whose row id is larger than theirs,
  and the fields come back as they were, apart from the id, when no text has a NUL byte.\<close>

theorem recorded_run_is_last:
  assumes "insert_run (Write_done rowid) r db = (db', res)"
    "\<forall>q \<in> set (runs_of (run_job_name r) db). run_started_at q \<le> run_started_at r \<and> run_id q < rowid"
    "\<forall>s \<in> {run_job_name r, run_status r, run_stdout_text r, run_stderr_text r, run_trigger r}. nul_free s"
  shows "res = Ret rowid \<and> last_run Read_complete (run_job_name r) db' = Ret (Some (r\<lparr>run_id := rowid\<rparr>))"
proof -
  have stored: "stored_run rowid r = r\<lparr>run_id := rowid\<rparr>"
    using assms(3) by (simp add: stored_run_def)
  have runs: "runs_of (run_job_name r) db' = runs_of (run_job_name r) db @ [r\<lparr>run_id := rowid\<rparr>]"
    and res: "res = Ret rowid"
    using assms(1,3) stored by (auto simp: insert_run_def write_stmt_def runs_of_def)
  obtain q rest where q: "newest_first run_started_at run_id (runs_of (run_job_name r) db') = q # rest"
    using newest_first_Nil [of run_started_at run_id "runs_of (run_job_name r) db'"] runs
    by (cases "newest_first run_started_at run_id (runs_of (run_job_name r) db')") auto
  have "q = r\<lparr>run_id := rowid\<rparr>"
    using newest_first_head [OF q] assms(2) by (force simp: runs)
  then show ?thesis by (simp add: last_run_complete q first_row_def res)
qed

text \<open>Fact: \<open>recent_runs\<close> is a window on the history: it returns only runs of the job, newest first,
  as many as asked for or all there are, and no run it leaves out is newer than one it
  returns; a negative limit returns them all.\<close>

theorem recent_runs_window:
  "\<exists>rows rest. recent_runs Read_complete job n db = Ret rows \<and>
    mset (rows @ rest) = mset (runs_of job db) \<and>
    length rows = (if n < 0 then length (runs_of job db) else min (nat n) (length (runs_of job db))) \<and>
    sorted_wrt (\<lambda>a b. (run_started_at b, run_id b) \<le> (run_started_at a, run_id a)) (rows @ rest)"
proof -
  let ?all = "newest_first run_started_at run_id (runs_of job db)"
  let ?rest = "if n < 0 then [] else drop (nat n) ?all"
  have all: "limit_rows n ?all @ ?rest = ?all" by (simp add: limit_rows_def)
  have "mset ?all = mset (runs_of job db)" by (simp add: newest_first_def)
  moreover have "length (limit_rows n ?all) =
      (if n < 0 then length (runs_of job db) else min (nat n) (length (runs_of job db)))"
    by (simp add: limit_rows_def min.commute)
  ultimately show ?thesis
    using newest_first_sorted [of run_started_at run_id "runs_of job db"]
    by (intro exI [of _ "limit_rows n ?all"] exI [of _ ?rest]) (simp only: recent_runs_def fetch_def read_rc.case all)
qed

subsection \<open>Concrete inputs\<close>

definition empty_Database :: Database where
  "empty_Database = \<lparr>db_metrics = [], db_runs = [], db_alerts = [], db_job_defs = []\<rparr>"

definition sample_def :: "string \<Rightarrow> JobDef" where
  "sample_def n = \<lparr>def_name = n, def_command = ''make'', def_schedule_expr = [],
     def_missed_run_policy = ''none'', def_timeout_seconds = 0, def_retries = 0\<rparr>"

definition sample_run :: RunRecord where
  "sample_run = \<lparr>run_id = 0, run_job_name = ''b'', run_started_at = 100, run_ended_at = 101,
     run_status = ''success'', run_exit_code = 0, run_duration_ms = 900, run_stdout_text = ''ok'',
     run_stderr_text = [], run_trigger = ''manual''\<rparr>"

theorem upsert_load_roundtrip_witness:
  "set (sort_key def_name (upsert_row (sample_def ''b'') [sample_def ''c''])) =
     {sample_def ''b'', sample_def ''c''}"
proof -
  let ?db = "empty_Database\<lparr>db_job_defs := [sample_def ''c'']\<rparr>"
  let ?db' = "?db\<lparr>db_job_defs := upsert_row (sample_def ''b'') [sample_def ''c'']\<rparr>"
  have nf: "nul_free [CHR ''b'']" "nul_free [CHR ''c'']" "nul_free ''make''" "nul_free ''none''" "nul_free []"
    by (simp_all add: nul_free_def code_of_def)
  then have "upsert_job_def (Write_done 1) (sample_def ''b'') ?db = (?db', Ret ())"
    by (simp add: upsert_job_def_def write_stmt_def stored_def_def sample_def_def)
  moreover have "wf_job_defs (db_job_defs ?db)" "wf_def (sample_def ''b'')"
    using nf by (simp_all add: wf_job_defs_def wf_def_def stored_def_def sample_def_def)
  moreover have "load_job_defs Read_complete ?db = Ret [sample_def ''c'']"
    "load_job_defs Read_complete ?db' = Ret (sort_key def_name (db_job_defs ?db'))"
    by (simp_all add: load_job_defs_def fetch_def)
  ultimately have "set (sort_key def_name (db_job_defs ?db')) =
      insert (sample_def ''b'') {e \<in> set [sample_def ''c'']. def_name e \<noteq> def_name (sample_def ''b'')}"
    using upsert_load_roundtrip [of 1 "sample_def ''b''" ?db ?db'] by blast
  moreover have "{e \<in> set [sample_def ''c'']. def_name e \<noteq> def_name (sample_def ''b'')} = {sample_def ''c''}"
    by (auto simp: sample_def_def)
  ultimately show ?thesis by simp
qed

theorem recorded_run_is_last_witness:
  "last_run Read_complete ''b'' (fst (insert_run (Write_done 7) sample_run empty_Database)) =
     Ret (Some (sample_run\<lparr>run_id := 7\<rparr>))"
proof -
  have nf: "nul_free ''b''" "nul_free ''success''" "nul_free ''ok''" "nul_free ''manual''" "nul_free []"
    by (simp_all add: nul_free_def code_of_def)
  then have fields: "\<forall>s \<in> {run_job_name sample_run, run_status sample_run, run_stdout_text sample_run,
      run_stderr_text sample_run, run_trigger sample_run}. nul_free s" "run_job_name sample_run = ''b''"
    by (simp_all add: sample_run_def)
  have "runs_of (run_job_name sample_run) empty_Database = []"
    by (simp add: runs_of_def empty_Database_def)
  then show ?thesis
    using recorded_run_is_last [of 7 sample_run empty_Database, OF prod.collapse [symmetric] _ fields(1)]
    by (simp add: fields(2))
qed

end
