(* ===== verification/Scheduler.thy ===== *)
theory Scheduler
  imports Config Shared_State Process_Runner Database Notifier
begin

text \<open>
  The job scheduler of \<open>daemon/src/jobs/scheduler.hpp\<close> and \<open>scheduler.cpp\<close>. Its members are the
  record \<open>Scheduler\<close>; the database connection and the shared snapshot it writes are part of
  it. Every member function is a function on that record. What it asks of the world is an
  argument: \<open>lt\<close> is \<open>localtime_r\<close>, the times are the values \<open>time(nullptr)\<close> returns, and the outcomes of
  SQLite and of the child processes are those of the theories \<open>Database\<close> and \<open>Process_Runner\<close>.
  The notifications posted are an output; the lines logged are left out.

  The loop thread is one \<open>tick\<close> per iteration. A running task is an entry of \<open>sc_running\<close>; its
  thread is joinable until the task is reaped, so overwriting the entry is \<open>Terminate\<close>.
\<close>

section \<open>Data\<close>

record RunningTask =
  rt_done :: bool

record Scheduler =
  sc_jobs :: "Job list"
  sc_next_run :: "string \<rightharpoonup> int"
  sc_running :: "string \<rightharpoonup> RunningTask"
  sc_last_runs :: "string \<rightharpoonup> RunRecord"
  sc_missed_handled :: "string \<rightharpoonup> int"
  sc_queue :: "(string \<times> string) list"
  sc_last_wall :: int
  sc_wake_pending :: bool
  sc_active :: bool
  sc_db :: Database
  sc_state :: SharedState

type_synonym notification = "string \<times> string"

text \<open>The time an alert is raised at and how its insertion ends.\<close>

type_synonym alert_env = "int \<times> write_rc"

section \<open>Conversions and detection\<close>

definition job_from_def :: "JobDef \<Rightarrow> Job cxx" where
  "job_from_def d =
     cxx_bind (if def_schedule_expr d \<noteq> [] then parse (def_schedule_expr d) else Ret None)
       (\<lambda>sched. Ret \<lparr>job_name = def_name d, job_command = def_command d, job_schedule = sched,
          job_schedule_expr = def_schedule_expr d,
          job_missed_run_policy = missed_run_policy_from_string (def_missed_run_policy d),
          job_timeout_seconds = def_timeout_seconds d, job_retries = def_retries d,
          job_source = ''ui''\<rparr>)"

definition def_from_job :: "Job \<Rightarrow> JobDef" where
  "def_from_job j = \<lparr>def_name = job_name j, def_command = job_command j,
     def_schedule_expr = job_schedule_expr j,
     def_missed_run_policy = policy_to_string (job_missed_run_policy j),
     def_timeout_seconds = job_timeout_seconds j, def_retries = job_retries j\<rparr>"

definition detect_missed_run :: "(int \<Rightarrow> tm) \<Rightarrow> CronSchedule \<Rightarrow> int \<Rightarrow> int \<Rightarrow> int option" where
  "detect_missed_run lt sched last_run_ts now =
     (case prev_before lt sched now of
        None \<Rightarrow> None
      | Some prev \<Rightarrow> if last_run_ts \<ge> prev then None else Some prev)"

definition find_job :: "string \<Rightarrow> Job list \<Rightarrow> Job option" where
  "find_job n jobs = find (\<lambda>j. job_name j = n) jobs"

section \<open>Publishing\<close>

definition job_status :: "Scheduler \<Rightarrow> Job \<Rightarrow> JobStatus" where
  "job_status s job =
     (let st = default_JobStatus\<lparr>js_name := job_name job, js_schedule_expr := job_schedule_expr job,
                 js_source := job_source job\<rparr>;
          st1 = (case sc_next_run s (job_name job) of None \<Rightarrow> st | Some t \<Rightarrow> st\<lparr>js_next_run := t\<rparr>);
          st2 = (case sc_running s (job_name job) of
                   None \<Rightarrow> st1
                 | Some task \<Rightarrow> if rt_done task then st1 else st1\<lparr>js_running := True\<rparr>)
      in case sc_last_runs s (job_name job) of
           None \<Rightarrow> st2
         | Some r \<Rightarrow> st2\<lparr>js_has_last_run := True, js_last_status := run_status r,
               js_last_started_at := run_started_at r, js_last_exit_code := run_exit_code r,
               js_last_duration_ms := run_duration_ms r, js_last_trigger := run_trigger r\<rparr>)"

definition publish_status :: "Scheduler \<Rightarrow> Scheduler" where
  "publish_status s = s\<lparr>sc_state := set_jobs (map (job_status s) (sc_jobs s)) (sc_state s)\<rparr>"

definition emit_alert :: "alert_env \<Rightarrow> string \<Rightarrow> string \<Rightarrow> string \<Rightarrow> string \<Rightarrow> double \<Rightarrow> Scheduler \<Rightarrow>
    Scheduler \<times> notification list" where
  "emit_alert env jobname severity message attribution v s =
     (let ts = fst env;
          rec = \<lparr>al_id = 0, al_ts = ts, al_rule_name = jobname, al_severity = severity,
                 al_metric = ''job'', al_kind = ''firing'', al_value = v, al_threshold = Fin 0,
                 al_message = message, al_attribution = attribution\<rparr>;
          db = fst (insert_alert (snd env) rec (sc_db s));
          info = \<lparr>ai_ts = ts, ai_rule_name = jobname, ai_severity = severity, ai_metric = ''job'',
                  ai_kind = ''firing'', ai_value = v, ai_threshold = Fin 0, ai_message = message,
                  ai_attribution = attribution, ai_notify = True\<rparr>;
          body = message @ (if attribution \<noteq> [] then CHR 0x0A # attribution else [])
      in (s\<lparr>sc_db := db, sc_state := add_alert kRecentAlerts info (sc_state s)\<rparr>,
          [(''AgentPulse: '' @ jobname, body)]))"

section \<open>Construction, starting and stopping\<close>

text \<open>The loop that merges the stored definitions: jobs of the configuration win a name clash.\<close>

fun merge_defs :: "JobDef list \<Rightarrow> Job list \<Rightarrow> Job list cxx" where
  "merge_defs [] jobs = Ret jobs"
| "merge_defs (d # ds) jobs =
     (if find_job (def_name d) jobs = None
      then cxx_bind (job_from_def d) (\<lambda>j. merge_defs ds (jobs @ [j]))
      else merge_defs ds jobs)"

text \<open>The loop over the jobs: next occurrence and last recorded run of each.\<close>

fun load_runs :: "(int \<Rightarrow> tm) \<Rightarrow> int \<Rightarrow> (string \<Rightarrow> read_rc) \<Rightarrow> Job list \<Rightarrow> Scheduler \<Rightarrow> Scheduler cxx" where
  "load_runs lt now rcs [] s = Ret s"
| "load_runs lt now rcs (job # jobs) s =
     (let s1 = (case job_schedule job of
                  None \<Rightarrow> s
                | Some sched \<Rightarrow>
                    (case next_after lt sched now of
                       None \<Rightarrow> s
                     | Some t \<Rightarrow> s\<lparr>sc_next_run := (sc_next_run s)(job_name job \<mapsto> t)\<rparr>))
      in cxx_bind (last_run (rcs (job_name job)) (job_name job) (sc_db s1))
           (\<lambda>r. load_runs lt now rcs jobs
              (case r of
                 None \<Rightarrow> s1
               | Some run \<Rightarrow> s1\<lparr>sc_last_runs := (sc_last_runs s1)(job_name job \<mapsto> run)\<rparr>)))"

text \<open>\<open>opened\<close> is the outcome of opening the database and migrating its schema.\<close>

definition new_Scheduler :: "(int \<Rightarrow> tm) \<Rightarrow> unit cxx \<Rightarrow> read_rc \<Rightarrow> (string \<Rightarrow> read_rc) \<Rightarrow> int \<Rightarrow> Job list \<Rightarrow>
    Database \<Rightarrow> SharedState \<Rightarrow> Scheduler cxx" where
  "new_Scheduler lt opened defs_rc rcs now jobs db state =
     cxx_bind opened (\<lambda>_.
     cxx_bind (load_job_defs defs_rc db) (\<lambda>defs.
     cxx_bind (merge_defs defs jobs) (\<lambda>jobs'.
     cxx_bind (load_runs lt now rcs jobs'
         \<lparr>sc_jobs = jobs', sc_next_run = Map.empty, sc_running = Map.empty, sc_last_runs = Map.empty,
          sc_missed_handled = Map.empty, sc_queue = [], sc_last_wall = 0, sc_wake_pending = False,
          sc_active = False, sc_db = db, sc_state = state\<rparr>) (\<lambda>s.
     Ret (publish_status s)))))"

definition enqueue :: "string \<Rightarrow> string \<Rightarrow> Scheduler \<Rightarrow> Scheduler" where
  "enqueue n trigger s = s\<lparr>sc_queue := sc_queue s @ [(n, trigger)]\<rparr>"

definition notify_wake :: "Scheduler \<Rightarrow> Scheduler" where
  "notify_wake s = s\<lparr>sc_wake_pending := True\<rparr>"

text \<open>\<open>stop\<close> joins the loop thread and every worker, so none is left running.\<close>

definition stop :: "Scheduler \<Rightarrow> Scheduler" where
  "stop s = (if \<not> sc_active s then s else s\<lparr>sc_active := False, sc_running := Map.empty\<rparr>)"

section \<open>Requests\<close>

definition request_run :: "string \<Rightarrow> Scheduler \<Rightarrow> Scheduler \<times> bool" where
  "request_run n s =
     (if find_job n (sc_jobs s) = None then (s, False) else (enqueue n ''manual'' s, True))"

definition add_job :: "(int \<Rightarrow> tm) \<Rightarrow> int \<Rightarrow> write_rc \<Rightarrow> Job \<Rightarrow> Scheduler \<Rightarrow> Scheduler \<times> string" where
  "add_job lt now rc job s =
     (if job_name job = [] then (s, ''job name is required'')
      else if job_command job = [] then (s, ''job command is required'')
      else if find_job (job_name job) (sc_jobs s) \<noteq> None
        then (s, ''a job named '' @ quoted (job_name job) @ '' already exists'')
      else
        let stored = job\<lparr>job_source := ''ui''\<rparr>;
            (db, res) = upsert_job_def rc (def_from_job stored) (sc_db s)
        in case res of
             Throw e \<Rightarrow> (s\<lparr>sc_db := db\<rparr>, ''could not persist job: '' @ e)
           | _ \<Rightarrow>
               let s1 = s\<lparr>sc_db := db, sc_jobs := sc_jobs s @ [stored]\<rparr>;
                   s2 = (case job_schedule stored of
                           None \<Rightarrow> s1
                         | Some sched \<Rightarrow>
                             (case next_after lt sched now of
                                None \<Rightarrow> s1
                              | Some t \<Rightarrow>
                                  s1\<lparr>sc_next_run := (sc_next_run s1)(job_name stored \<mapsto> t)\<rparr>))
               in (publish_status s2, []))"

definition remove_job :: "write_rc \<Rightarrow> string \<Rightarrow> Scheduler \<Rightarrow> Scheduler \<times> string" where
  "remove_job rc n s =
     (case find_job n (sc_jobs s) of
        None \<Rightarrow> (s, ''no such job: '' @ quoted n)
      | Some job \<Rightarrow>
          if job_source job \<noteq> ''ui'' then (s, ''job '' @ quoted n @ '' is defined in config.yaml'')
          else
            let (db, res) = delete_job_def rc n (sc_db s)
            in case res of
                 Throw e \<Rightarrow> (s\<lparr>sc_db := db\<rparr>, ''could not delete job: '' @ e)
               | _ \<Rightarrow>
                   (publish_status
                      (s\<lparr>sc_db := db, sc_jobs := filter (\<lambda>j. job_name j \<noteq> n) (sc_jobs s),
                         sc_next_run := (sc_next_run s)(n := None),
                         sc_last_runs := (sc_last_runs s)(n := None),
                         sc_missed_handled := (sc_missed_handled s)(n := None)\<rparr>), []))"

section \<open>Missed runs\<close>

text \<open>The message of a missed run; the dash is the UTF-8 bytes E2 80 94.\<close>

definition missed_message :: string where
  "missed_message = ''scheduled run was missed (Mac asleep or daemon down) '' @
     [CHR 0xE2, CHR 0x80, CHR 0x94] @ '' recovering now''"

text \<open>The body of the loop over the candidates. \<open>missed_handled_[name]\<close> creates a missing entry with 0.\<close>

definition scan_job :: "(int \<Rightarrow> tm) \<Rightarrow> int \<Rightarrow> (string \<Rightarrow> alert_env) \<Rightarrow> Job \<Rightarrow> Scheduler \<Rightarrow>
    Scheduler \<times> notification list" where
  "scan_job lt now env job s =
     (case job_schedule job of
        None \<Rightarrow> (s, [])
      | Some sched \<Rightarrow>
          let last_run_ts = (case sc_last_runs s (job_name job) of None \<Rightarrow> 0 | Some r \<Rightarrow> run_started_at r)
          in case detect_missed_run lt sched last_run_ts now of
               None \<Rightarrow> (s, [])
             | Some missed \<Rightarrow>
                 let handled = (case sc_missed_handled s (job_name job) of None \<Rightarrow> 0 | Some h \<Rightarrow> h)
                 in if handled \<ge> missed
                    then (s\<lparr>sc_missed_handled := (sc_missed_handled s)(job_name job \<mapsto> handled)\<rparr>, [])
                    else
                      let s1 = s\<lparr>sc_missed_handled := (sc_missed_handled s)(job_name job \<mapsto> missed)\<rparr>;
                          (s2, notes) = emit_alert (env (job_name job)) (job_name job) ''warning''
                            missed_message
                            (''policy: '' @ policy_to_string (job_missed_run_policy job))
                            (Fin (real_of_int missed)) s1
                      in (enqueue (job_name job) ''missed'' s2, notes))"

definition candidates :: "Job list \<Rightarrow> Job list" where
  "candidates jobs =
     filter (\<lambda>j. job_schedule j \<noteq> None \<and> job_missed_run_policy j \<noteq> PolicyNone) jobs"

definition scan_missed :: "(int \<Rightarrow> tm) \<Rightarrow> int \<Rightarrow> (string \<Rightarrow> alert_env) \<Rightarrow> Scheduler \<Rightarrow>
    Scheduler \<times> notification list" where
  "scan_missed lt now env s = run_steps (scan_job lt now env) (candidates (sc_jobs s)) s"

definition start :: "(int \<Rightarrow> tm) \<Rightarrow> int \<Rightarrow> int \<Rightarrow> (string \<Rightarrow> alert_env) \<Rightarrow> Scheduler \<Rightarrow>
    Scheduler \<times> notification list" where
  "start lt wall now env s =
     (if sc_active s then (s, [])
      else scan_missed lt now env (s\<lparr>sc_active := True, sc_last_wall := wall\<rparr>))"

section \<open>The loop\<close>

definition reap_finished :: "Scheduler \<Rightarrow> Scheduler" where
  "reap_finished s =
     s\<lparr>sc_running := (\<lambda>n. case sc_running s n of
          None \<Rightarrow> None
        | Some task \<Rightarrow> if rt_done task then None else Some task)\<rparr>"

definition is_running :: "Scheduler \<Rightarrow> string \<Rightarrow> bool" where
  "is_running s n = (case sc_running s n of None \<Rightarrow> False | Some task \<Rightarrow> \<not> rt_done task)"

definition kWakeGapSeconds :: int where
  "kWakeGapSeconds = 90"

text \<open>\<open>gap_wake || wake_pending_.exchange(false)\<close>: a gap leaves a pending wake-up pending.\<close>

definition check_wake :: "(int \<Rightarrow> tm) \<Rightarrow> int \<Rightarrow> int \<Rightarrow> (string \<Rightarrow> alert_env) \<Rightarrow> Scheduler \<Rightarrow>
    Scheduler \<times> notification list" where
  "check_wake lt wall now env s =
     (let gap_wake = (wall - sc_last_wall s > kWakeGapSeconds);
          s1 = s\<lparr>sc_last_wall := wall\<rparr>
      in if gap_wake then scan_missed lt now env s1
         else if sc_wake_pending s1
              then scan_missed lt now env (s1\<lparr>sc_wake_pending := False\<rparr>)
              else (s1, []))"

text \<open>Queued requests: the ones to launch, and the ones deferred because the job still runs.\<close>

fun collect_queue :: "Scheduler \<Rightarrow> (string \<times> string) list \<Rightarrow> (Job \<times> string) list \<times> (string \<times> string) list" where
  "collect_queue s [] = ([], [])"
| "collect_queue s ((n, trigger) # q) =
     (let (launches, deferred) = collect_queue s q
      in case find_job n (sc_jobs s) of
           None \<Rightarrow> (launches, deferred)
         | Some job \<Rightarrow>
             if is_running s n then (launches, (n, trigger) # deferred)
             else ((job, trigger) # launches, deferred))"

text \<open>Due scheduled jobs: advance the next occurrence, and launch unless the job still runs.\<close>

definition collect_due_job :: "(int \<Rightarrow> tm) \<Rightarrow> int \<Rightarrow> Job \<Rightarrow> Scheduler \<Rightarrow> Scheduler \<times> (Job \<times> string) list" where
  "collect_due_job lt now job s =
     (case job_schedule job of
        None \<Rightarrow> (s, [])
      | Some sched \<Rightarrow>
          (case sc_next_run s (job_name job) of
             None \<Rightarrow> (s, [])
           | Some t \<Rightarrow>
               if t > now then (s, [])
               else (s\<lparr>sc_next_run := (sc_next_run s)(job_name job := next_after lt sched now)\<rparr>,
                     if is_running s (job_name job) then [] else [(job, ''schedule'')])))"

definition collect :: "(int \<Rightarrow> tm) \<Rightarrow> int \<Rightarrow> Scheduler \<Rightarrow> Scheduler \<times> (Job \<times> string) list" where
  "collect lt now s =
     (let (queued, deferred) = collect_queue s (sc_queue s);
          (s1, due) = run_steps (collect_due_job lt now) (sc_jobs s) (s\<lparr>sc_queue := deferred\<rparr>)
      in (s1, queued @ due))"

text \<open>Assigning to an occupied entry of \<open>running_\<close> destroys a task whose thread is joinable.\<close>

definition launch :: "Job \<Rightarrow> string \<Rightarrow> Scheduler \<Rightarrow> Scheduler cxx" where
  "launch job trigger s =
     (if sc_running s (job_name job) \<noteq> None then Terminate
      else Ret (s\<lparr>sc_running := (sc_running s)(job_name job \<mapsto> \<lparr>rt_done = False\<rparr>)\<rparr>))"

fun launch_all :: "(Job \<times> string) list \<Rightarrow> Scheduler \<Rightarrow> Scheduler cxx" where
  "launch_all [] s = Ret s"
| "launch_all ((job, trigger) # ls) s = cxx_bind (launch job trigger s) (launch_all ls)"

text \<open>
  What the world does during one iteration: the clock reads, the outcomes of the alerts, and
  the jobs whose workers finish after the reaping and before the launches.
\<close>

record tick_env =
  te_wall :: int
  te_scan_now :: int
  te_alerts :: "string \<Rightarrow> alert_env"
  te_finished :: "string list"

definition finish_tasks :: "string list \<Rightarrow> Scheduler \<Rightarrow> Scheduler" where
  "finish_tasks names s =
     s\<lparr>sc_running := (\<lambda>n. if n \<in> set names then map_option (rt_done_update (\<lambda>_. True)) (sc_running s n)
                          else sc_running s n)\<rparr>"

definition tick :: "(int \<Rightarrow> tm) \<Rightarrow> tick_env \<Rightarrow> Scheduler \<Rightarrow>
    (Scheduler \<times> (Job \<times> string) list \<times> notification list) cxx" where
  "tick lt env s =
     (let (s1, notes) = check_wake lt (te_wall env) (te_scan_now env) (te_alerts env) (reap_finished s);
          (s2, launches) = collect lt (te_wall env) (finish_tasks (te_finished env) s1)
      in cxx_bind (launch_all launches s2) (\<lambda>s3. Ret (publish_status s3, launches, notes)))"

section \<open>The worker\<close>

text \<open>
  One attempt of a worker: whether \<open>active_\<close> was still set at its head, how the system answers
  \<open>run_command\<close>, and how the insertion of the run ends.
\<close>

record attempt_env =
  at_active :: bool
  at_run :: run_env
  at_rc :: write_rc

definition run_record :: "Job \<Rightarrow> string \<Rightarrow> RunResult \<Rightarrow> RunRecord" where
  "run_record job trigger res =
     \<lparr>run_id = 0, run_job_name = job_name job, run_started_at = rr_started_at res,
      run_ended_at = rr_ended_at res, run_status = status_to_string (rr_status res),
      run_exit_code = rr_exit_code res, run_duration_ms = rr_duration_ms res,
      run_stdout_text = rr_stdout_text res, run_stderr_text = rr_stderr_text res,
      run_trigger = trigger\<rparr>"

definition record_attempt :: "write_rc \<Rightarrow> Job \<Rightarrow> string \<Rightarrow> RunResult \<Rightarrow> Scheduler \<Rightarrow> Scheduler" where
  "record_attempt rc job trigger res s =
     (let rec = run_record job trigger res
      in s\<lparr>sc_db := fst (insert_run rc rec (sc_db s)),
           sc_last_runs := (sc_last_runs s)(job_name job \<mapsto> rec)\<rparr>)"

text \<open>The loop over the attempts: \<open>None\<close> while it has not ended.\<close>

fun worker_attempts :: "Job \<Rightarrow> string \<Rightarrow> int \<Rightarrow> int \<Rightarrow> attempt_env list \<Rightarrow> RunResult \<Rightarrow> Scheduler \<Rightarrow>
    (Scheduler \<times> RunResult) option" where
  "worker_attempts job trigger attempts attempt [] res s =
     (if attempt \<le> attempts then None else Some (s, res))"
| "worker_attempts job trigger attempts attempt (e # es) res s =
     (if attempt \<le> attempts \<and> at_active e
      then case run_command (at_run e) (job_command job) (job_timeout_seconds job) of
             None \<Rightarrow> None
           | Some (res', _) \<Rightarrow>
               let s1 = record_attempt (at_rc e) job trigger res' s
               in if rr_status res' = Success then Some (s1, res')
                  else worker_attempts job trigger attempts (attempt + 1) es res' s1
      else Some (s, res))"

text \<open>The last line of the captured errors that is not blank, cut to 160 characters.\<close>

definition stderr_detail :: "string \<Rightarrow> string" where
  "stderr_detail err =
     (let trimmed = rev (dropWhile (\<lambda>c. c \<in> {CHR 0x20, CHR 0x09, CHR 0x0D, CHR 0x0A}) (rev err))
      in if trimmed = [] then []
         else let detail = rev (takeWhile (\<lambda>c. c \<noteq> CHR 0x0A) (rev trimmed))
              in if length detail > 160 then take 157 detail @ ''...'' else detail)"

definition failure_message :: "RunResult \<Rightarrow> int \<Rightarrow> string" where
  "failure_message res attempts =
     ''run '' @ status_to_string (rr_status res) @ '' (exit '' @ to_string (rr_exit_code res) @
     '', after '' @ to_string attempts @ '' attempt'' @ (if attempts = 1 then [] else ''s'') @ '')''"

definition mark_done :: "string \<Rightarrow> Scheduler \<Rightarrow> Scheduler" where
  "mark_done n s = finish_tasks [n] s"

text \<open>\<open>retries + 1\<close> overflows for the largest \<open>int\<close>. \<open>active\<close> is what the final test of \<open>active_\<close> reads.\<close>

definition worker :: "attempt_env list \<Rightarrow> bool \<Rightarrow> alert_env \<Rightarrow> Job \<Rightarrow> string \<Rightarrow> Scheduler \<Rightarrow>
    (Scheduler \<times> notification list) option cxx" where
  "worker tries active env job trigger s =
     (if job_retries job = INT_MAX then Undefined
      else
        let attempts = job_retries job + 1
        in Ret (case worker_attempts job trigger attempts 1 tries default_RunResult s of
             None \<Rightarrow> None
           | Some (s1, res) \<Rightarrow>
               let (s2, notes) =
                     (if active \<and> rr_status res \<noteq> Success
                      then emit_alert env (job_name job) ''serious'' (failure_message res attempts)
                             (stderr_detail (rr_stderr_text res))
                             (Fin (real_of_int (rr_exit_code res))) s1
                      else (s1, []))
               in Some (mark_done (job_name job) s2, notes)))"

section \<open>What each operation leaves alone\<close>

named_theorems sched_frame \<open>fields an operation of the scheduler does not touch\<close>

lemma publish_frame [simp]:
  "sc_jobs (publish_status s) = sc_jobs s" "sc_next_run (publish_status s) = sc_next_run s"
  "sc_running (publish_status s) = sc_running s" "sc_last_runs (publish_status s) = sc_last_runs s"
  "sc_missed_handled (publish_status s) = sc_missed_handled s" "sc_queue (publish_status s) = sc_queue s"
  "sc_db (publish_status s) = sc_db s" "sc_active (publish_status s) = sc_active s"
  "ss_alerts (sc_state (publish_status s)) = ss_alerts (sc_state s)"
  by (simp_all add: publish_status_def)

lemma job_status_name [simp]: "js_name (job_status s j) = job_name j"
  by (simp add: job_status_def Let_def split: option.split)

lemma published_names [simp]: "map js_name (ss_jobs (sc_state (publish_status s))) = map job_name (sc_jobs s)"
  by (simp add: publish_status_def comp_def)

lemma write_frame:
  "db_job_defs (fst (insert_alert rc a db)) = db_job_defs db" "db_job_defs (fst (insert_run rc r db)) = db_job_defs db"
  by (simp_all add: insert_alert_def insert_run_def write_stmt_def split: write_rc.split)

lemma emit_frame [sched_frame]:
  "sc_jobs (fst (emit_alert e n sv m a v s)) = sc_jobs s"
  "sc_next_run (fst (emit_alert e n sv m a v s)) = sc_next_run s"
  "sc_running (fst (emit_alert e n sv m a v s)) = sc_running s"
  "sc_last_runs (fst (emit_alert e n sv m a v s)) = sc_last_runs s"
  "sc_missed_handled (fst (emit_alert e n sv m a v s)) = sc_missed_handled s"
  "sc_queue (fst (emit_alert e n sv m a v s)) = sc_queue s"
  "ss_jobs (sc_state (fst (emit_alert e n sv m a v s))) = ss_jobs (sc_state s)"
  "db_job_defs (sc_db (fst (emit_alert e n sv m a v s))) = db_job_defs (sc_db s)"
  by (simp_all add: emit_alert_def Let_def write_frame)

lemma length_emit [simp]: "length (snd (emit_alert e n sv m a v s)) = 1"
  by (simp add: emit_alert_def Let_def)

section \<open>Missed runs: lemmas\<close>

text \<open>The occurrence a scan recovers for a job, if any.\<close>

definition missed_of :: "(int \<Rightarrow> tm) \<Rightarrow> int \<Rightarrow> Scheduler \<Rightarrow> Job \<Rightarrow> int option" where
  "missed_of lt now s job =
     (case job_schedule job of
        None \<Rightarrow> None
      | Some c \<Rightarrow>
          (case detect_missed_run lt c
                  (case sc_last_runs s (job_name job) of None \<Rightarrow> 0 | Some r \<Rightarrow> run_started_at r) now of
             None \<Rightarrow> None
           | Some m \<Rightarrow>
               if (case sc_missed_handled s (job_name job) of None \<Rightarrow> 0 | Some h \<Rightarrow> h) \<ge> m then None
               else Some m))"

lemma scan_job_frame [sched_frame]:
  "sc_jobs (fst (scan_job lt now env j s)) = sc_jobs s"
  "sc_next_run (fst (scan_job lt now env j s)) = sc_next_run s"
  "sc_running (fst (scan_job lt now env j s)) = sc_running s"
  "sc_last_runs (fst (scan_job lt now env j s)) = sc_last_runs s"
  "ss_jobs (sc_state (fst (scan_job lt now env j s))) = ss_jobs (sc_state s)"
  "db_job_defs (sc_db (fst (scan_job lt now env j s))) = db_job_defs (sc_db s)"
  by (simp_all add: scan_job_def enqueue_def Let_def split_beta sched_frame split: option.split)

lemma scan_job_queue:
  "sc_queue (fst (scan_job lt now env j s)) =
     sc_queue s @ (if missed_of lt now s j = None then [] else [(job_name j, ''missed'')])"
  "length (snd (scan_job lt now env j s)) = (if missed_of lt now s j = None then 0 else 1)"
  by (simp_all add: scan_job_def missed_of_def enqueue_def Let_def split_beta sched_frame split: option.split)

lemma scan_job_handled:
  "n \<noteq> job_name j \<Longrightarrow> sc_missed_handled (fst (scan_job lt now env j s)) n = sc_missed_handled s n"
  "missed_of lt now s j = Some m \<Longrightarrow> sc_missed_handled (fst (scan_job lt now env j s)) (job_name j) = Some m"
  "missed_of lt now s j = None \<Longrightarrow>
    (case sc_missed_handled (fst (scan_job lt now env j s)) (job_name j) of None \<Rightarrow> 0 | Some h \<Rightarrow> h) =
    (case sc_missed_handled s (job_name j) of None \<Rightarrow> 0 | Some h \<Rightarrow> h)"
  by (auto simp: scan_job_def missed_of_def enqueue_def Let_def split_beta sched_frame
      split: option.splits if_splits)

lemma missed_of_cong:
  assumes "sc_last_runs s' (job_name j) = sc_last_runs s (job_name j)"
    "(case sc_missed_handled s' (job_name j) of None \<Rightarrow> 0 | Some h \<Rightarrow> h) =
     (case sc_missed_handled s (job_name j) of None \<Rightarrow> 0 | Some h \<Rightarrow> h)"
  shows "missed_of lt now s' j = missed_of lt now s j"
  unfolding missed_of_def assms ..

lemma scan_frame [sched_frame]:
  "sc_jobs (fst (run_steps (scan_job lt now env) js s)) = sc_jobs s"
  "sc_next_run (fst (run_steps (scan_job lt now env) js s)) = sc_next_run s"
  "sc_running (fst (run_steps (scan_job lt now env) js s)) = sc_running s"
  "sc_last_runs (fst (run_steps (scan_job lt now env) js s)) = sc_last_runs s"
  "ss_jobs (sc_state (fst (run_steps (scan_job lt now env) js s))) = ss_jobs (sc_state s)"
  "db_job_defs (sc_db (fst (run_steps (scan_job lt now env) js s))) = db_job_defs (sc_db s)"
  by (induction js arbitrary: s) (simp_all add: sched_frame)

lemma scan_handled_other:
  "n \<notin> job_name ` set js \<Longrightarrow>
    sc_missed_handled (fst (run_steps (scan_job lt now env) js s)) n = sc_missed_handled s n"
  by (induction js arbitrary: s) (simp_all add: scan_job_handled(1))

lemma scan_queue:
  assumes "distinct (map job_name js)"
  shows "sc_queue (fst (run_steps (scan_job lt now env) js s)) =
      sc_queue s @ map (\<lambda>j. (job_name j, ''missed'')) (filter (\<lambda>j. missed_of lt now s j \<noteq> None) js) \<and>
    length (snd (run_steps (scan_job lt now env) js s)) =
      length (filter (\<lambda>j. missed_of lt now s j \<noteq> None) js)"
  using assms
proof (induction js arbitrary: s)
  case Nil
  then show ?case by simp
next
  case (Cons j js)
  let ?s1 = "fst (scan_job lt now env j s)"
  have "missed_of lt now ?s1 k = missed_of lt now s k" if "k \<in> set js" for k
  proof -
    have "job_name k \<noteq> job_name j" using that Cons.prems by (auto simp: image_iff)
    then show ?thesis by (intro missed_of_cong) (simp_all add: sched_frame scan_job_handled(1))
  qed
  then have "filter (\<lambda>j. missed_of lt now ?s1 j \<noteq> None) js = filter (\<lambda>j. missed_of lt now s j \<noteq> None) js"
    by (intro filter_cong) simp_all
  with Cons.IH [of ?s1] Cons.prems show ?case by (simp add: scan_job_queue)
qed

lemma scan_handled:
  assumes "distinct (map job_name js)" "j \<in> set js"
  shows "(case sc_missed_handled (fst (run_steps (scan_job lt now env) js s)) (job_name j) of None \<Rightarrow> 0 | Some h \<Rightarrow> h) =
    (case missed_of lt now s j of
       Some m \<Rightarrow> m
     | None \<Rightarrow> (case sc_missed_handled s (job_name j) of None \<Rightarrow> 0 | Some h \<Rightarrow> h))"
  using assms
proof (induction js arbitrary: s)
  case Nil
  then show ?case by simp
next
  case (Cons k ks)
  show ?case
  proof (cases "j = k")
    case True
    with Cons.prems(1) show ?thesis
      by (auto simp: scan_handled_other scan_job_handled(2,3) split: option.split)
  next
    case False
    with Cons.prems have j: "j \<in> set ks" "job_name j \<noteq> job_name k" by (auto simp: image_iff)
    have "missed_of lt now (fst (scan_job lt now env k s)) j = missed_of lt now s j"
      using j(2) by (intro missed_of_cong) (simp_all add: sched_frame scan_job_handled(1))
    with Cons.IH [OF _ j(1), of "fst (scan_job lt now env k s)"] Cons.prems(1) j(2)
    show ?thesis by (simp add: scan_job_handled(1) cong: option.case_cong)
  qed
qed

section \<open>The loop: lemmas\<close>

lemma collect_queue_eq:
  "collect_queue s q =
    (map (\<lambda>(n, t). (the (find_job n (sc_jobs s)), t))
       (filter (\<lambda>(n, t). find_job n (sc_jobs s) \<noteq> None \<and> \<not> is_running s n) q),
     filter (\<lambda>(n, t). find_job n (sc_jobs s) \<noteq> None \<and> is_running s n) q)"
  by (induction s q rule: collect_queue.induct) (auto split: option.split)

lemma find_job_name: "find_job n jobs = Some j \<Longrightarrow> job_name j = n \<and> j \<in> set jobs"
  by (auto simp: find_job_def find_Some_iff)

lemma find_job_None: "find_job n jobs = None \<longleftrightarrow> n \<notin> job_name ` set jobs"
  by (auto simp: find_job_def find_None_iff)

lemma find_job_mem:
  assumes "distinct (map job_name jobs)" "j \<in> set jobs"
  shows "find_job (job_name j) jobs = Some j"
  using assms by (induction jobs) (auto simp: find_job_def)

lemma collect_due_frame [sched_frame]:
  "sc_jobs (fst (collect_due_job lt now j s)) = sc_jobs s"
  "sc_running (fst (collect_due_job lt now j s)) = sc_running s"
  "sc_last_runs (fst (collect_due_job lt now j s)) = sc_last_runs s"
  "sc_queue (fst (collect_due_job lt now j s)) = sc_queue s"
  "sc_db (fst (collect_due_job lt now j s)) = sc_db s"
  "sc_state (fst (collect_due_job lt now j s)) = sc_state s"
  by (simp_all add: collect_due_job_def split: option.split)

lemma due_frame [sched_frame]:
  "sc_jobs (fst (run_steps (collect_due_job lt now) js s)) = sc_jobs s"
  "sc_running (fst (run_steps (collect_due_job lt now) js s)) = sc_running s"
  "sc_last_runs (fst (run_steps (collect_due_job lt now) js s)) = sc_last_runs s"
  "sc_queue (fst (run_steps (collect_due_job lt now) js s)) = sc_queue s"
  "sc_db (fst (run_steps (collect_due_job lt now) js s)) = sc_db s"
  "sc_state (fst (run_steps (collect_due_job lt now) js s)) = sc_state s"
  by (induction js arbitrary: s) (simp_all add: sched_frame)

text \<open>A job that is due at \<open>now\<close>.\<close>

definition due :: "int \<Rightarrow> Scheduler \<Rightarrow> Job \<Rightarrow> bool" where
  "due now s job \<longleftrightarrow> job_schedule job \<noteq> None \<and>
     (case sc_next_run s (job_name job) of None \<Rightarrow> False | Some t \<Rightarrow> t \<le> now)"

lemma collect_due_job_eq:
  "collect_due_job lt now j s =
    (if due now s j
     then (s\<lparr>sc_next_run := (sc_next_run s)(job_name j := next_after lt (the (job_schedule j)) now)\<rparr>,
           if is_running s (job_name j) then [] else [(j, ''schedule'')])
     else (s, []))"
  by (auto simp: collect_due_job_def due_def split: option.split)

lemma due_jobs:
  assumes "distinct (map job_name js)"
  shows "snd (run_steps (collect_due_job lt now) js s) =
      map (\<lambda>j. (j, ''schedule'')) (filter (\<lambda>j. due now s j \<and> \<not> is_running s (job_name j)) js) \<and>
    (\<forall>n. sc_next_run (fst (run_steps (collect_due_job lt now) js s)) n =
      (case find_job n js of
         Some j \<Rightarrow> if due now s j then next_after lt (the (job_schedule j)) now else sc_next_run s n
       | None \<Rightarrow> sc_next_run s n))"
  using assms
proof (induction js arbitrary: s)
  case Nil
  then show ?case by (simp add: find_job_def)
next
  case (Cons j js)
  let ?s1 = "fst (collect_due_job lt now j s)"
  have other: "due now ?s1 k = due now s k" "is_running ?s1 m = is_running s m" if "k \<in> set js" for k m
    using that Cons.prems by (auto simp: collect_due_job_eq due_def is_running_def image_iff split: if_splits)
  have "filter (\<lambda>j. due now ?s1 j \<and> \<not> is_running ?s1 (job_name j)) js =
      filter (\<lambda>j. due now s j \<and> \<not> is_running s (job_name j)) js"
    using other by (intro filter_cong) simp_all
  moreover have "find_job (job_name j) js = None" using Cons.prems by (auto simp: find_job_None)
  moreover have "due now ?s1 k = due now s k" if "find_job n js = Some k" for n k
    using find_job_name [OF that] other by simp
  ultimately show ?case
    using Cons.IH [of ?s1] Cons.prems
    by (auto simp: collect_due_job_eq find_job_def split: option.split)
qed

lemma launch_all_eq:
  "launch_all ls s =
    (if distinct (map (job_name \<circ> fst) ls) \<and> (\<forall>l \<in> set ls. sc_running s (job_name (fst l)) = None)
     then Ret (s\<lparr>sc_running := (\<lambda>n. if n \<in> job_name ` fst ` set ls then Some \<lparr>rt_done = False\<rparr>
                                    else sc_running s n)\<rparr>)
     else Terminate)"
proof (induction ls arbitrary: s)
  case Nil
  then show ?case by simp
next
  case (Cons l ls)
  obtain j t where l: "l = (j, t)" by fastforce
  show ?case
    by (auto simp: l launch_def Cons.IH fun_eq_iff image_iff split: if_splits) (metis fst_conv)
qed


lemma reap_frame [sched_frame]:
  "sc_jobs (reap_finished s) = sc_jobs s" "sc_next_run (reap_finished s) = sc_next_run s"
  "sc_queue (reap_finished s) = sc_queue s" "sc_db (reap_finished s) = sc_db s"
  "sc_state (reap_finished s) = sc_state s" "sc_last_runs (reap_finished s) = sc_last_runs s"
  "sc_wake_pending (reap_finished s) = sc_wake_pending s" "sc_last_wall (reap_finished s) = sc_last_wall s"
  by (simp_all add: reap_finished_def)

lemma finish_frame [sched_frame]:
  "sc_jobs (finish_tasks ns s) = sc_jobs s" "sc_next_run (finish_tasks ns s) = sc_next_run s"
  "sc_queue (finish_tasks ns s) = sc_queue s" "sc_db (finish_tasks ns s) = sc_db s"
  "sc_state (finish_tasks ns s) = sc_state s" "sc_last_runs (finish_tasks ns s) = sc_last_runs s"
  by (simp_all add: finish_tasks_def)

lemma check_wake_frame [sched_frame]:
  "sc_jobs (fst (check_wake lt wall now env s)) = sc_jobs s"
  "sc_next_run (fst (check_wake lt wall now env s)) = sc_next_run s"
  "sc_running (fst (check_wake lt wall now env s)) = sc_running s"
  "sc_last_runs (fst (check_wake lt wall now env s)) = sc_last_runs s"
  "ss_jobs (sc_state (fst (check_wake lt wall now env s))) = ss_jobs (sc_state s)"
  "db_job_defs (sc_db (fst (check_wake lt wall now env s))) = db_job_defs (sc_db s)"
  by (simp_all add: check_wake_def scan_missed_def Let_def sched_frame)

text \<open>The state right before the launches of an iteration.\<close>

definition before_launch :: "(int \<Rightarrow> tm) \<Rightarrow> tick_env \<Rightarrow> Scheduler \<Rightarrow> Scheduler" where
  "before_launch lt env s =
     finish_tasks (te_finished env)
       (fst (check_wake lt (te_wall env) (te_scan_now env) (te_alerts env) (reap_finished s)))"

lemma before_launch_frame [sched_frame]:
  "sc_jobs (before_launch lt env s) = sc_jobs s"
  "sc_next_run (before_launch lt env s) = sc_next_run s"
  "sc_last_runs (before_launch lt env s) = sc_last_runs s"
  "db_job_defs (sc_db (before_launch lt env s)) = db_job_defs (sc_db s)"
  by (simp_all add: before_launch_def sched_frame)

lemma before_launch_idle: "sc_running s n = None \<Longrightarrow> sc_running (before_launch lt env s) n = None"
  by (simp add: before_launch_def check_wake_frame finish_tasks_def reap_finished_def)

lemma collect_frame [sched_frame]:
  "sc_jobs (fst (collect lt now s)) = sc_jobs s" "sc_running (fst (collect lt now s)) = sc_running s"
  "sc_last_runs (fst (collect lt now s)) = sc_last_runs s" "sc_db (fst (collect lt now s)) = sc_db s"
  by (simp_all add: collect_def Let_def split_beta sched_frame)

lemma collect_eq:
  assumes "distinct (map job_name (sc_jobs s))"
  shows "snd (collect lt now s) = fst (collect_queue s (sc_queue s)) @
      map (\<lambda>j. (j, ''schedule'')) (filter (\<lambda>j. due now s j \<and> \<not> is_running s (job_name j)) (sc_jobs s))"
    "sc_queue (fst (collect lt now s)) = snd (collect_queue s (sc_queue s))"
    "sc_next_run (fst (collect lt now s)) n =
      (case find_job n (sc_jobs s) of
         Some j \<Rightarrow> if due now s j then next_after lt (the (job_schedule j)) now else sc_next_run s n
       | None \<Rightarrow> sc_next_run s n)"
proof -
  let ?s1 = "s\<lparr>sc_queue := snd (collect_queue s (sc_queue s))\<rparr>"
  note d = due_jobs [OF assms, of lt now ?s1]
  have [simp]: "due now ?s1 = due now s" "is_running ?s1 = is_running s"
    by (simp_all add: fun_eq_iff due_def is_running_def)
  show "snd (collect lt now s) = fst (collect_queue s (sc_queue s)) @
      map (\<lambda>j. (j, ''schedule'')) (filter (\<lambda>j. due now s j \<and> \<not> is_running s (job_name j)) (sc_jobs s))"
    using d by (simp add: collect_def Let_def split_beta)
  show "sc_queue (fst (collect lt now s)) = snd (collect_queue s (sc_queue s))"
    by (simp add: collect_def Let_def split_beta sched_frame)
  show "sc_next_run (fst (collect lt now s)) n =
      (case find_job n (sc_jobs s) of
         Some j \<Rightarrow> if due now s j then next_after lt (the (job_schedule j)) now else sc_next_run s n
       | None \<Rightarrow> sc_next_run s n)"
    using d by (simp add: collect_def Let_def split_beta split: option.split)
qed

lemma tick_eq:
  "tick lt env s =
    cxx_bind (launch_all (snd (collect lt (te_wall env) (before_launch lt env s)))
        (fst (collect lt (te_wall env) (before_launch lt env s))))
      (\<lambda>s3. Ret (publish_status s3, snd (collect lt (te_wall env) (before_launch lt env s)),
         snd (check_wake lt (te_wall env) (te_scan_now env) (te_alerts env) (reap_finished s))))"
  by (simp add: tick_def before_launch_def Let_def split_beta)

lemma tick_RetD:
  assumes "tick lt env s = Ret (s', launches, notes)"
  defines "b \<equiv> before_launch lt env s"
  shows "launches = snd (collect lt (te_wall env) b)" "sc_jobs s' = sc_jobs s"
    "sc_next_run s' = sc_next_run (fst (collect lt (te_wall env) b))"
    "sc_queue s' = sc_queue (fst (collect lt (te_wall env) b))"
    "map js_name (ss_jobs (sc_state s')) = map job_name (sc_jobs s')"
    "db_job_defs (sc_db s') = db_job_defs (sc_db s)"
    "distinct (map (job_name \<circ> fst) launches)"
    "\<forall>l \<in> set launches. sc_running b (job_name (fst l)) = None"
  using assms
  by (auto simp: tick_eq launch_all_eq cxx_simps sched_frame split: if_splits)

end
