(* ===== verification/Scheduler_Invariant.thy ===== *)
theory Scheduler_Invariant
  imports Scheduler
begin

text \<open>
  The scheduler as a state machine: its threads are interleaved at the calls of its member
  functions (a worker at each of its critical sections), and an invariant is kept by every
  step of every thread. It says that job names stay distinct, that only scheduled jobs have
  a next occurrence, that the published list names the jobs, that the configured jobs stay,
  and that the jobs added at run time are exactly the ones a restart will find.
\<close>

section \<open>Job definitions and jobs\<close>

text \<open>A stored definition that some job was saved as.\<close>

definition saved_def :: "JobDef \<Rightarrow> bool" where
  "saved_def d \<longleftrightarrow> (\<exists>j. ui_job_ok j \<and> job_source j = ''ui'' \<and> d = def_from_job j)"

lemma policy_nul_free [simp]: "nul_free (policy_to_string p)"
  by (cases p) (simp_all add: nul_free_def code_of_def)

lemma def_from_job_name [simp]: "def_name (def_from_job j) = job_name j"
  by (simp add: def_from_job_def)

lemma def_from_job_source [simp]: "def_from_job (j\<lparr>job_source := x\<rparr>) = def_from_job j"
  by (simp add: def_from_job_def)

lemma job_def_roundtrip:
  "ui_job_ok j \<Longrightarrow> job_source j = ''ui'' \<Longrightarrow> job_from_def (def_from_job j) = Ret j"
  by (cases j) (auto simp: ui_job_ok_def job_from_def_def def_from_job_def cxx_simps)

lemma def_from_job_stored: "ui_job_ok j \<Longrightarrow> stored_def (def_from_job j) = def_from_job j"
  by (simp add: ui_job_ok_def stored_def_def def_from_job_def)

lemma merge_defs_eq:
  assumes "distinct (map def_name ds)" "\<forall>d \<in> set ds. job_from_def d = Ret (f d) \<and> job_name (f d) = def_name d"
  shows "merge_defs ds jobs = Ret (jobs @ map f (filter (\<lambda>d. def_name d \<notin> job_name ` set jobs) ds))"
  using assms
proof (induction ds arbitrary: jobs)
  case Nil
  then show ?case by simp
next
  case (Cons d ds)
  have "filter (\<lambda>e. def_name e \<notin> job_name ` set (jobs @ [f d])) ds =
      filter (\<lambda>e. def_name e \<notin> job_name ` set jobs) ds"
    using Cons.prems by (intro filter_cong) (auto simp: image_iff)
  with Cons show ?case by (simp add: find_job_None)
qed

lemma load_runs_RetD:
  assumes "load_runs lt now rcs js s = Ret s'"
  shows "sc_jobs s' = sc_jobs s \<and> sc_db s' = sc_db s \<and> sc_state s' = sc_state s \<and>
    dom (sc_next_run s') \<subseteq> dom (sc_next_run s) \<union> job_name ` {j \<in> set js. job_schedule j \<noteq> None}"
  using assms
proof (induction js arbitrary: s)
  case Nil
  then show ?case by simp
next
  case (Cons j js)
  define s1 where "s1 = (case job_schedule j of None \<Rightarrow> s | Some sched \<Rightarrow> (case next_after lt sched now of None \<Rightarrow> s
    | Some t \<Rightarrow> s\<lparr>sc_next_run := (sc_next_run s)(job_name j \<mapsto> t)\<rparr>))"
  have s1: "sc_jobs s1 = sc_jobs s" "sc_db s1 = sc_db s" "sc_state s1 = sc_state s"
    "dom (sc_next_run s1) \<subseteq> dom (sc_next_run s) \<union> job_name ` {k \<in> set (j # js). job_schedule k \<noteq> None}"
    by (auto simp: s1_def split: option.splits)
  obtain r where "load_runs lt now rcs js (case r of None \<Rightarrow> s1
      | Some run \<Rightarrow> s1\<lparr>sc_last_runs := (sc_last_runs s1)(job_name j \<mapsto> run)\<rparr>) = Ret s'"
    using Cons.prems by (auto simp: Let_def cxx_simps simp flip: s1_def)
  from Cons.IH [OF this] have "sc_jobs s' = sc_jobs s1 \<and> sc_db s' = sc_db s1 \<and> sc_state s' = sc_state s1 \<and>
      dom (sc_next_run s') \<subseteq> dom (sc_next_run s1) \<union> job_name ` {k \<in> set js. job_schedule k \<noteq> None}"
    by (cases r) simp_all
  moreover have "job_name ` {k \<in> set js. job_schedule k \<noteq> None} \<subseteq>
      job_name ` {k \<in> set (j # js). job_schedule k \<noteq> None}"
    by (intro image_mono) auto
  ultimately show ?case using s1 unfolding Un_subset_iff
    by (intro conjI; (simp; fail)?) blast
qed

lemma load_runs_returns:
  assumes "\<forall>n. \<forall>e. rcs n \<noteq> Read_prepare_error e"
  shows "\<exists>s'. load_runs lt now rcs js s = Ret s'"
proof (induction js arbitrary: s)
  case Nil
  then show ?case by simp
next
  case (Cons j js)
  have "\<exists>r. last_run (rcs (job_name j)) (job_name j) db = Ret r" for db
    using assms by (cases "rcs (job_name j)") (auto simp: last_run_def fetch_def)
  then show ?case using Cons by (metis (no_types, lifting) cxx_bind.simps(1) load_runs.simps(2))
qed

section \<open>The invariant\<close>

definition sched_inv :: "Scheduler \<Rightarrow> bool" where
  "sched_inv s \<longleftrightarrow>
     distinct (map job_name (sc_jobs s)) \<and>
     dom (sc_next_run s) \<subseteq> job_name ` {j \<in> set (sc_jobs s). job_schedule j \<noteq> None} \<and>
     map js_name (ss_jobs (sc_state s)) = map job_name (sc_jobs s) \<and>
     wf_job_defs (db_job_defs (sc_db s)) \<and>
     (\<forall>j \<in> set (sc_jobs s). job_source j = ''ui'' \<longrightarrow>
        ui_job_ok j \<and> lookup_def (db_job_defs (sc_db s)) (job_name j) = Some (def_from_job j)) \<and>
     def_name ` set (db_job_defs (sc_db s)) \<subseteq> job_name ` set (sc_jobs s)"

lemma sched_invD:
  assumes "sched_inv s"
  shows "distinct (map job_name (sc_jobs s))"
    "dom (sc_next_run s) \<subseteq> job_name ` {j \<in> set (sc_jobs s). job_schedule j \<noteq> None}"
    "map js_name (ss_jobs (sc_state s)) = map job_name (sc_jobs s)"
    "wf_job_defs (db_job_defs (sc_db s))"
    "def_name ` set (db_job_defs (sc_db s)) \<subseteq> job_name ` set (sc_jobs s)"
    "\<And>j. j \<in> set (sc_jobs s) \<Longrightarrow> job_source j = ''ui'' \<Longrightarrow>
      ui_job_ok j \<and> lookup_def (db_job_defs (sc_db s)) (job_name j) = Some (def_from_job j)"
  using assms unfolding sched_inv_def by simp_all

lemma sched_inv_cong:
  assumes "sched_inv s" "sc_jobs s' = sc_jobs s" "dom (sc_next_run s') \<subseteq> dom (sc_next_run s)"
    "map js_name (ss_jobs (sc_state s')) = map js_name (ss_jobs (sc_state s))"
    "db_job_defs (sc_db s') = db_job_defs (sc_db s)"
  shows "sched_inv s'"
  using sched_invD [OF assms(1)] order_trans [OF assms(3) sched_invD(2) [OF assms(1)]] assms(2,4,5)
  unfolding sched_inv_def by simp

lemma add_job_cases:
  obtains (rejected) err where "add_job lt now rc job s = (s, err)" "err \<noteq> []"
  | (added) s1 where "add_job lt now rc job s = (publish_status s1, [])"
      "job_name job \<noteq> []" "job_command job \<noteq> []" "job_name job \<notin> job_name ` set (sc_jobs s)"
      "sc_jobs s1 = sc_jobs s @ [job\<lparr>job_source := ''ui''\<rparr>]"
      "db_job_defs (sc_db s1) = upsert_row (stored_def (def_from_job job)) (db_job_defs (sc_db s))"
      "sc_next_run s1 = (case job_schedule job of None \<Rightarrow> sc_next_run s | Some c \<Rightarrow>
         (case next_after lt c now of None \<Rightarrow> sc_next_run s | Some t \<Rightarrow> (sc_next_run s)(job_name job \<mapsto> t)))"
      "sc_queue s1 = sc_queue s" "sc_running s1 = sc_running s" "sc_last_runs s1 = sc_last_runs s"
      "sc_state s1 = sc_state s" "db_runs (sc_db s1) = db_runs (sc_db s)"
proof (cases "job_name job = [] \<or> job_command job = [] \<or> find_job (job_name job) (sc_jobs s) \<noteq> None \<or>
    (\<forall>i. rc \<noteq> Write_done i)")
  case True
  then show ?thesis
    by (intro rejected [of "snd (add_job lt now rc job s)"]; cases rc)
       (auto simp: add_job_def upsert_job_def_def write_stmt_def quoted_def Let_def)
next
  case False
  then obtain i where rc: "rc = Write_done i" and ok: "job_name job \<noteq> []" "job_command job \<noteq> []"
    "find_job (job_name job) (sc_jobs s) = None" by blast
  let ?a = "s\<lparr>sc_db := db_job_defs_update (upsert_row (stored_def (def_from_job job))) (sc_db s),
    sc_jobs := sc_jobs s @ [job\<lparr>job_source := ''ui''\<rparr>]\<rparr>"
  let ?s1 = "case job_schedule job of None \<Rightarrow> ?a | Some c \<Rightarrow> (case next_after lt c now of None \<Rightarrow> ?a
    | Some t \<Rightarrow> ?a\<lparr>sc_next_run := (sc_next_run s)(job_name job \<mapsto> t)\<rparr>)"
  have "add_job lt now rc job s = (publish_status ?s1, [])"
    using ok by (simp add: add_job_def upsert_job_def_def write_stmt_def rc Let_def split: option.split)
  then show ?thesis
    by (rule added) (use ok in \<open>simp_all add: find_job_None split: option.split\<close>)
qed

lemma remove_job_cases:
  obtains (rejected) err where "remove_job rc n s = (s, err)" "err \<noteq> []"
  | (removed) s1 j where "remove_job rc n s = (publish_status s1, [])"
      "j \<in> set (sc_jobs s)" "job_name j = n" "job_source j = ''ui''"
      "sc_jobs s1 = filter (\<lambda>j. job_name j \<noteq> n) (sc_jobs s)"
      "db_job_defs (sc_db s1) = delete_row (c_str n) (db_job_defs (sc_db s))"
      "sc_next_run s1 = (sc_next_run s)(n := None)" "sc_last_runs s1 = (sc_last_runs s)(n := None)"
      "sc_missed_handled s1 = (sc_missed_handled s)(n := None)"
      "sc_state s1 = sc_state s" "db_runs (sc_db s1) = db_runs (sc_db s)"
proof (cases "find_job n (sc_jobs s)")
  case None
  then show ?thesis by (intro rejected) (auto simp: remove_job_def quoted_def)
next
  case (Some j)
  show ?thesis
  proof (cases "job_source j = ''ui'' \<and> (\<exists>i. rc = Write_done i)")
    case True
    then obtain i where ui: "job_source j = ''ui''" and rc: "rc = Write_done i" by blast
    let ?s1 = "s\<lparr>sc_db := db_job_defs_update (delete_row (c_str n)) (sc_db s),
      sc_jobs := filter (\<lambda>j. job_name j \<noteq> n) (sc_jobs s), sc_next_run := (sc_next_run s)(n := None),
      sc_last_runs := (sc_last_runs s)(n := None), sc_missed_handled := (sc_missed_handled s)(n := None)\<rparr>"
    have "remove_job rc n s = (publish_status ?s1, [])"
      using Some ui by (simp add: remove_job_def delete_job_def_def write_stmt_def rc)
    then show ?thesis
      by (rule removed) (use find_job_name [OF Some] ui in simp_all)
  next
    case False
    then show ?thesis
      by (intro rejected [of "snd (remove_job rc n s)"]; cases rc)
         (auto simp: remove_job_def delete_job_def_def write_stmt_def quoted_def Some)
  qed
qed

lemma add_job_inv:
  assumes "sched_inv s" "ui_job_ok job"
  shows "sched_inv (fst (add_job lt now rc job s))"
proof (cases lt now rc job s rule: add_job_cases)
  case (rejected err)
  then show ?thesis using assms(1) by simp
next
  case (added s1)
  let ?j = "job\<lparr>job_source := ''ui''\<rparr>"
  note inv = sched_invD [OF assms(1)]
  have stored: "stored_def (def_from_job job) = def_from_job job" by (rule def_from_job_stored [OF assms(2)])
  have wf: "wf_job_defs (db_job_defs (sc_db s1))"
    using upsert_wf [OF inv(4)] by (simp add: added(6))
  have ui: "ui_job_ok j \<and> lookup_def (db_job_defs (sc_db s1)) (job_name j) = Some (def_from_job j)"
    if "j \<in> set (sc_jobs s1)" "job_source j = ''ui''" for j
  proof (cases "j = ?j")
    case True
    then show ?thesis
      using assms(2) by (simp add: added(6) stored store.lookup_put) (simp add: ui_job_ok_def)
  next
    case False
    with that have j: "j \<in> set (sc_jobs s)" by (simp add: added(5))
    with added(4) have "job_name j \<noteq> job_name job" by (metis imageI)
    with inv(6) [OF j that(2)] show ?thesis by (simp add: added(6) stored store.lookup_put)
  qed
  have "dom (sc_next_run s1) \<subseteq> dom (sc_next_run s) \<union> job_name ` {j. j = ?j \<and> job_schedule j \<noteq> None}"
    by (auto simp: added(7) split: option.splits if_splits)
  also have "\<dots> \<subseteq> job_name ` {j \<in> set (sc_jobs s1). job_schedule j \<noteq> None}"
    using inv(2) by (simp add: added(5)) (fastforce simp: image_iff)
  finally have "dom (sc_next_run s1) \<subseteq> job_name ` {j \<in> set (sc_jobs s1). job_schedule j \<noteq> None}" .
  moreover have "def_name ` set (db_job_defs (sc_db s1)) \<subseteq> job_name ` set (sc_jobs s1)"
    using inv(4,5) by (auto simp: added(5,6) stored set_upsert_row wf_job_defs_def)
  moreover have "distinct (map job_name (sc_jobs s1))"
    using inv(1) added(4) by (simp add: added(5))
  ultimately have "sched_inv (publish_status s1)"
    using wf ui unfolding sched_inv_def by simp
  then show ?thesis by (simp add: added(1))
qed

lemma remove_job_inv:
  assumes "sched_inv s"
  shows "sched_inv (fst (remove_job rc n s))"
proof (cases rc n s rule: remove_job_cases)
  case (rejected err)
  then show ?thesis using assms by simp
next
  case (removed s1 j)
  note inv = sched_invD [OF assms]
  have "c_str n = n"
    using inv(6) [OF removed(2,4)] removed(3) by (simp add: ui_job_ok_def)
  then have db: "db_job_defs (sc_db s1) = delete_row n (db_job_defs (sc_db s))" by (simp add: removed(6))
  have ui: "ui_job_ok k \<and> lookup_def (db_job_defs (sc_db s1)) (job_name k) = Some (def_from_job k)"
    if "k \<in> set (sc_jobs s1)" "job_source k = ''ui''" for k
    using that inv(6) by (simp add: removed(5) db store.lookup_del)
  have "dom (sc_next_run s1) \<subseteq> job_name ` {j \<in> set (sc_jobs s1). job_schedule j \<noteq> None}"
    using inv(2) by (auto simp: removed(5,7))
  moreover have "def_name ` set (db_job_defs (sc_db s1)) \<subseteq> job_name ` set (sc_jobs s1)"
    using inv(5) by (auto simp: removed(5) db delete_row_def)
  moreover have "wf_job_defs (db_job_defs (sc_db s1))" using delete_wf [OF inv(4)] by (simp add: db)
  moreover have "distinct (map job_name (sc_jobs s1))"
    using inv(1) by (simp add: removed(5) distinct_map_filter)
  ultimately have "sched_inv (publish_status s1)"
    using ui unfolding sched_inv_def by simp
  then show ?thesis by (simp add: removed(1))
qed

lemma tick_inv:
  assumes "sched_inv s" "tick lt env s = Ret (s', launches, notes)"
  shows "sched_inv s'"
proof -
  note t = tick_RetD [OF assms(2)] and inv = sched_invD [OF assms(1)]
  have d: "distinct (map job_name (sc_jobs (before_launch lt env s)))" using inv(1) by (simp add: sched_frame)
  have "dom (sc_next_run s') \<subseteq> dom (sc_next_run s)"
    by (auto simp: t(3) collect_eq(3) [OF d] sched_frame due_def dest!: find_job_name
        split: option.splits if_splits)
  then show ?thesis
    by (rule sched_inv_cong [OF assms(1) t(2)]) (simp_all add: t(2,5,6) inv(3))
qed

text \<open>The jobs stored by the user interface that the configuration does not shadow.\<close>

definition stored_jobs :: "Job list \<Rightarrow> JobDef list \<Rightarrow> Job set" where
  "stored_jobs cfg ds = {j. ui_job_ok j \<and> job_source j = ''ui'' \<and> job_name j \<notin> job_name ` set cfg \<and>
     def_from_job j \<in> set ds}"

lemma merge_saved:
  assumes "distinct (map job_name cfg)" "distinct (map def_name ds)" "\<forall>d \<in> set ds. saved_def d"
  shows "\<exists>us. merge_defs ds cfg = Ret (cfg @ us) \<and> distinct (map job_name (cfg @ us)) \<and>
    set us = stored_jobs cfg ds"
proof -
  define f where "f d = (case job_from_def d of Ret j \<Rightarrow> j | _ \<Rightarrow> default_Job)" for d
  have f: "ui_job_ok (f d) \<and> job_source (f d) = ''ui'' \<and> def_from_job (f d) = d \<and> job_from_def d = Ret (f d)"
    if "saved_def d" for d
    using that by (auto simp: saved_def_def f_def job_def_roundtrip)
  have fname: "job_name (f d) = def_name d" if "saved_def d" for d
    using f [OF that] def_from_job_name [of "f d"] by simp
  let ?ds = "filter (\<lambda>d. def_name d \<notin> job_name ` set cfg) ds"
  have "map (job_name \<circ> f) ?ds = map def_name ?ds"
    using assms(3) fname by (intro map_cong) auto
  then have names: "map job_name (cfg @ map f ?ds) = map job_name cfg @ map def_name ?ds" by simp
  have "x \<notin> job_name ` set cfg" if "x \<in> def_name ` set ?ds" for x
    using that by (elim imageE) simp
  then have "job_name ` set cfg \<inter> def_name ` set ?ds = {}" by blast
  then have "distinct (map job_name (cfg @ map f ?ds))"
    unfolding names using assms(1) distinct_map_filter [OF assms(2)] by simp
  moreover have "merge_defs ds cfg = Ret (cfg @ map f ?ds)"
    using assms f fname by (intro merge_defs_eq) auto
  moreover have "j \<in> f ` set ?ds" if "j \<in> stored_jobs cfg ds" for j
    using that by (intro image_eqI [of _ _ "def_from_job j"]) (simp_all add: stored_jobs_def f_def job_def_roundtrip)
  then have "set (map f ?ds) = stored_jobs cfg ds"
    using assms(3) f fname by (auto simp: stored_jobs_def)
  ultimately show ?thesis by blast
qed

text \<open>The whole invariant: the jobs of the configuration stay, and every stored definition is a saved job.\<close>

definition sched_ok :: "Job list \<Rightarrow> Scheduler \<Rightarrow> bool" where
  "sched_ok cfg s \<longleftrightarrow> sched_inv s \<and> filter (\<lambda>j. job_source j \<noteq> ''ui'') (sc_jobs s) = cfg \<and>
     (\<forall>d \<in> set (db_job_defs (sc_db s)). saved_def d)"

lemma new_Scheduler_ok:
  assumes "new_Scheduler lt opened Read_complete rcs now cfg db st = Ret s"
    "distinct (map job_name cfg)" "\<forall>j \<in> set cfg. job_source j \<noteq> ''ui''"
    "distinct (map def_name (db_job_defs db))" "\<forall>d \<in> set (db_job_defs db). saved_def d"
  shows "sched_ok cfg s \<and> set (sc_jobs s) = set cfg \<union> stored_jobs cfg (db_job_defs db)"
proof -
  let ?ds = "sort_key def_name (db_job_defs db)"
  obtain us where us: "merge_defs ?ds cfg = Ret (cfg @ us)" "distinct (map job_name (cfg @ us))"
    "set us = stored_jobs cfg (db_job_defs db)"
    using merge_saved [of cfg ?ds] assms(2,4,5) by (auto simp: distinct_map stored_jobs_def)
  then obtain s0 where s: "s = publish_status s0" and s0: "sc_jobs s0 = cfg @ us" "sc_db s0 = db"
      "dom (sc_next_run s0) \<subseteq> job_name ` {j \<in> set (cfg @ us). job_schedule j \<noteq> None}"
    using assms(1) by (auto simp: new_Scheduler_def load_job_defs_def fetch_def cxx_simps dest!: load_runs_RetD)
  have ui: "ui_job_ok j \<and> lookup_def (db_job_defs db) (job_name j) = Some (def_from_job j)"
    if "j \<in> set (cfg @ us)" "job_source j = ''ui''" for j
    using that assms(3) by (auto simp: us(3) stored_jobs_def lookup_def_mem [OF assms(4)])
  have wf: "wf_job_defs (db_job_defs db)"
    using assms(4,5) by (auto simp: wf_job_defs_def saved_def_def wf_def_def def_from_job_stored)
  have "def_name d \<in> job_name ` set (cfg @ us)" if d: "d \<in> set (db_job_defs db)" for d
  proof -
    obtain j where j: "ui_job_ok j" "job_source j = ''ui''" "d = def_from_job j"
      using d assms(5) by (auto simp: saved_def_def)
    then have "def_name d \<in> job_name ` set cfg \<or> j \<in> set us"
      using d by (auto simp: us(3) stored_jobs_def)
    then show ?thesis using j(3) by (auto simp: image_Un)
  qed
  then have "sched_inv s"
    using s0 us(2) wf ui unfolding s sched_inv_def by (simp add: image_subset_iff)
  moreover have "filter (\<lambda>j. job_source j \<noteq> ''ui'') (cfg @ us) = cfg"
    using assms(3) us(3) by (auto simp: filter_id_conv filter_empty_conv stored_jobs_def)
  ultimately show ?thesis using assms(5) by (simp add: s s0 us(3) sched_ok_def)
qed

lemma sched_ok_cong:
  assumes "sched_ok cfg s" "sc_jobs s' = sc_jobs s" "dom (sc_next_run s') \<subseteq> dom (sc_next_run s)"
    "map js_name (ss_jobs (sc_state s')) = map js_name (ss_jobs (sc_state s))"
    "db_job_defs (sc_db s') = db_job_defs (sc_db s)"
  shows "sched_ok cfg s'"
  using sched_inv_cong [OF _ assms(2-5)] assms(1,2,5) by (simp add: sched_ok_def)

lemma add_job_ok:
  assumes "sched_ok cfg s" "ui_job_ok job"
  shows "sched_ok cfg (fst (add_job lt now rc job s))"
proof (cases lt now rc job s rule: add_job_cases)
  case (rejected err)
  then show ?thesis using assms(1) by simp
next
  case (added s1)
  have "saved_def (def_from_job job)"
    unfolding saved_def_def using assms(2)
    by (intro exI [of _ "job\<lparr>job_source := ''ui''\<rparr>"]) (simp add: ui_job_ok_def)
  moreover have "distinct (map def_name (db_job_defs (sc_db s)))"
    using assms(1) by (simp add: sched_ok_def sched_inv_def wf_job_defs_def)
  ultimately have "\<forall>d \<in> set (db_job_defs (sc_db s1)). saved_def d"
    using assms(1) by (auto simp: added(6) def_from_job_stored [OF assms(2)] set_upsert_row sched_ok_def)
  then show ?thesis
    using add_job_inv [OF _ assms(2), of s lt now rc] assms(1) by (simp add: sched_ok_def added(1,5))
qed

lemma remove_job_ok:
  assumes "sched_ok cfg s"
  shows "sched_ok cfg (fst (remove_job rc n s))"
proof (cases rc n s rule: remove_job_cases)
  case (rejected err)
  then show ?thesis using assms by simp
next
  case (removed s1 j)
  have "job_name k \<noteq> n" if "k \<in> set (sc_jobs s)" "job_source k \<noteq> ''ui''" for k
    using that removed(2-4) assms by (auto simp: sched_ok_def sched_inv_def distinct_map dest: inj_onD)
  then have "filter (\<lambda>j. job_source j \<noteq> ''ui'') (sc_jobs s1) = filter (\<lambda>j. job_source j \<noteq> ''ui'') (sc_jobs s)"
    by (auto simp: removed(5) intro: filter_cong)
  moreover have "set (db_job_defs (sc_db s1)) \<subseteq> set (db_job_defs (sc_db s))"
    by (auto simp: removed(6) delete_row_def)
  ultimately show ?thesis
    using remove_job_inv [of s rc n] assms by (auto simp: sched_ok_def removed(1))
qed

section \<open>The threads\<close>

text \<open>
  The socket thread adds, removes and requests jobs (with jobs as the API builds them); the
  power monitor signals a wake-up; the main thread starts and stops; the loop thread ticks;
  a worker records an attempt, raises an alert and signals its end.
\<close>

inductive sched_step :: "(int \<Rightarrow> tm) \<Rightarrow> Scheduler \<Rightarrow> Scheduler \<Rightarrow> bool" for lt where
  step_add: "ui_job_ok job \<Longrightarrow> sched_step lt s (fst (add_job lt now rc job s))"
| step_remove: "sched_step lt s (fst (remove_job rc n s))"
| step_request: "sched_step lt s (fst (request_run n s))"
| step_wake: "sched_step lt s (notify_wake s)"
| step_start: "sched_step lt s (fst (start lt wall now env s))"
| step_stop: "sched_step lt s (stop s)"
| step_tick: "tick lt env s = Ret (s', launches, notes) \<Longrightarrow> sched_step lt s s'"
| step_attempt: "sched_step lt s (record_attempt rc job trigger res s)"
| step_alert: "sched_step lt s (fst (emit_alert env n severity message attribution v s))"
| step_done: "sched_step lt s (mark_done n s)"

inductive_cases sched_stepE: "sched_step lt s s'"

text \<open>The states reached from a construction on the configured jobs and a database of saved jobs.\<close>

inductive reachable :: "(int \<Rightarrow> tm) \<Rightarrow> Job list \<Rightarrow> Scheduler \<Rightarrow> bool" for lt cfg where
  reach_init: "new_Scheduler lt opened Read_complete rcs now cfg db st = Ret s \<Longrightarrow>
    distinct (map def_name (db_job_defs db)) \<Longrightarrow> \<forall>d \<in> set (db_job_defs db). saved_def d \<Longrightarrow>
    reachable lt cfg s"
| reach_step: "reachable lt cfg s \<Longrightarrow> sched_step lt s s' \<Longrightarrow> reachable lt cfg s'"

lemma sched_step_ok:
  assumes "sched_step lt s s'" "sched_ok cfg s"
  shows "sched_ok cfg s'"
  using assms(1)
proof cases
  case (step_add job now rc)
  then show ?thesis using add_job_ok [OF assms(2)] by simp
next
  case (step_remove rc n)
  then show ?thesis using remove_job_ok [OF assms(2)] by simp
next
  case (step_tick env launches ns)
  note t = tick_RetD [OF step_tick]
  have "sched_inv s'" using tick_inv [OF _ step_tick] assms(2) by (simp add: sched_ok_def)
  then show ?thesis using assms(2) by (simp add: sched_ok_def t(2,6))
next
  case (step_start wall now env)
  then show ?thesis
    using assms(2) by (auto intro!: sched_ok_cong [OF assms(2)] simp: start_def scan_missed_def sched_frame)
qed (auto intro!: sched_ok_cong [OF assms(2)] simp: request_run_def enqueue_def notify_wake_def stop_def
    record_attempt_def write_frame sched_frame mark_done_def Let_def)

lemma reachable_ok:
  assumes "reachable lt cfg s" "distinct (map job_name cfg)" "\<forall>j \<in> set cfg. job_source j \<noteq> ''ui''"
  shows "sched_ok cfg s"
  using assms(1)
proof induction
  case (reach_init opened rcs now db st s)
  then show ?case using new_Scheduler_ok [OF reach_init(1) assms(2,3)] by simp
next
  case (reach_step s s')
  then show ?case using sched_step_ok by blast
qed

text \<open>The definitions that a restart turns into jobs are those of the jobs added at run time.\<close>

lemma stored_jobs_eq:
  assumes "sched_inv s" "filter (\<lambda>j. job_source j \<noteq> ''ui'') (sc_jobs s) = cfg"
  shows "stored_jobs cfg (db_job_defs (sc_db s)) = {j \<in> set (sc_jobs s). job_source j = ''ui''}"
proof (intro set_eqI iffI)
  fix j
  note inv = sched_invD [OF assms(1)]
  have d: "distinct (map def_name (db_job_defs (sc_db s)))" using inv(4) by (simp add: wf_job_defs_def)
  show "j \<in> {j \<in> set (sc_jobs s). job_source j = ''ui''}"
    if "j \<in> stored_jobs cfg (db_job_defs (sc_db s))"
  proof -
    have j: "ui_job_ok j" "job_source j = ''ui''" "job_name j \<notin> job_name ` set cfg"
      "def_from_job j \<in> set (db_job_defs (sc_db s))"
      using that by (simp_all add: stored_jobs_def)
    then obtain k where k: "k \<in> set (sc_jobs s)" "job_name k = job_name j"
      using inv(5) by (metis (no_types, lifting) def_from_job_name imageE image_eqI subsetD)
    have ui: "job_source k = ''ui''"
    proof (rule ccontr)
      assume "job_source k \<noteq> ''ui''"
      with k(1) assms(2) have "k \<in> set cfg" by auto
      with j(3) k(2) show False by (metis imageI)
    qed
    have "lookup_def (db_job_defs (sc_db s)) (job_name j) = Some (def_from_job j)"
      using j(4) by (simp add: lookup_def_mem [OF d])
    then have "def_from_job k = def_from_job j" using inv(6) [OF k(1) ui] k(2) by simp
    then have "Ret k = Ret j"
      using job_def_roundtrip [OF j(1,2)] job_def_roundtrip [OF conjunct1 [OF inv(6) [OF k(1) ui]] ui] by metis
    with k ui show ?thesis by simp
  qed
  show "j \<in> stored_jobs cfg (db_job_defs (sc_db s))"
    if "j \<in> {j \<in> set (sc_jobs s). job_source j = ''ui''}"
  proof -
    have j: "j \<in> set (sc_jobs s)" "job_source j = ''ui''" using that by simp_all
    have "job_name j \<noteq> job_name k" if "k \<in> set cfg" for k
      using that j inv(1) assms(2) by (auto simp: distinct_map dest: inj_onD)
    then show ?thesis
      using j inv(6) [OF j] lookup_def_mem [OF d] by (auto simp: stored_jobs_def)
  qed
qed

text \<open>A scheduler constructed on the database of a good state has its jobs.\<close>

lemma restart_ok:
  assumes "sched_ok cfg s" "distinct (map job_name cfg)" "\<forall>j \<in> set cfg. job_source j \<noteq> ''ui''"
    and "\<forall>n e. rcs n \<noteq> Read_prepare_error e"
  shows "\<exists>s'. new_Scheduler lt (Ret ()) Read_complete rcs now cfg (sc_db s) st = Ret s' \<and>
    set (sc_jobs s') = set (sc_jobs s) \<and> distinct (map job_name (sc_jobs s'))"
proof -
  have inv: "sched_inv s" and cfg: "filter (\<lambda>j. job_source j \<noteq> ''ui'') (sc_jobs s) = cfg"
    and saved: "\<forall>d \<in> set (db_job_defs (sc_db s)). saved_def d" using assms(1) by (simp_all add: sched_ok_def)
  let ?ds = "db_job_defs (sc_db s)"
  have d: "distinct (map def_name ?ds)" using sched_invD(4) [OF inv] by (simp add: wf_job_defs_def)
  obtain us where "merge_defs (sort_key def_name ?ds) cfg = Ret (cfg @ us)"
    using merge_saved [OF assms(2), of "sort_key def_name ?ds"] d saved by (auto simp: distinct_map)
  then obtain s' where s': "new_Scheduler lt (Ret ()) Read_complete rcs now cfg (sc_db s) st = Ret s'"
    using load_runs_returns [OF assms(4)]
    by (simp add: new_Scheduler_def load_job_defs_def fetch_def cxx_simps) blast
  note new = new_Scheduler_ok [OF s' assms(2,3) d saved]
  have "stored_jobs cfg ?ds = {j \<in> set (sc_jobs s). job_source j = ''ui''}"
    by (rule stored_jobs_eq [OF inv cfg])
  moreover have "set cfg = {j \<in> set (sc_jobs s). job_source j \<noteq> ''ui''}" using cfg by auto
  ultimately have "set (sc_jobs s') = set (sc_jobs s)" using new by auto
  with new s' show ?thesis by (auto simp: sched_ok_def sched_inv_def)
qed

section \<open>Properties\<close>

text \<open>Fact: in every state any interleaving of the scheduler's operations can reach (each an atomic step up
  to and including its publication), job names are distinct, the configured jobs are all there in their order, every entry of \<open>next_run_\<close> belongs to a scheduled
  job, the published status list names exactly the jobs, and each job added at run time has
  its definition in the database.\<close>

theorem scheduler_invariant:
  assumes "reachable lt cfg s" "distinct (map job_name cfg)" "\<forall>j \<in> set cfg. job_source j \<noteq> ''ui''"
  shows "distinct (map job_name (sc_jobs s)) \<and>
    filter (\<lambda>j. job_source j \<noteq> ''ui'') (sc_jobs s) = cfg \<and>
    (\<forall>n \<in> dom (sc_next_run s). \<exists>j \<in> set (sc_jobs s). job_name j = n \<and> job_schedule j \<noteq> None) \<and>
    map js_name (ss_jobs (sc_state s)) = map job_name (sc_jobs s) \<and>
    (\<forall>j \<in> set (sc_jobs s). job_source j = ''ui'' \<longrightarrow> def_from_job j \<in> set (db_job_defs (sc_db s)))"
proof -
  have ok: "sched_ok cfg s" by (rule reachable_ok [OF assms])
  then have inv: "sched_inv s" by (simp add: sched_ok_def)
  have "def_from_job j \<in> set (db_job_defs (sc_db s))" if "j \<in> set (sc_jobs s)" "job_source j = ''ui''" for j
    using sched_invD(6) [OF inv that] sched_invD(4) [OF inv] by (simp add: lookup_def_mem wf_job_defs_def)
  moreover have "\<exists>j \<in> set (sc_jobs s). job_name j = n \<and> job_schedule j \<noteq> None" if "n \<in> dom (sc_next_run s)" for n
    using subsetD [OF sched_invD(2) [OF inv] that] by (elim imageE) auto
  ultimately show ?thesis
    using sched_invD(1,3) [OF inv] ok by (simp add: sched_ok_def)
qed

text \<open>Fact: restarting the daemon loses no job and invents none. From any reachable state, a scheduler
  constructed again on the same configured jobs and on the database left behind (whose reads
  do not fail) has exactly the same jobs, with all their fields.\<close>

theorem restart_preserves_jobs:
  assumes "reachable lt cfg s" "distinct (map job_name cfg)" "\<forall>j \<in> set cfg. job_source j \<noteq> ''ui''"
    and "\<forall>n e. rcs n \<noteq> Read_prepare_error e"
  shows "\<exists>s'. new_Scheduler lt (Ret ()) Read_complete rcs now cfg (sc_db s) st = Ret s' \<and>
    set (sc_jobs s') = set (sc_jobs s) \<and> distinct (map job_name (sc_jobs s'))"
  using restart_ok [OF reachable_ok [OF assms(1-3)] assms(2-4)] .

subsection \<open>A concrete run\<close>

definition backup_job :: Job where
  "backup_job = default_Job\<lparr>job_name := ''backup'', job_command := ''make'', job_retries := 2\<rparr>"

definition config_job :: Job where
  "config_job = default_Job\<lparr>job_name := ''report'', job_command := ''make''\<rparr>"

definition fresh_state :: Scheduler where
  "fresh_state = publish_status \<lparr>sc_jobs = [config_job], sc_next_run = Map.empty, sc_running = Map.empty,
     sc_last_runs = Map.empty, sc_missed_handled = Map.empty, sc_queue = [], sc_last_wall = 0,
     sc_wake_pending = False, sc_active = False, sc_db = empty_Database, sc_state = init_SharedState\<rparr>"

definition added_state :: Scheduler where
  "added_state = fst (add_job utc_day 1000 (Write_done 1) backup_job fresh_state)"

lemma fresh_reachable: "reachable utc_day [config_job] fresh_state"
  by (rule reach_init [where opened = "Ret ()" and rcs = "\<lambda>_. Read_complete" and db = empty_Database])
     (simp_all add: new_Scheduler_def fresh_state_def load_job_defs_def fetch_def empty_Database_def
       config_job_def default_Job_def last_run_complete runs_of_def first_row_def newest_first_def)

lemma added_reachable: "reachable utc_day [config_job] added_state"
  unfolding added_state_def
  by (rule reach_step [OF fresh_reachable step_add])
     (simp add: ui_job_ok_def backup_job_def default_Job_def nul_free_def code_of_def)

lemma added_jobs: "sc_jobs added_state = [config_job, backup_job\<lparr>job_source := ''ui''\<rparr>]"
  by (simp add: added_state_def add_job_def fresh_state_def backup_job_def default_Job_def config_job_def
      find_job_def upsert_job_def_def write_stmt_def Let_def)

theorem scheduler_invariant_witness:
  "map js_name (ss_jobs (sc_state added_state)) = [''report'', ''backup''] \<and>
   def_from_job (backup_job\<lparr>job_source := ''ui''\<rparr>) \<in> set (db_job_defs (sc_db added_state))"
  using scheduler_invariant [OF added_reachable]
  by (simp add: added_jobs config_job_def backup_job_def default_Job_def)

theorem restart_preserves_jobs_witness:
  "\<exists>s'. new_Scheduler utc_day (Ret ()) Read_complete (\<lambda>_. Read_complete) 2000 [config_job]
      (sc_db added_state) init_SharedState = Ret s' \<and>
    set (sc_jobs s') = {config_job, backup_job\<lparr>job_source := ''ui''\<rparr>}"
  using restart_preserves_jobs [OF added_reachable, of "\<lambda>_. Read_complete" 2000 init_SharedState]
  by (auto simp: added_jobs config_job_def default_Job_def)

end
