(* ===== verification/Scheduler_Loop.thy ===== *)
theory Scheduler_Loop
  imports Scheduler_Invariant
begin

text \<open>
  What the scheduler does over time: which runs an iteration of the loop launches, how it
  moves the schedule on, when it brings the process down, which missed runs a scan recovers,
  and how a worker retries.
\<close>

section \<open>The schedule\<close>

lemma tick_running:
  assumes "tick lt env s = Ret (s', launches, ns)"
  shows "sc_running s' = (\<lambda>n. if n \<in> job_name ` fst ` set launches then Some \<lparr>rt_done = False\<rparr>
    else sc_running (before_launch lt env s) n)"
  using assms by (auto simp: tick_eq launch_all_eq cxx_simps sched_frame split: if_splits)

lemma tick_next_run:
  assumes "sched_inv s" "tick lt env s = Ret (s', launches, ns)" "0 \<le> te_wall env" "sc_next_run s' n = Some t"
  shows "te_wall env < t \<and>
    (sc_next_run s n = Some t \<or>
     (\<exists>j c t0. j \<in> set (sc_jobs s) \<and> job_name j = n \<and> job_schedule j = Some c \<and> sc_next_run s n = Some t0 \<and>
        t0 \<le> te_wall env \<and> next_after lt c (te_wall env) = Some t))"
proof -
  let ?b = "before_launch lt env s"
  have d: "distinct (map job_name (sc_jobs ?b))" using sched_invD(1) [OF assms(1)] by (simp add: sched_frame)
  have [simp]: "due (te_wall env) ?b = due (te_wall env) s" by (simp add: due_def sched_frame fun_eq_iff)
  have n: "sc_next_run s' n = (case find_job n (sc_jobs s) of
      Some j \<Rightarrow> if due (te_wall env) s j then next_after lt (the (job_schedule j)) (te_wall env) else sc_next_run s n
    | None \<Rightarrow> sc_next_run s n)"
    using tick_RetD(3) [OF assms(2)] collect_eq(3) [OF d, of lt "te_wall env" n]
    by (simp add: sched_frame split: option.split)
  show ?thesis
  proof (cases "find_job n (sc_jobs s)")
    case None
    then have "n \<in> dom (sc_next_run s)" using n assms(4) by (metis domI option.case(1))
    with sched_invD(2) [OF assms(1)] None show ?thesis by (auto simp: find_job_None)
  next
    case (Some j)
    note j = find_job_name [OF Some]
    show ?thesis
    proof (cases "due (te_wall env) s j")
      case True
      then obtain c t0 where c: "job_schedule j = Some c" "sc_next_run s n = Some t0" "t0 \<le> te_wall env"
        using j by (auto simp: due_def split: option.splits)
      then have "next_after lt c (te_wall env) = Some t" using n Some True assms(4) by simp
      with cron.nxt_Some [OF assms(3) this] j c show ?thesis by auto
    next
      case False
      then have t: "sc_next_run s n = Some t" using n Some assms(4) by simp
      then obtain k where "k \<in> set (sc_jobs s)" "job_name k = n" "job_schedule k \<noteq> None"
        using sched_invD(2) [OF assms(1)] by (auto simp: subset_iff)
      then have "k = j"
        using find_job_mem [OF sched_invD(1) [OF assms(1)], of k] Some by simp
      with False t \<open>job_schedule k \<noteq> None\<close> j show ?thesis by (auto simp: due_def)
    qed
  qed
qed

text \<open>C10: an iteration of the loop moves every schedule past the present. In a reachable state, after
  an iteration at a wall-clock time, every remaining entry of \<open>next_run_\<close> lies strictly in the
  future; it is the old one, or, for a job that was due, the first occurrence of its schedule
  after the present, so no occurrence fires twice and none in the future is skipped.\<close>

theorem tick_advances_schedule:
  assumes "reachable lt cfg s" "distinct (map job_name cfg)" "\<forall>j \<in> set cfg. job_source j \<noteq> ''ui''"
    and "tick lt env s = Ret (s', launches, ns)" "0 \<le> te_wall env" "sc_next_run s' n = Some t"
  shows "te_wall env < t \<and>
    (sc_next_run s n = Some t \<or>
     (\<exists>j c t0. j \<in> set (sc_jobs s) \<and> job_name j = n \<and> job_schedule j = Some c \<and>
        sc_next_run s n = Some t0 \<and> t0 \<le> te_wall env \<and> occurs lt c t \<and>
        (\<forall>u. occurs lt c u \<longrightarrow> te_wall env < u \<longrightarrow> t \<le> u)))"
proof -
  have inv: "sched_inv s" using reachable_ok [OF assms(1-3)] by (simp add: sched_ok_def)
  show ?thesis
    using tick_next_run [OF inv assms(4-6)] cron.nxt_Some [OF assms(5)] by blast
qed

text \<open>C9: an iteration that does not crash launches exactly the queued requests and then the due jobs
  that are not running at that moment, in order; a request whose job is still running stays
  queued, in order, and only requests for jobs that no longer exist are dropped.\<close>

theorem tick_launches_exactly:
  assumes "reachable lt cfg s" "distinct (map job_name cfg)" "\<forall>j \<in> set cfg. job_source j \<noteq> ''ui''"
    and "tick lt env s = Ret (s', launches, ns)"
  defines "b \<equiv> before_launch lt env s"
  shows "launches =
      map (\<lambda>(n, t). (the (find_job n (sc_jobs s)), t))
        (filter (\<lambda>(n, t). find_job n (sc_jobs s) \<noteq> None \<and> \<not> is_running b n) (sc_queue b)) @
      map (\<lambda>j. (j, ''schedule''))
        (filter (\<lambda>j. due (te_wall env) s j \<and> \<not> is_running b (job_name j)) (sc_jobs s)) \<and>
    sc_queue s' = filter (\<lambda>(n, t). find_job n (sc_jobs s) \<noteq> None \<and> is_running b n) (sc_queue b) \<and>
    (\<forall>l \<in> set launches. sc_running s' (job_name (fst l)) = Some \<lparr>rt_done = False\<rparr>) \<and>
    distinct (map (job_name \<circ> fst) launches)"
proof -
  have inv: "sched_inv s" using reachable_ok [OF assms(1-3)] by (simp add: sched_ok_def)
  have d: "distinct (map job_name (sc_jobs b))" using sched_invD(1) [OF inv] by (simp add: b_def sched_frame)
  have due: "due (te_wall env) b = due (te_wall env) s" by (simp add: b_def due_def sched_frame fun_eq_iff)
  note t = tick_RetD [OF assms(4), folded b_def]
  have run: "sc_running s' (job_name (fst l)) = Some \<lparr>rt_done = False\<rparr>" if "l \<in> set launches" for l
    using tick_running [OF assms(4)] imageI [OF imageI [OF that, of fst], of job_name] by simp
  have jobs: "sc_jobs b = sc_jobs s" by (simp add: b_def sched_frame)
  note eqs = t(1,4) [unfolded collect_eq(1,2) [OF d] collect_queue_eq due jobs fst_conv snd_conv]
  show ?thesis
    by (rule conjI [OF eqs(1) conjI [OF eqs(2) conjI [OF ballI t(7)]]]) (rule run)
qed

section \<open>Crashes\<close>

lemma scan_extends_queue: "\<exists>extra. sc_queue (fst (run_steps (scan_job lt now env) js s)) = sc_queue s @ extra"
proof (induction js arbitrary: s)
  case Nil
  then show ?case by simp
next
  case (Cons j js)
  from Cons.IH [of "fst (scan_job lt now env j s)"] show ?case by (auto simp: scan_job_queue(1))
qed

lemma check_wake_queue:
  "\<exists>extra. sc_queue (fst (check_wake lt wall now env s)) = sc_queue s @ extra"
  using scan_extends_queue [of lt now env "candidates (sc_jobs s)" "s\<lparr>sc_last_wall := wall\<rparr>"]
    scan_extends_queue [of lt now env "candidates (sc_jobs s)" "s\<lparr>sc_last_wall := wall, sc_wake_pending := False\<rparr>"]
  by (auto simp: check_wake_def scan_missed_def Let_def)

lemma before_launch_queue: "\<exists>extra. sc_queue (before_launch lt env s) = sc_queue s @ extra"
  using check_wake_queue [of lt "te_wall env" "te_scan_now env" "te_alerts env" "reap_finished s"]
  by (simp add: before_launch_def sched_frame)

text \<open>An iteration crashes exactly when it would launch a job twice or over a task not yet reaped.\<close>

lemma tick_Terminate_iff:
  "tick lt env s = Terminate \<longleftrightarrow>
    \<not> (let ls = snd (collect lt (te_wall env) (before_launch lt env s))
       in distinct (map (job_name \<circ> fst) ls) \<and>
          (\<forall>l \<in> set ls. sc_running (before_launch lt env s) (job_name (fst l)) = None))"
  by (simp add: tick_eq launch_all_eq sched_frame Let_def)

lemma queued_twice_not_distinct:
  assumes "find_job n (sc_jobs b) = Some j" "\<not> is_running b n" "sc_queue b = pre @ (n, t1) # mid @ (n, t2) # post"
  shows "\<not> distinct (map (job_name \<circ> fst) (snd (collect lt now b)))"
proof -
  have "job_name j = n" using find_job_name [OF assms(1)] by simp
  then show ?thesis
    using assms by (simp add: collect_def collect_queue_eq Let_def split_beta)
qed

text \<open>Fact: asking twice for the same idle job before the next iteration of the loop brings the daemon
  down. Whatever else is queued or due, the iteration launches the job twice; the second
  launch replaces a task whose thread is still joinable, and its destructor calls
  \<open>std::terminate\<close>.\<close>

theorem double_request_crashes:
  assumes "find_job n (sc_jobs s) = Some j" "sc_running s n = None"
  shows "tick lt env (fst (request_run n (fst (request_run n s)))) = Terminate"
proof -
  let ?s2 = "fst (request_run n (fst (request_run n s)))"
  let ?b = "before_launch lt env ?s2"
  have s2: "sc_queue ?s2 = sc_queue s @ [(n, ''manual''), (n, ''manual'')]" "sc_jobs ?s2 = sc_jobs s"
    "sc_running ?s2 = sc_running s"
    using assms(1) by (simp_all add: request_run_def enqueue_def)
  obtain extra where q: "sc_queue ?b = sc_queue s @ (n, ''manual'') # [] @ (n, ''manual'') # extra"
    using before_launch_queue [of lt env ?s2] s2(1) by auto
  have "\<not> is_running ?b n"
    using before_launch_idle [of ?s2 n lt env] s2(3) assms(2) by (simp add: is_running_def)
  moreover have "find_job n (sc_jobs ?b) = Some j" using assms(1) s2(2) by (simp add: sched_frame)
  ultimately show ?thesis
    using queued_twice_not_distinct [OF _ _ q] unfolding tick_Terminate_iff by (simp add: Let_def)
qed

text \<open>Fact: an iteration is safe when nothing collides: with distinct job names, no wake-up to handle,
  no request queued twice, no queued job due at the same time, and no worker ending during
  the iteration, the loop does not crash.\<close>

theorem tick_safe:
  assumes "distinct (map job_name (sc_jobs s))" "te_finished env = []"
    and "te_wall env - sc_last_wall s \<le> 90" "\<not> sc_wake_pending s"
    and "distinct (map fst (sc_queue s))"
    and "\<forall>j \<in> set (sc_jobs s). job_name j \<in> fst ` set (sc_queue s) \<longrightarrow> \<not> due (te_wall env) s j"
  shows "\<exists>s' launches ns. tick lt env s = Ret (s', launches, ns)"
proof -
  let ?b = "before_launch lt env s"
  have b: "sc_queue ?b = sc_queue s" "sc_running ?b = sc_running (reap_finished s)"
    using assms(2-4)
    by (simp_all add: before_launch_def check_wake_def kWakeGapSeconds_def sched_frame Let_def finish_tasks_def)
  have free: "sc_running ?b n = None" if "\<not> is_running ?b n" for n
    using that by (auto simp: b(2) is_running_def reap_finished_def split: option.splits if_splits)
  have due: "due (te_wall env) ?b = due (te_wall env) s" by (simp add: due_def sched_frame fun_eq_iff)
  let ?q = "filter (\<lambda>(n, t). find_job n (sc_jobs s) \<noteq> None \<and> \<not> is_running ?b n) (sc_queue s)"
  let ?d = "filter (\<lambda>j. due (te_wall env) s j \<and> \<not> is_running ?b (job_name j)) (sc_jobs s)"
  have ls: "snd (collect lt (te_wall env) ?b) =
      map (\<lambda>(n, t). (the (find_job n (sc_jobs s)), t)) ?q @ map (\<lambda>j. (j, ''schedule'')) ?d"
    using collect_eq(1) [of ?b lt "te_wall env"] assms(1) by (simp add: collect_queue_eq sched_frame b due)
  have "map ((job_name \<circ> fst) \<circ> (\<lambda>(n, t). (the (find_job n (sc_jobs s)), t))) ?q = map fst ?q"
    by (intro map_cong) (auto dest: find_job_name)
  then have names: "map (job_name \<circ> fst) (snd (collect lt (te_wall env) ?b)) = map fst ?q @ map job_name ?d"
    by (simp add: ls comp_assoc)
  have disj: "job_name j \<notin> fst ` set ?q" if "j \<in> set ?d" for j
    using that assms(6) by (fastforce simp: image_iff)
  have "distinct (map fst ?q)" "distinct (map job_name ?d)"
    using assms(1,5) by (simp_all add: distinct_map_filter)
  then have "distinct (map (job_name \<circ> fst) (snd (collect lt (te_wall env) ?b)))"
    unfolding names distinct_append set_map using disjoint_imageI [of "set ?d" job_name "fst ` set ?q", OF disj]
    by (intro conjI)
  moreover have "sc_running ?b (job_name (fst l)) = None" if "l \<in> set (snd (collect lt (te_wall env) ?b))" for l
    using that by (auto simp: ls intro!: free dest: find_job_name)
  ultimately show ?thesis by (simp add: tick_eq launch_all_eq sched_frame)
qed

section \<open>Missed runs\<close>

text \<open>C11: missed-run detection is exact. Comparing the latest occurrence with the last run reports a
  miss exactly when the schedule has an occurrence after the last run and up to now (for a
  last run within the search horizon of four years), and what it reports is the latest one.\<close>

theorem missed_run_exact:
  assumes "0 \<le> now" "now - 60 * kMaxMinutes \<le> last_ts"
  shows "(detect_missed_run lt c last_ts now \<noteq> None \<longleftrightarrow> (\<exists>u. occurs lt c u \<and> last_ts < u \<and> u \<le> now)) \<and>
    (\<forall>m. detect_missed_run lt c last_ts now = Some m \<longrightarrow>
       occurs lt c m \<and> last_ts < m \<and> m \<le> now \<and> (\<forall>u. occurs lt c u \<longrightarrow> u \<le> now \<longrightarrow> u \<le> m))"
proof -
  have iff: "detect_missed_run lt c last_ts now = Some m \<longleftrightarrow> prev_before lt c now = Some m \<and> last_ts < m" for m
    by (auto simp: detect_missed_run_def split: option.splits)
  then have "detect_missed_run lt c last_ts now \<noteq> None \<longleftrightarrow> (\<exists>m. prev_before lt c now = Some m \<and> last_ts < m)"
    by auto
  then show ?thesis
    using cron.skipped_iff [OF assms, of lt c] cron.prv_Some [OF assms(1), of lt c] iff by simp
qed

text \<open>When an iteration handles a wake-up, the runs its scan recovers join the queue before the
  requests are collected.\<close>

lemma woken_queue:
  assumes "distinct (map job_name (sc_jobs s))" "te_wall env - sc_last_wall s > kWakeGapSeconds \<or> sc_wake_pending s"
  shows "sc_queue (before_launch lt env s) = sc_queue s @
    map (\<lambda>j. (job_name j, ''missed''))
      (filter (\<lambda>j. missed_of lt (te_scan_now env) s j \<noteq> None) (candidates (sc_jobs s)))"
proof -
  have d: "distinct (map job_name (candidates (sc_jobs s)))"
    using assms(1) by (simp add: candidates_def distinct_map_filter)
  have m: "missed_of lt now (reap_finished s\<lparr>sc_last_wall := w\<rparr>) = missed_of lt now s"
    "missed_of lt now (reap_finished s\<lparr>sc_last_wall := w, sc_wake_pending := False\<rparr>) = missed_of lt now s" for now w
    by (simp_all add: missed_of_def reap_finished_def fun_eq_iff cong: option.case_cong)
  show ?thesis
    using assms(2) scan_queue [OF d]
    by (auto simp: before_launch_def check_wake_def scan_missed_def sched_frame Let_def finish_tasks_def m)
qed

lemma queued_and_due_not_distinct:
  assumes "distinct (map job_name (sc_jobs b))" "j \<in> set (sc_jobs b)" "due now b j" "\<not> is_running b (job_name j)"
    "(job_name j, t) \<in> set (sc_queue b)"
  shows "\<not> distinct (map (job_name \<circ> fst) (snd (collect lt now b)))"
proof -
  have "find_job (job_name j) (sc_jobs b) = Some j" using assms(1,2) by (rule find_job_mem)
  then have "(j, t) \<in> set (fst (collect_queue b (sc_queue b)))"
    using assms(4,5) by (force simp: collect_queue_eq)
  then have "job_name j \<in> set (map (job_name \<circ> fst) (fst (collect_queue b (sc_queue b))))" by force
  moreover have "job_name j \<in> set (map (job_name \<circ> fst) (map (\<lambda>j. (j, ''schedule''))
      (filter (\<lambda>j. due now b j \<and> \<not> is_running b (job_name j)) (sc_jobs b))))"
    using assms(2-4) by force
  ultimately show ?thesis unfolding collect_eq(1) [OF assms(1)] map_append distinct_append by blast
qed

text \<open>C14: waking up after having slept through a run brings the daemon down. An iteration that
  handles a wake-up (more than 90 seconds since the last one, or a wake-up message pending) finds an
  idle job with a missed-run policy whose scheduled time has passed: the scan queues it as missed,
  the schedule still has it due, so the iteration launches it twice, and the second launch destroys
  a joinable thread.\<close>

theorem wake_after_missed_run_crashes:
  assumes "distinct (map job_name (sc_jobs s))" "j \<in> set (sc_jobs s)"
    and "job_schedule j = Some c" "job_missed_run_policy j \<noteq> PolicyNone" "sc_running s (job_name j) = None"
    and "sc_next_run s (job_name j) = Some t" "occurs lt c t" "0 \<le> t" "t \<le> te_wall env"
    and "te_wall env \<le> te_scan_now env" "te_scan_now env - 60 * kMaxMinutes < t"
    and "\<forall>r. sc_last_runs s (job_name j) = Some r \<longrightarrow> run_started_at r < t" "0 < t"
    and "\<forall>h. sc_missed_handled s (job_name j) = Some h \<longrightarrow> h < t"
    and "te_wall env - sc_last_wall s > kWakeGapSeconds \<or> sc_wake_pending s"
  shows "tick lt env s = Terminate"
proof -
  let ?b = "before_launch lt env s" and ?now = "te_scan_now env"
  have now: "0 \<le> ?now" "t \<le> ?now" using assms(8-10) by simp_all
  obtain m where m: "prev_before lt c ?now = Some m" "t \<le> m"
    using cron.prv_None [OF now(1) _ assms(7) now(2)] cron.prv_Some [OF now(1), of lt c] assms(7,11) now(2)
    by (cases "prev_before lt c ?now") force+
  have "missed_of lt ?now s j = Some m"
    using assms(3,12,13,14) m by (auto simp: missed_of_def detect_missed_run_def split: option.splits)
  then have q: "(job_name j, ''missed'') \<in> set (sc_queue ?b)"
    using assms(2,3,4) by (auto simp: woken_queue [OF assms(1,15)] candidates_def)
  have "due (te_wall env) ?b j" using assms(3,6,9) by (simp add: due_def sched_frame)
  moreover have "\<not> is_running ?b (job_name j)"
    using before_launch_idle [OF assms(5)] by (simp add: is_running_def)
  ultimately have "\<not> distinct (map (job_name \<circ> fst) (snd (collect lt (te_wall env) ?b)))"
    using assms(1,2) q by (intro queued_and_due_not_distinct) (simp_all add: sched_frame)
  then show ?thesis unfolding tick_Terminate_iff by (simp add: Let_def)
qed


section \<open>Workers\<close>

lemma worker_attempts_spec:
  assumes "worker_attempts job trigger N k tries res s = Some (s', res')"
  shows "\<exists>rs. length rs \<le> length tries \<and> (\<forall>e \<in> set (take (length rs) tries). at_active e) \<and>
    (\<forall>i < length rs. \<exists>effs. run_command (at_run (tries ! i)) (job_command job) (job_timeout_seconds job) =
      Some (rs ! i, effs)) \<and>
    (\<forall>i. Suc i < length rs \<longrightarrow> rr_status (rs ! i) \<noteq> Success) \<and>
    res' = (if rs = [] then res else last rs) \<and>
    s' = fold (\<lambda>(e, r). record_attempt (at_rc e) job trigger r) (zip tries rs) s \<and>
    int (length rs) \<le> max 0 (N - k + 1) \<and>
    (int (length rs) = max 0 (N - k + 1) \<or> (rs \<noteq> [] \<and> rr_status (last rs) = Success) \<or>
     (length rs < length tries \<and> \<not> at_active (tries ! length rs)))"
  using assms
proof (induction job trigger N k tries res s arbitrary: s' res' rule: worker_attempts.induct)
  case (1 job trigger N k res s)
  then show ?case by (intro exI [of _ "[]"]) (auto split: if_splits)
next
  case (2 job trigger N k e es res s)
  show ?case
  proof (cases "k \<le> N \<and> at_active e")
    case False
    then show ?thesis using "2.prems" by (intro exI [of _ "[]"]) auto
  next
    case True
    then obtain r effs where r: "run_command (at_run e) (job_command job) (job_timeout_seconds job) = Some (r, effs)"
      using "2.prems" by (auto split: option.splits)
    let ?s1 = "record_attempt (at_rc e) job trigger r s"
    show ?thesis
    proof (cases "rr_status r = Success")
      case success: True
      then show ?thesis
        using "2.prems" True r by (intro exI [of _ "[r]"]) auto
    next
      case fail: False
      then have run: "worker_attempts job trigger N (k + 1) es r ?s1 = Some (s', res')"
        using "2.prems" True r by simp
      from "2.IH" [OF True r refl refl fail run] obtain rs where rs:
        "length rs \<le> length es" "\<forall>e \<in> set (take (length rs) es). at_active e"
        "\<forall>i < length rs. \<exists>effs. run_command (at_run (es ! i)) (job_command job) (job_timeout_seconds job) =
          Some (rs ! i, effs)"
        "\<forall>i. Suc i < length rs \<longrightarrow> rr_status (rs ! i) \<noteq> Success" "res' = (if rs = [] then r else last rs)"
        "s' = fold (\<lambda>(e, r). record_attempt (at_rc e) job trigger r) (zip es rs) ?s1"
        "int (length rs) \<le> max 0 (N - (k + 1) + 1)"
        "int (length rs) = max 0 (N - (k + 1) + 1) \<or> (rs \<noteq> [] \<and> rr_status (last rs) = Success) \<or>
          (length rs < length es \<and> \<not> at_active (es ! length rs))"
        by blast
      show ?thesis
        using rs True r fail
        by (intro exI [of _ "r # rs"]) (auto simp: nth_Cons All_less_Suc2 split: nat.splits)
    qed
  qed
qed

lemma worker_attempts_returns:
  assumes "N - k + 1 \<le> int (length tries)"
    "\<forall>e \<in> set tries. run_command (at_run e) (job_command job) (job_timeout_seconds job) \<noteq> None"
  shows "\<exists>r. worker_attempts job trigger N k tries res s = Some r"
  using assms
proof (induction job trigger N k tries res s rule: worker_attempts.induct)
  case (1 job trigger N k res s)
  then show ?case by simp
next
  case (2 job trigger N k e es res s)
  then show ?case by (auto simp: Let_def)
qed

lemma fold_record_last:
  assumes "length rs \<le> length tries" "rs \<noteq> []"
  shows "sc_last_runs (fold (\<lambda>(e, r). record_attempt (at_rc e) job trigger r) (zip tries rs) s) (job_name job) =
    Some (run_record job trigger (last rs))"
  using assms
proof (induction rs arbitrary: tries s)
  case Nil
  then show ?case by simp
next
  case (Cons r rs)
  then obtain e es where "tries = e # es" by (cases tries) auto
  with Cons show ?case by (cases "rs = []") (simp_all add: record_attempt_def Let_def)
qed

lemma worker_post:
  assumes "worker tries active env job trigger s = Ret (Some (s', ns))"
    "worker_attempts job trigger (job_retries job + 1) 1 tries default_RunResult s = Some (s1, res)"
  shows "length ns = (if active \<and> rr_status res \<noteq> Success then 1 else 0)" "sc_last_runs s' = sc_last_runs s1"
proof -
  define p where "p = (if active \<and> rr_status res \<noteq> Success
    then emit_alert env (job_name job) ''serious'' (failure_message res (job_retries job + 1))
      (stderr_detail (rr_stderr_text res)) (Fin (real_of_int (rr_exit_code res))) s1
    else (s1, []))"
  have "s' = mark_done (job_name job) (fst p)" "ns = snd p"
    using assms by (auto simp: worker_def Let_def split_beta p_def split: if_split_asm)
  then show "length ns = (if active \<and> rr_status res \<noteq> Success then 1 else 0)" "sc_last_runs s' = sc_last_runs s1"
    by (simp_all add: p_def mark_done_def sched_frame)
qed


text \<open>Fact: a worker ends: with a number of retries that is not negative and below the largest \<open>int\<close>,
  it returns as soon as the system has answered each of its \<open>retries + 1\<close> attempts.\<close>

theorem worker_returns:
  assumes "0 \<le> job_retries job" "job_retries job < INT_MAX" "job_retries job + 1 \<le> int (length tries)"
    "\<forall>e \<in> set tries. run_command (at_run e) (job_command job) (job_timeout_seconds job) \<noteq> None"
  shows "\<exists>s' ns. worker tries active env job trigger s = Ret (Some (s', ns))"
proof -
  obtain r where "worker_attempts job trigger (job_retries job + 1) 1 tries default_RunResult s = Some r"
    using worker_attempts_returns [of "job_retries job + 1" 1 tries job] assms(3,4) by fastforce
  then show ?thesis using assms(2) by (cases r) (simp add: worker_def Let_def split_beta)
qed

text \<open>Fact: a job with a negative number of retries, which \<open>add_job\<close> accepts, never runs: its worker
  spawns nothing and records nothing, yet it reports that the run failed to spawn.\<close>

theorem negative_retries_never_run:
  assumes "job_retries job < 0"
  shows "\<exists>s'. worker tries True env job trigger s =
      Ret (Some (s', [(''AgentPulse: '' @ job_name job,
        ''run spawn_error (exit -1, after '' @ to_string (job_retries job + 1) @ '' attempts)'')])) \<and>
    db_runs (sc_db s') = db_runs (sc_db s) \<and> sc_last_runs s' = sc_last_runs s"
proof -
  have "worker_attempts job trigger (job_retries job + 1) 1 tries default_RunResult s = Some (s, default_RunResult)"
    using assms by (cases tries) simp_all
  moreover have "db_runs (fst (insert_alert rc a db)) = db_runs db" for rc a db
    by (simp add: insert_alert_def write_stmt_def split: write_rc.split)
  moreover have "to_string (-1) = ''-1''" by (code_simp)
  ultimately show ?thesis
    using assms
    by (simp add: worker_def INT_MAX_def emit_alert_def mark_done_def finish_tasks_def default_RunResult_def
        failure_message_def stderr_detail_def Let_def)
qed

section \<open>Concrete inputs\<close>

lemma every_quarter_first: "next_after utc_day every_quarter 0 = Some 900"
  by (simp add: next_after_def scan_minutes.simps every_quarter_matches kMaxMinutes_def
      signed_modulo_int_def signed_divide_int_def)

definition quarter_job :: Job where
  "quarter_job = default_Job\<lparr>job_name := ''q'', job_command := ''make'', job_schedule := Some every_quarter,
     job_missed_run_policy := RunNow\<rparr>"

definition quarter_state :: Scheduler where
  "quarter_state = publish_status \<lparr>sc_jobs = [quarter_job], sc_next_run = [''q'' \<mapsto> 900], sc_running = Map.empty,
     sc_last_runs = Map.empty, sc_missed_handled = Map.empty, sc_queue = [], sc_last_wall = 0,
     sc_wake_pending = False, sc_active = False, sc_db = empty_Database, sc_state = init_SharedState\<rparr>"

lemma quarter_reachable: "reachable utc_day [quarter_job] quarter_state"
  by (rule reach_init [where opened = "Ret ()" and rcs = "\<lambda>_. Read_complete" and db = empty_Database and now = 0])
     (simp_all add: new_Scheduler_def quarter_state_def load_job_defs_def fetch_def empty_Database_def
       quarter_job_def default_Job_def last_run_complete runs_of_def first_row_def newest_first_def
       every_quarter_first)

definition quiet_env :: "int \<Rightarrow> tick_env" where
  "quiet_env t = \<lparr>te_wall = t, te_scan_now = t, te_alerts = (\<lambda>_. (t, Write_done 1)), te_finished = []\<rparr>"

lemma quarter_fields [simp]:
  "sc_jobs quarter_state = [quarter_job]" "sc_next_run quarter_state = [''q'' \<mapsto> 900]"
  "sc_running quarter_state = Map.empty" "sc_queue quarter_state = []" "sc_last_wall quarter_state = 0"
  "sc_wake_pending quarter_state = False" "sc_last_runs quarter_state = Map.empty"
  "sc_missed_handled quarter_state = Map.empty"
  by (simp_all add: quarter_state_def publish_status_def)

lemma quarter_job_fields [simp]:
  "job_name quarter_job = ''q''" "job_schedule quarter_job = Some every_quarter"
  "job_source quarter_job = ''config''" "job_missed_run_policy quarter_job = RunNow"
  "job_retries quarter_job = 0"
  by (simp_all add: quarter_job_def default_Job_def)

lemma quarter_tick:
  "\<exists>s' ns. tick utc_day (quiet_env 80) quarter_state = Ret (s', [], ns) \<and> sc_next_run s' ''q'' = Some 900"
  by (simp add: tick_eq before_launch_def check_wake_def kWakeGapSeconds_def quiet_env_def collect_eq
      collect_queue_eq launch_all_eq due_def sched_frame finish_tasks_def find_job_def Let_def)

theorem tick_advances_schedule_witness:
  "\<exists>s' ns t. tick utc_day (quiet_env 80) quarter_state = Ret (s', [], ns) \<and> sc_next_run s' ''q'' = Some t \<and> 80 < t"
proof -
  obtain s' ns where t: "tick utc_day (quiet_env 80) quarter_state = Ret (s', [], ns)" "sc_next_run s' ''q'' = Some 900"
    using quarter_tick by blast
  from tick_advances_schedule [OF quarter_reachable _ _ this(1), of "''q''" 900] t show ?thesis
    by (auto simp: quiet_env_def)
qed

theorem tick_launches_exactly_witness:
  "\<exists>s' ns. tick utc_day (quiet_env 80) quarter_state = Ret (s', [], ns) \<and> sc_queue s' = []"
proof -
  obtain s' ns where t: "tick utc_day (quiet_env 80) quarter_state = Ret (s', [], ns)" using quarter_tick by blast
  from tick_launches_exactly [OF quarter_reachable _ _ this] show ?thesis
    using t by (auto simp: before_launch_def check_wake_def kWakeGapSeconds_def quiet_env_def sched_frame Let_def)
qed

theorem double_request_crashes_witness:
  "tick utc_day (quiet_env 5) (fst (request_run ''q'' (fst (request_run ''q'' quarter_state)))) = Terminate"
  by (rule double_request_crashes [of "''q''" quarter_state quarter_job]) (simp_all add: find_job_def)

theorem wake_after_missed_run_crashes_witness:
  "reachable utc_day [quarter_job] quarter_state \<and> tick utc_day (quiet_env 1000) quarter_state = Terminate"
proof (rule conjI [OF quarter_reachable
      wake_after_missed_run_crashes [where j = quarter_job and c = every_quarter and t = 900]])
  show "occurs utc_day every_quarter 900"
    using cron.nxt_Some [OF _ every_quarter_first] by simp
qed (simp_all add: quiet_env_def kWakeGapSeconds_def kMaxMinutes_def)

theorem tick_safe_witness:
  "\<exists>s' launches ns. tick utc_day (quiet_env 80) (fst (request_run ''q'' quarter_state)) = Ret (s', launches, ns)"
  by (rule tick_safe) (simp_all add: request_run_def find_job_def enqueue_def quiet_env_def due_def)

theorem missed_run_exact_witness:
  "detect_missed_run utc_day every_quarter 100 1000 = Some 900 \<and> occurs utc_day every_quarter 900"
  using missed_run_exact [of 1000 100 utc_day every_quarter]
  by (simp add: detect_missed_run_def every_quarter_prev kMaxMinutes_def)


definition one_try :: attempt_env where
  "one_try = \<lparr>at_active = True, at_run = sample_env [hello_poll, eof_poll 9], at_rc = Write_done 1\<rparr>"

theorem worker_returns_witness:
  "\<exists>s' ns. worker [one_try] True (5, Write_done 1) quarter_job ''manual'' quarter_state = Ret (Some (s', ns))"
  by (rule worker_returns) (simp_all add: quarter_job_def default_Job_def INT_MAX_def one_try_def sample_run_defs)


theorem negative_retries_never_run_witness:
  "\<exists>s'. worker [one_try] True (5, Write_done 1) (quarter_job\<lparr>job_retries := - 1\<rparr>) ''manual'' quarter_state =
      Ret (Some (s', [(''AgentPulse: q'', ''run spawn_error (exit -1, after 0 attempts)'')]))"
proof -
  have "to_string 0 = ''0''" by (code_simp)
  then show ?thesis
    using negative_retries_never_run [of "quarter_job\<lparr>job_retries := - 1\<rparr>" "[one_try]" "(5, Write_done 1)"
      "''manual''" quarter_state]
    by auto
qed

end
