(* ===== verification/Json.thy ===== *)
theory Json
  imports Prelude
begin

text \<open>
  JSON values as the daemon builds and reads them, and what it uses of the JSON library: the
  parser, the serialiser and two numeric conversions are the record \<open>json_lib\<close>. The documentation
  of the serialiser says that it throws exactly when a string inside the value is not UTF-8; that
  is the hypothesis \<open>dump_documented\<close>.
\<close>

section \<open>Values\<close>

datatype json =
    JNull
  | JBool bool
  | JInt int
  | JDouble double
  | JString string
  | JArray "json list"
  | JObject "(string \<times> json) list"

fun is_object :: "json \<Rightarrow> bool" where
  "is_object (JObject ms) = True"
| "is_object _ = False"

fun is_string :: "json \<Rightarrow> bool" where
  "is_string (JString s) = True"
| "is_string _ = False"

fun is_number :: "json \<Rightarrow> bool" where
  "is_number (JInt n) = True"
| "is_number (JDouble d) = True"
| "is_number _ = False"

fun get_string :: "json \<Rightarrow> string" where
  "get_string (JString s) = s"
| "get_string _ = []"

text \<open>\<open>contains(key)\<close> and \<open>operator[](key)\<close>, as one look-up.\<close>

fun member :: "string \<Rightarrow> json \<Rightarrow> json option" where
  "member k (JObject ms) = map_of ms k"
| "member k _ = None"

record json_lib =
  jl_parse :: "string \<Rightarrow> json option"
  jl_dump :: "json \<Rightarrow> string cxx"
  jl_int :: "json \<Rightarrow> int"
  jl_long :: "json \<Rightarrow> int"

section \<open>UTF-8\<close>

definition continuation :: "nat \<Rightarrow> bool" where
  "continuation b \<longleftrightarrow> 128 \<le> b \<and> b \<le> 191"

text \<open>Well-formed byte sequences: shortest forms only, no surrogates, nothing above 10FFFF.\<close>

fun utf8_bytes :: "nat list \<Rightarrow> bool" where
  "utf8_bytes [] = True"
| "utf8_bytes (a # bs) =
     (if a < 128 then utf8_bytes bs
      else if 194 \<le> a \<and> a \<le> 223
      then (case bs of b # r \<Rightarrow> continuation b \<and> utf8_bytes r | _ \<Rightarrow> False)
      else if 224 \<le> a \<and> a \<le> 239
      then (case bs of
              b # c # r \<Rightarrow> (if a = 224 then 160 else 128) \<le> b \<and> b \<le> (if a = 237 then 159 else 191) \<and>
                continuation c \<and> utf8_bytes r
            | _ \<Rightarrow> False)
      else if 240 \<le> a \<and> a \<le> 244
      then (case bs of
              b # c # d # r \<Rightarrow> (if a = 240 then 144 else 128) \<le> b \<and> b \<le> (if a = 244 then 143 else 191) \<and>
                continuation c \<and> continuation d \<and> utf8_bytes r
            | _ \<Rightarrow> False)
      else False)"

definition utf8 :: "string \<Rightarrow> bool" where
  "utf8 s = utf8_bytes (map code_of s)"

lemma utf8_bytes_append: "utf8_bytes xs \<Longrightarrow> utf8_bytes ys \<Longrightarrow> utf8_bytes (xs @ ys)"
  by (induction xs rule: utf8_bytes.induct) (auto split: if_splits list.splits)

lemma utf8_Nil [simp]: "utf8 []"
  by (simp add: utf8_def)

lemma utf8_Cons_ascii [simp]: "of_char c < (128 :: nat) \<Longrightarrow> utf8 (c # s) = utf8 s"
  by (simp add: utf8_def code_of_def)

lemma utf8_append [intro]: "utf8 s \<Longrightarrow> utf8 t \<Longrightarrow> utf8 (s @ t)"
  by (simp add: utf8_def utf8_bytes_append)

lemma utf8_ascii: "\<forall>c \<in> set s. code_of c < 128 \<Longrightarrow> utf8 s"
  by (induction s) (simp_all add: utf8_def)

fun json_utf8 :: "json \<Rightarrow> bool" where
  "json_utf8 (JString s) = utf8 s"
| "json_utf8 (JArray xs) = (\<forall>x \<in> set xs. json_utf8 x)"
| "json_utf8 (JObject ms) = (\<forall>m \<in> set ms. utf8 (fst m) \<and> json_utf8 (snd m))"
| "json_utf8 _ = True"

definition dump_documented :: "json_lib \<Rightarrow> bool" where
  "dump_documented lib \<longleftrightarrow>
     (\<forall>a. if json_utf8 a then \<exists>t. jl_dump lib a = Ret t else \<exists>e. jl_dump lib a = Throw e)"

lemma dump_documentedD:
  assumes "dump_documented lib"
  shows "json_utf8 a \<Longrightarrow> \<exists>t. jl_dump lib a = Ret t" "\<not> json_utf8 a \<Longrightarrow> \<exists>e. jl_dump lib a = Throw e"
  using assms by (auto simp: dump_documented_def)

end
