(* ===== verification/Api.thy ===== *)
theory Api
  imports Json Config Shared_State Database
begin

text \<open>
  The request API of \<open>daemon/src/ipc/api.hpp\<close> and \<open>api.cpp\<close>: a request line is decoded, dispatched on
  its command, and answered with one JSON object. The record \<open>Api\<close> holds the members of the class and is generic in the state of
  the rest of the daemon, which the three call-backs act on. What the call-backs promise is the
  locale \<open>job_control\<close>.
\<close>

section \<open>Data\<close>

record Request =
  rq_cmd :: string
  rq_arg :: string
  rq_arg2 :: string

text \<open>The members of \<open>Api\<close>. \<open>'s\<close> is the state of the daemon the references and the handlers reach.\<close>

record 's Api =
  api_state :: "'s \<Rightarrow> SharedState"
  api_started_at :: int
  api_run_handler :: "(string \<Rightarrow> 's \<Rightarrow> 's \<times> bool) option"
  api_add_job_handler :: "(Job \<Rightarrow> 's \<Rightarrow> 's \<times> string) option"
  api_remove_job_handler :: "(string \<Rightarrow> 's \<Rightarrow> 's \<times> string) option"
  api_db :: "('s \<Rightarrow> Database) option"

text \<open>What the world answers during one request: the time, how a read ends, the order of ties.\<close>

record request_env =
  re_now :: int
  re_read :: read_rc
  re_by_ts :: "metric_row list \<Rightarrow> metric_row list"

section \<open>Construction\<close>

text \<open>\<open>opened\<close> is the outcome of the constructor of \<open>Database\<close>, and \<open>db\<close> reads the rows of the file.\<close>

definition new_Api :: "('s \<Rightarrow> SharedState) \<Rightarrow> int \<Rightarrow> string \<Rightarrow> unit cxx \<Rightarrow> ('s \<Rightarrow> Database) \<Rightarrow> 's Api" where
  "new_Api state started_at db_path opened db =
     \<lparr>api_state = state, api_started_at = started_at, api_run_handler = None, api_add_job_handler = None,
      api_remove_job_handler = None,
      api_db = (if db_path = [] then None else case opened of Ret _ \<Rightarrow> Some db | _ \<Rightarrow> None)\<rparr>"

definition set_run_handler :: "(string \<Rightarrow> 's \<Rightarrow> 's \<times> bool) \<Rightarrow> 's Api \<Rightarrow> 's Api" where
  "set_run_handler h api = api\<lparr>api_run_handler := Some h\<rparr>"

definition set_add_job_handler :: "(Job \<Rightarrow> 's \<Rightarrow> 's \<times> string) \<Rightarrow> 's Api \<Rightarrow> 's Api" where
  "set_add_job_handler h api = api\<lparr>api_add_job_handler := Some h\<rparr>"

definition set_remove_job_handler :: "(string \<Rightarrow> 's \<Rightarrow> 's \<times> string) \<Rightarrow> 's Api \<Rightarrow> 's Api" where
  "set_remove_job_handler h api = api\<lparr>api_remove_job_handler := Some h\<rparr>"

section \<open>Requests\<close>

definition parse_request :: "json_lib \<Rightarrow> string \<Rightarrow> Request" where
  "parse_request lib line =
     (let parsed = jl_parse lib line;
          field = (\<lambda>k ok. case parsed of
                     None \<Rightarrow> None
                   | Some j \<Rightarrow> (case member k j of None \<Rightarrow> None | Some v \<Rightarrow> if ok v then Some v else None))
      in case field ''cmd'' is_string of
           Some c \<Rightarrow>
             \<lparr>rq_cmd = get_string c,
              rq_arg = (case field ''metric'' is_string of
                          Some v \<Rightarrow> get_string v
                        | None \<Rightarrow> (case field ''job'' is_string of Some v \<Rightarrow> get_string v | None \<Rightarrow> [])),
              rq_arg2 = (case field ''limit'' is_number of
                           Some v \<Rightarrow> to_string (jl_long lib v)
                         | None \<Rightarrow> (case field ''seconds'' is_number of
                                      Some v \<Rightarrow> to_string (jl_long lib v)
                                    | None \<Rightarrow> []))\<rparr>
         | None \<Rightarrow>
             (let ts = ws_tokens line; token = (\<lambda>i. if i < length ts then ts ! i else [])
              in \<lparr>rq_cmd = token 0, rq_arg = token 1, rq_arg2 = token 2\<rparr>))"

section \<open>Answers\<close>

definition job_to_json :: "JobStatus \<Rightarrow> json" where
  "job_to_json s = JObject
     [(''name'', JString (js_name s)), (''schedule'', JString (js_schedule_expr s)),
      (''source'', JString (js_source s)), (''next_run'', JInt (js_next_run s)),
      (''running'', JBool (js_running s)),
      (''last_run'',
        if js_has_last_run s
        then JObject [(''status'', JString (js_last_status s)), (''started_at'', JInt (js_last_started_at s)),
                      (''exit_code'', JInt (js_last_exit_code s)),
                      (''duration_ms'', JInt (js_last_duration_ms s)),
                      (''trigger'', JString (js_last_trigger s))]
        else JNull)]"

definition jobs_array :: "SharedState \<Rightarrow> json" where
  "jobs_array st = JArray (map job_to_json (ss_jobs st))"

definition proc_to_json :: "ProcInfo \<Rightarrow> json" where
  "proc_to_json p = JObject [(''pid'', JInt (pi_pid p)), (''name'', JString (pi_name p)),
     (''cpu_percent'', JDouble (pi_cpu_percent p)), (''rss_bytes'', JInt (int (pi_rss_bytes p)))]"

definition system_to_json :: "SystemSnapshot \<Rightarrow> json" where
  "system_to_json s = JObject
     [(''valid'', JBool (sys_valid s)), (''sampled_at'', JInt (sys_sampled_at s)),
      (''memory'', JObject [(''total_bytes'', JInt (int (sys_mem_total_bytes s))),
                            (''used_bytes'', JInt (int (sys_mem_used_bytes s))),
                            (''used_percent'', JDouble (sys_mem_used_percent s))]),
      (''disk'', JObject [(''total_bytes'', JInt (int (sys_disk_total_bytes s))),
                          (''available_bytes'', JInt (int (sys_disk_available_bytes s))),
                          (''used_percent'', JDouble (sys_disk_used_percent s))]),
      (''thermal_state'', JString (sys_thermal_state s)),
      (''top_processes'', JArray (map proc_to_json (sys_top_processes s)))]"

definition alert_to_json :: "AlertInfo \<Rightarrow> json" where
  "alert_to_json a = JObject
     [(''ts'', JInt (ai_ts a)), (''rule'', JString (ai_rule_name a)), (''severity'', JString (ai_severity a)),
      (''metric'', JString (ai_metric a)), (''kind'', JString (ai_kind a)), (''value'', JDouble (ai_value a)),
      (''threshold'', JDouble (ai_threshold a)), (''message'', JString (ai_message a)),
      (''attribution'', JString (ai_attribution a)), (''notified'', JBool (ai_notify a))]"

definition alerts_array :: "SharedState \<Rightarrow> json" where
  "alerts_array st = JArray (map alert_to_json (ss_alerts st))"

definition error_reply :: "string \<Rightarrow> json" where
  "error_reply msg = JObject [(''ok'', JBool False), (''error'', JString msg)]"

section \<open>The commands\<close>

definition status_reply :: "int \<Rightarrow> SharedState \<Rightarrow> json" where
  "status_reply started_at st = JObject
     [(''ok'', JBool True), (''cmd'', JString ''status''),
      (''daemon'', JObject [(''started_at'', JInt started_at),
                            (''rss_bytes'', JInt (int (self_rss_bytes (ss_self st)))),
                            (''cpu_percent'', JDouble (self_cpu_percent (ss_self st)))]),
      (''cpu'', JObject [(''valid'', JBool (cpu_valid (ss_cpu st))),
                         (''percent'', JDouble (cpu_percent (ss_cpu st))),
                         (''sampled_at'', JInt (cpu_sampled_at (ss_cpu st)))]),
      (''system'', system_to_json (ss_system st)), (''jobs'', jobs_array st), (''alerts'', alerts_array st)]"

text \<open>A read of the database inside \<open>try ... catch (const DbError&)\<close>.\<close>

definition catch_reply :: "'a cxx \<Rightarrow> ('a \<Rightarrow> json) \<Rightarrow> json cxx" where
  "catch_reply r f = (case r of
       Ret x \<Rightarrow> Ret (f x) | Throw e \<Rightarrow> Ret (error_reply e) | Undefined \<Rightarrow> Undefined | Terminate \<Rightarrow> Terminate)"

definition history_window :: "string \<Rightarrow> int" where
  "history_window arg2 =
     (let window = (if arg2 = [] then 3600 else strtol arg2) in if window \<le> 0 then 3600 else window)"

definition history_reply :: "request_env \<Rightarrow> Request \<Rightarrow> Database option \<Rightarrow> json cxx" where
  "history_reply env req db =
     (case db of
        None \<Rightarrow> Ret (error_reply ''history unavailable'')
      | Some d \<Rightarrow>
          if rq_arg req = [] then Ret (error_reply ''missing metric'')
          else catch_reply
                 (metric_history (re_by_ts env) (re_read env) (rq_arg req)
                    (re_now env - history_window (rq_arg2 req)) d)
                 (\<lambda>points. JObject [(''ok'', JBool True), (''cmd'', JString ''history''),
                    (''metric'', JString (rq_arg req)),
                    (''points'', JArray (map (\<lambda>(ts, v). JObject [(''t'', JInt ts), (''v'', JDouble v)]) points))]))"

definition runs_limit :: "string \<Rightarrow> int" where
  "runs_limit arg2 =
     (let lim' = (if arg2 = [] then 20 else to_int32 (strtol arg2)) in if lim' \<le> 0 then 20 else lim')"

definition run_to_json :: "RunRecord \<Rightarrow> json" where
  "run_to_json r = JObject
     [(''started_at'', JInt (run_started_at r)), (''ended_at'', JInt (run_ended_at r)),
      (''status'', JString (run_status r)), (''exit_code'', JInt (run_exit_code r)),
      (''duration_ms'', JInt (run_duration_ms r)), (''trigger'', JString (run_trigger r))]"

definition runs_reply :: "request_env \<Rightarrow> Request \<Rightarrow> Database option \<Rightarrow> json cxx" where
  "runs_reply env req db =
     (case db of
        None \<Rightarrow> Ret (error_reply ''runs unavailable'')
      | Some d \<Rightarrow>
          if rq_arg req = [] then Ret (error_reply ''missing job name'')
          else catch_reply (recent_runs (re_read env) (rq_arg req) (runs_limit (rq_arg2 req)) d)
                 (\<lambda>rows. JObject [(''ok'', JBool True), (''cmd'', JString ''runs''),
                    (''job'', JString (rq_arg req)), (''runs'', JArray (map run_to_json rows))]))"

text \<open>The lambdas \<open>str\<close> and \<open>num\<close>, and the job an \<open>add_job\<close> body describes, before its schedule is parsed.\<close>

definition body_str :: "json \<Rightarrow> string \<Rightarrow> string" where
  "body_str body k = (case member k body of Some v \<Rightarrow> if is_string v then get_string v else [] | None \<Rightarrow> [])"

definition body_num :: "json_lib \<Rightarrow> json \<Rightarrow> string \<Rightarrow> int" where
  "body_num lib body k = (case member k body of Some v \<Rightarrow> if is_number v then jl_int lib v else 0 | None \<Rightarrow> 0)"

definition body_job :: "json_lib \<Rightarrow> json \<Rightarrow> Job" where
  "body_job lib body = default_Job\<lparr>job_name := body_str body ''name'', job_command := body_str body ''command'',
     job_schedule_expr := body_str body ''schedule'',
     job_timeout_seconds := body_num lib body ''timeout_seconds'', job_retries := body_num lib body ''retries'',
     job_missed_run_policy := (case member ''missed_run_policy'' body of
        None \<Rightarrow> PolicyNone
      | Some _ \<Rightarrow> missed_run_policy_from_string (body_str body ''missed_run_policy''))\<rparr>"

definition add_job_reply :: "json_lib \<Rightarrow> 's Api \<Rightarrow> string \<Rightarrow> 's \<Rightarrow> 's \<times> json cxx" where
  "add_job_reply lib api request s =
     (case api_add_job_handler api of
        None \<Rightarrow> (s, Ret (error_reply ''job control unavailable''))
      | Some handler \<Rightarrow>
          (case jl_parse lib request of
             None \<Rightarrow> (s, Ret (error_reply ''add_job requires a JSON body''))
           | Some body \<Rightarrow>
               if \<not> is_object body then (s, Ret (error_reply ''add_job requires a JSON body''))
               else
                 let job = body_job lib body
                 in if job_name job = [] \<or> job_command job = []
                    then (s, Ret (error_reply ''name and command are required''))
                    else
                      let add = (\<lambda>j. let (s', err) = handler j s
                                     in (s', Ret (if err \<noteq> [] then error_reply err
                                          else JObject [(''ok'', JBool True), (''cmd'', JString ''add_job''),
                                                        (''job'', JString (job_name job))])))
                      in if job_schedule_expr job = [] then add job
                         else case parse (job_schedule_expr job) of
                                Ret None \<Rightarrow>
                                  (s, Ret (error_reply (''invalid cron schedule: '' @ quoted (job_schedule_expr job))))
                              | Ret (Some cron) \<Rightarrow> add (job\<lparr>job_schedule := Some cron\<rparr>)
                              | Throw e \<Rightarrow> (s, Throw e)
                              | Undefined \<Rightarrow> (s, Undefined)
                              | Terminate \<Rightarrow> (s, Terminate)))"

definition remove_job_reply :: "'s Api \<Rightarrow> Request \<Rightarrow> 's \<Rightarrow> 's \<times> json cxx" where
  "remove_job_reply api req s =
     (case api_remove_job_handler api of
        None \<Rightarrow> (s, Ret (error_reply ''job control unavailable''))
      | Some handler \<Rightarrow>
          if rq_arg req = [] then (s, Ret (error_reply ''missing job name''))
          else let (s', err) = handler (rq_arg req) s
               in (s', Ret (if err \<noteq> [] then error_reply err
                    else JObject [(''ok'', JBool True), (''cmd'', JString ''remove_job''),
                                  (''job'', JString (rq_arg req))])))"

definition run_reply :: "'s Api \<Rightarrow> Request \<Rightarrow> 's \<Rightarrow> 's \<times> json cxx" where
  "run_reply api req s =
     (case api_run_handler api of
        None \<Rightarrow> (s, Ret (error_reply ''job control unavailable''))
      | Some handler \<Rightarrow>
          if rq_arg req = [] then (s, Ret (error_reply ''missing job name''))
          else let (s', queued) = handler (rq_arg req) s
               in (s', Ret (if \<not> queued
                    then JObject [(''ok'', JBool False), (''error'', JString ''no such job''),
                                  (''job'', JString (rq_arg req))]
                    else JObject [(''ok'', JBool True), (''cmd'', JString ''run''),
                                  (''job'', JString (rq_arg req)), (''queued'', JBool True)])))"

text \<open>The dispatch, and the answer before it is serialised.\<close>

definition respond :: "json_lib \<Rightarrow> 's Api \<Rightarrow> request_env \<Rightarrow> string \<Rightarrow> 's \<Rightarrow> 's \<times> json cxx" where
  "respond lib api env request s =
     (let req = parse_request lib request; st = api_state api s
      in if rq_cmd req = ''ping''
         then (s, Ret (JObject [(''ok'', JBool True), (''cmd'', JString ''ping''), (''reply'', JString ''pong'')]))
         else if rq_cmd req = ''status'' then (s, Ret (status_reply (api_started_at api) st))
         else if rq_cmd req = ''jobs''
         then (s, Ret (JObject [(''ok'', JBool True), (''cmd'', JString ''jobs''), (''jobs'', jobs_array st)]))
         else if rq_cmd req = ''alerts''
         then (s, Ret (JObject [(''ok'', JBool True), (''cmd'', JString ''alerts''), (''alerts'', alerts_array st)]))
         else if rq_cmd req = ''history'' then (s, history_reply env req (map_option (\<lambda>f. f s) (api_db api)))
         else if rq_cmd req = ''runs'' then (s, runs_reply env req (map_option (\<lambda>f. f s) (api_db api)))
         else if rq_cmd req = ''add_job'' then add_job_reply lib api request s
         else if rq_cmd req = ''remove_job'' then remove_job_reply api req s
         else if rq_cmd req = ''run'' then run_reply api req s
         else (s, Ret (JObject [(''ok'', JBool False), (''error'', JString ''unknown command''),
                                (''cmd'', JString (rq_cmd req))])))"

definition handle :: "json_lib \<Rightarrow> 's Api \<Rightarrow> request_env \<Rightarrow> string \<Rightarrow> 's \<Rightarrow> 's \<times> string cxx" where
  "handle lib api env request s =
     (let (s', r) = respond lib api env request s in (s', cxx_bind r (jl_dump lib)))"

section \<open>What an answer says\<close>

definition accepted :: "json \<Rightarrow> bool" where
  "accepted a \<longleftrightarrow> member ''ok'' a = Some (JBool True)"

definition refused :: "json \<Rightarrow> bool" where
  "refused a \<longleftrightarrow> member ''ok'' a = Some (JBool False) \<and> (\<exists>msg. member ''error'' a = Some (JString msg))"

lemma error_reply_utf8 [simp]: "json_utf8 (error_reply msg) \<longleftrightarrow> utf8 msg"
  by (simp add: error_reply_def)

lemma refused_error [simp]: "refused (error_reply msg)" "\<not> accepted (error_reply msg)"
  by (simp_all add: refused_def accepted_def error_reply_def)

lemma accepted_ok [simp]: "accepted (JObject ((''ok'', JBool b) # ms)) \<longleftrightarrow> b"
  by (simp add: accepted_def)

lemma refused_ok [simp]: "refused (JObject [(''ok'', JBool b), (''error'', JString msg), extra]) \<longleftrightarrow> \<not> b"
  by (simp add: refused_def)

lemma refused_not_accepted: "refused a \<Longrightarrow> \<not> accepted a"
  by (simp add: refused_def accepted_def)

lemma catch_reply_answer:
  assumes "\<And>x. accepted (f x)" "r \<noteq> Undefined" "r \<noteq> Terminate"
  shows "\<exists>a. catch_reply r f = Ret a \<and> (accepted a \<or> refused a)"
  using assms by (cases r) (simp_all add: catch_reply_def)

lemma fetch_no_ub: "fetch e rc rows \<noteq> Undefined" "fetch e rc rows \<noteq> Terminate"
  by (cases rc; simp add: fetch_def)+

lemma history_answer: "\<exists>a. history_reply env req db = Ret a \<and> (accepted a \<or> refused a)"
  unfolding history_reply_def
  by (auto split: option.split intro!: catch_reply_answer
      simp: metric_history_def fetch_no_ub)

lemma runs_answer: "\<exists>a. runs_reply env req db = Ret a \<and> (accepted a \<or> refused a)"
  unfolding runs_reply_def
  by (auto split: option.split intro!: catch_reply_answer
      simp: recent_runs_def fetch_no_ub)

text \<open>The strings of an \<open>add_job\<close> body that reach the database have no NUL byte.\<close>

definition clean_body :: "json_lib \<Rightarrow> string \<Rightarrow> bool" where
  "clean_body lib request = (case jl_parse lib request of None \<Rightarrow> True | Some body \<Rightarrow>
     nul_free (body_str body ''name'') \<and> nul_free (body_str body ''command'') \<and>
     nul_free (body_str body ''schedule''))"

lemma body_job_fields [simp]:
  "job_name (body_job lib b) = body_str b ''name''" "job_command (body_job lib b) = body_str b ''command''"
  "job_schedule_expr (body_job lib b) = body_str b ''schedule''" "job_schedule (body_job lib b) = None"
  by (simp_all add: body_job_def default_Job_def)

lemma add_job_reply_cases:
  obtains (refused) msg where "add_job_reply lib api request s = (s, Ret (error_reply msg))"
      "utf8 msg \<or> (\<exists>body. jl_parse lib request = Some body \<and>
         msg = ''invalid cron schedule: '' @ quoted (body_str body ''schedule''))"
  | (undefined_cron) body e where "add_job_reply lib api request s = (s, e)" "e \<notin> range Ret"
      "jl_parse lib request = Some body" "parse (body_str body ''schedule'') \<notin> range Ret"
  | (handled) handler body job s' err where "api_add_job_handler api = Some handler"
      "jl_parse lib request = Some body" "is_object body" "handler job s = (s', err)"
      "job_name job \<noteq> []" "job_command job \<noteq> []"
      "job_name job = body_str body ''name''" "job_command job = body_str body ''command''"
      "job_schedule_expr job = body_str body ''schedule''"
      "if job_schedule_expr job = [] then job_schedule job = None
       else parse (job_schedule_expr job) = Ret (job_schedule job)"
      "add_job_reply lib api request s = (s', Ret (if err \<noteq> [] then error_reply err
         else JObject [(''ok'', JBool True), (''cmd'', JString ''add_job''), (''job'', JString (job_name job))]))"
proof (cases "\<exists>h body. api_add_job_handler api = Some h \<and> jl_parse lib request = Some body \<and> is_object body \<and>
    body_str body ''name'' \<noteq> [] \<and> body_str body ''command'' \<noteq> []")
  case False
  then have "\<exists>msg. add_job_reply lib api request s = (s, Ret (error_reply msg)) \<and> utf8 msg"
    by (cases "api_add_job_handler api"; cases "jl_parse lib request") (auto simp: add_job_reply_def Let_def)
  then show ?thesis using refused by blast
next
  case True
  then obtain h body where hb: "api_add_job_handler api = Some h" "jl_parse lib request = Some body" "is_object body"
    "body_str body ''name'' \<noteq> []" "body_str body ''command'' \<noteq> []" by blast
  let ?e = "body_str body ''schedule''" and ?j = "body_job lib body"
  show ?thesis
  proof (cases "?e = []")
    case True
    then show ?thesis
      by (intro handled [of h body ?j "fst (h ?j s)" "snd (h ?j s)"])
         (simp_all add: hb add_job_reply_def Let_def split_beta)
  next
    case e: False
    show ?thesis
    proof (cases "parse ?e")
      case (Ret sched)
      show ?thesis
      proof (cases sched)
        case None
        then show ?thesis
          by (intro refused) (use e in \<open>auto simp: hb Ret add_job_reply_def Let_def\<close>)
      next
        case (Some c)
        let ?k = "?j\<lparr>job_schedule := Some c\<rparr>"
        show ?thesis
          by (intro handled [of h body ?k "fst (h ?k s)" "snd (h ?k s)"])
             (use e in \<open>simp_all add: hb Ret Some add_job_reply_def Let_def split_beta\<close>)
      qed
    qed (rule undefined_cron, (use e in \<open>auto simp: hb add_job_reply_def Let_def\<close>))+
  qed
qed

lemma remove_job_reply_cases:
  obtains (refused) a where "remove_job_reply api req s = (s, Ret a)" "refused a" "json_utf8 a"
  | (handled) handler s' err where "api_remove_job_handler api = Some handler" "handler (rq_arg req) s = (s', err)"
      "remove_job_reply api req s = (s', Ret (if err \<noteq> [] then error_reply err
         else JObject [(''ok'', JBool True), (''cmd'', JString ''remove_job''), (''job'', JString (rq_arg req))]))"
proof (cases "api_remove_job_handler api")
  case None
  then show ?thesis by (intro refused) (auto simp: remove_job_reply_def)
next
  case (Some h)
  then show ?thesis
    using that(1) [of "error_reply ''missing job name''"] that(2) [of h "fst (h (rq_arg req) s)" "snd (h (rq_arg req) s)"]
    by (cases "rq_arg req = []") (simp_all add: remove_job_reply_def split_beta)
qed

lemma run_reply_cases:
  obtains (refused) a where "run_reply api req s = (s, Ret a)" "refused a" "json_utf8 a"
  | (handled) handler s' queued where "api_run_handler api = Some handler" "handler (rq_arg req) s = (s', queued)"
      "run_reply api req s = (s', Ret (if \<not> queued
         then JObject [(''ok'', JBool False), (''error'', JString ''no such job''), (''job'', JString (rq_arg req))]
         else JObject [(''ok'', JBool True), (''cmd'', JString ''run''), (''job'', JString (rq_arg req)),
                       (''queued'', JBool True)]))"
proof (cases "api_run_handler api")
  case None
  then show ?thesis by (intro refused) (auto simp: run_reply_def)
next
  case (Some h)
  then show ?thesis
    using that(1) [of "error_reply ''missing job name''"] that(2) [of h "fst (h (rq_arg req) s)" "snd (h (rq_arg req) s)"]
    by (cases "rq_arg req = []") (simp_all add: run_reply_def split_beta)
qed


text \<open>Only three commands can change anything.\<close>

lemma respond_cases:
  obtains (read_only) a where "respond lib api env request s = (s, Ret a)" "accepted a \<or> refused a"
      "rq_cmd (parse_request lib request) \<notin> {''add_job'', ''remove_job'', ''run''}"
  | (add) "rq_cmd (parse_request lib request) = ''add_job''"
      "respond lib api env request s = add_job_reply lib api request s"
  | (remove) "rq_cmd (parse_request lib request) = ''remove_job''"
      "respond lib api env request s = remove_job_reply api (parse_request lib request) s"
  | (run) "rq_cmd (parse_request lib request) = ''run''"
      "respond lib api env request s = run_reply api (parse_request lib request) s"
proof -
  let ?req = "parse_request lib request"
  obtain h where h: "history_reply env ?req (map_option (\<lambda>f. f s) (api_db api)) = Ret h" "accepted h \<or> refused h"
    using history_answer by blast
  obtain r where r: "runs_reply env ?req (map_option (\<lambda>f. f s) (api_db api)) = Ret r" "accepted r \<or> refused r"
    using runs_answer by blast
  consider "rq_cmd ?req \<notin> {''add_job'', ''remove_job'', ''run''}" | "rq_cmd ?req = ''add_job''"
    | "rq_cmd ?req = ''remove_job''" | "rq_cmd ?req = ''run''" by blast
  then show ?thesis
  proof cases
    case 1
    then show ?thesis
      using h r
      by (intro read_only [of "case snd (respond lib api env request s) of Ret a \<Rightarrow> a"])
         (simp_all add: respond_def Let_def status_reply_def)
  qed (use add remove run in \<open>simp_all add: respond_def Let_def\<close>)
qed

lemma respond_answer:
  assumes "\<And>body. jl_parse lib request = Some body \<Longrightarrow> parse (body_str body ''schedule'') \<in> range Ret"
  shows "\<exists>a. snd (respond lib api env request s) = Ret a \<and> (accepted a \<or> refused a)"
proof (cases rule: respond_cases [where lib = lib and api = api and env = env
    and request = request and s = s])
  case add
  show ?thesis
  proof (cases rule: add_job_reply_cases [where lib = lib and api = api and request = request and s = s])
    case (undefined_cron body e)
    then show ?thesis using assms by auto
  qed (use add in auto)
next
  case remove
  then show ?thesis
    by (cases api "parse_request lib request" s rule: remove_job_reply_cases) auto
next
  case run
  then show ?thesis
    by (cases api "parse_request lib request" s rule: run_reply_cases) auto
qed auto

section \<open>The interface of the job handlers\<close>

definition published :: "SharedState \<Rightarrow> string list" where
  "published st = map js_name (ss_jobs st)"

text \<open>
  What the API relies on when it calls the handlers it was given: a refusal changes nothing, an
  accepted request changes the published list of jobs the way it says, and each handler keeps
  the invariant of the state behind it.
\<close>

locale job_control =
  fixes api :: "'s Api"
    and run :: "string \<Rightarrow> 's \<Rightarrow> 's \<times> bool"
    and add :: "Job \<Rightarrow> 's \<Rightarrow> 's \<times> string"
    and remove :: "string \<Rightarrow> 's \<Rightarrow> 's \<times> string"
    and inv :: "'s \<Rightarrow> bool"
  assumes handlers: "api_run_handler api = Some run" "api_add_job_handler api = Some add" "api_remove_job_handler api = Some remove"
    and run_refused: "run n s = (s', False) \<Longrightarrow> s' = s"
    and add_refused: "add j s = (s', err) \<Longrightarrow> err \<noteq> [] \<Longrightarrow> s' = s"
    and remove_refused: "remove n s = (s', err) \<Longrightarrow> err \<noteq> [] \<Longrightarrow> s' = s"
    and run_inv: "run n s = (s', queued) \<Longrightarrow> inv s \<Longrightarrow> inv s'"
    and add_inv: "add j s = (s', err) \<Longrightarrow> inv s \<Longrightarrow> ui_job_ok j \<Longrightarrow> inv s'"
    and remove_inv: "remove n s = (s', err) \<Longrightarrow> inv s \<Longrightarrow> inv s'"
    and run_lists: "run n s = (s', queued) \<Longrightarrow> published (api_state api s') = published (api_state api s)"
    and add_lists: "add j s = (s', []) \<Longrightarrow> inv s \<Longrightarrow>
      published (api_state api s') = published (api_state api s) @ [job_name j]"
    and remove_lists: "remove n s = (s', []) \<Longrightarrow> inv s \<Longrightarrow>
      published (api_state api s') = filter (\<lambda>m. m \<noteq> n) (published (api_state api s))"
begin

lemma refusal_keeps:
  assumes "respond lib api env request s = (s', Ret a)" "\<not> accepted a"
  shows "s' = s"
proof (cases rule: respond_cases [where lib = lib and api = api and env = env
    and request = request and s = s])
  case add
  then show ?thesis
    using assms
    by (cases rule: add_job_reply_cases [where lib = lib and api = api and request = request and s = s])
       (auto simp: handlers split: if_splits dest: run_refused add_refused remove_refused)
next
  case remove
  then show ?thesis
    using assms
    by (cases api "parse_request lib request" s rule: remove_job_reply_cases)
       (auto simp: handlers split: if_splits dest: run_refused add_refused remove_refused)
next
  case run
  then show ?thesis
    using assms
    by (cases api "parse_request lib request" s rule: run_reply_cases)
       (auto simp: handlers split: if_splits dest: run_refused add_refused remove_refused)
qed (use assms in simp)

lemma respond_inv:
  assumes "inv s" "clean_body lib request"
  shows "inv (fst (respond lib api env request s))"
proof (cases rule: respond_cases [where lib = lib and api = api and env = env
    and request = request and s = s])
  case add
  then show ?thesis
  proof (cases rule: add_job_reply_cases [where lib = lib and api = api and request = request and s = s])
    case (handled handler body job s' err)
    then have "ui_job_ok job" using assms(2) by (simp add: clean_body_def ui_job_ok_def)
    then show ?thesis using add_inv [of job s s' err] assms(1) handled add by (simp add: handlers)
  qed (use assms add in simp_all)
next
  case remove
  then show ?thesis
    using assms
    by (cases api "parse_request lib request" s rule: remove_job_reply_cases) (auto simp: handlers dest: run_inv remove_inv)
next
  case run
  then show ?thesis
    using assms
    by (cases api "parse_request lib request" s rule: run_reply_cases) (auto simp: handlers dest: run_inv remove_inv)
qed (use assms in simp)

lemma accepted_lists:
  assumes "inv s" "respond lib api env request s = (s', Ret a)" "accepted a"
  shows "published (api_state api s') =
    (let req = parse_request lib request in
     if rq_cmd req = ''add_job''
     then published (api_state api s) @ [body_str (the (jl_parse lib request)) ''name'']
     else if rq_cmd req = ''remove_job'' then filter (\<lambda>m. m \<noteq> rq_arg req) (published (api_state api s))
     else published (api_state api s))"
proof (cases rule: respond_cases [where lib = lib and api = api and env = env
    and request = request and s = s])
  case add
  then show ?thesis
    using assms
    by (cases rule: add_job_reply_cases [where lib = lib and api = api and request = request and s = s])
       (auto simp: handlers split: if_splits dest: refused_not_accepted run_lists add_lists remove_lists)
next
  case remove
  then show ?thesis
    using assms
    by (cases api "parse_request lib request" s rule: remove_job_reply_cases)
       (auto simp: handlers split: if_splits dest: refused_not_accepted run_lists add_lists remove_lists)
next
  case run
  then show ?thesis
    using assms
    by (cases api "parse_request lib request" s rule: run_reply_cases)
       (auto simp: handlers split: if_splits dest: refused_not_accepted run_lists add_lists remove_lists)
qed (use assms in simp)

end


section \<open>Answers in UTF-8\<close>

lemma job_to_json_utf8:
  "json_utf8 (job_to_json s) \<longleftrightarrow> utf8 (js_name s) \<and> utf8 (js_schedule_expr s) \<and> utf8 (js_source s) \<and>
     (js_has_last_run s \<longrightarrow> utf8 (js_last_status s) \<and> utf8 (js_last_trigger s))"
  by (auto simp: job_to_json_def)

text \<open>Everything the snapshot shows can be serialised.\<close>

definition state_utf8 :: "SharedState \<Rightarrow> bool" where
  "state_utf8 st \<longleftrightarrow> json_utf8 (jobs_array st) \<and> json_utf8 (alerts_array st) \<and> json_utf8 (system_to_json (ss_system st))"

definition runs_utf8 :: "Database \<Rightarrow> bool" where
  "runs_utf8 db \<longleftrightarrow> (\<forall>r \<in> set (db_runs db). utf8 (run_status r) \<and> utf8 (run_trigger r))"

fun read_rc_utf8 :: "read_rc \<Rightarrow> bool" where
  "read_rc_utf8 (Read_prepare_error msg) = utf8 msg"
| "read_rc_utf8 _ = True"

text \<open>The parts of a request that an answer can repeat.\<close>

definition request_utf8 :: "json_lib \<Rightarrow> string \<Rightarrow> bool" where
  "request_utf8 lib request \<longleftrightarrow> utf8 (rq_cmd (parse_request lib request)) \<and> utf8 (rq_arg (parse_request lib request)) \<and>
     (\<forall>body. jl_parse lib request = Some body \<longrightarrow> utf8 (body_str body ''name'') \<and> utf8 (body_str body ''schedule''))"

lemma catch_reply_utf8:
  assumes "catch_reply r f = Ret a" "\<And>x. r = Ret x \<Longrightarrow> json_utf8 (f x)" "\<And>e. r = Throw e \<Longrightarrow> utf8 e"
  shows "json_utf8 a"
  using assms by (cases r) (auto simp: catch_reply_def)

lemma fetch_error_utf8: "fetch what rc rows = Throw e \<Longrightarrow> read_rc_utf8 rc \<Longrightarrow> utf8 what \<Longrightarrow> utf8 e"
  by (cases rc) (auto simp: fetch_def intro!: utf8_append)

lemma fetch_subset: "fetch what rc rows = Ret xs \<Longrightarrow> set xs \<subseteq> set rows"
  by (cases rc) (auto simp: fetch_def dest: in_set_takeD)

lemma history_utf8:
  assumes "history_reply env req db = Ret a" "utf8 (rq_arg req)" "read_rc_utf8 (re_read env)"
  shows "json_utf8 a"
proof (cases db)
  case (Some d)
  then show ?thesis
    using assms
    by (auto simp: history_reply_def metric_history_def split: if_splits
        elim!: catch_reply_utf8 fetch_error_utf8)
qed (use assms in \<open>auto simp: history_reply_def\<close>)

lemma runs_reply_utf8:
  assumes "runs_reply env req db = Ret a" "utf8 (rq_arg req)" "read_rc_utf8 (re_read env)"
    "\<And>d. db = Some d \<Longrightarrow> runs_utf8 d"
  shows "json_utf8 a"
proof (cases db)
  case (Some d)
  let ?rows = "limit_rows (runs_limit (rq_arg2 req)) (newest_first run_started_at run_id (runs_of (rq_arg req) d))"
  have rows: "set ?rows \<subseteq> set (db_runs d)"
    by (auto simp: limit_rows_def runs_of_def set_newest_first dest: in_set_takeD)
  have r: "utf8 (run_status r) \<and> utf8 (run_trigger r)"
    if "fetch ''recent_runs'' (re_read env) ?rows = Ret xs" "r \<in> set xs" for xs r
    using fetch_subset [OF that(1)] that(2) rows assms(4) [OF Some] by (auto simp: runs_utf8_def)
  show ?thesis
    using assms(1-3) Some r
    by (auto simp: runs_reply_def recent_runs_def run_to_json_def split: if_splits
        elim!: catch_reply_utf8 fetch_error_utf8)
qed (use assms in \<open>auto simp: runs_reply_def\<close>)

locale displayed_control = job_control +
  fixes shown :: "'a \<Rightarrow> bool"
  assumes shown_state: "shown s \<Longrightarrow> state_utf8 (api_state api s)"
    and shown_runs: "shown s \<Longrightarrow> api_db api = Some db \<Longrightarrow> runs_utf8 (db s)"
    and run_shown: "run n s = (s', queued) \<Longrightarrow> shown s \<Longrightarrow> shown s'"
    and add_shown: "add j s = (s', err) \<Longrightarrow> shown s \<Longrightarrow> utf8 (job_name j) \<Longrightarrow> utf8 (job_schedule_expr j) \<Longrightarrow>
      shown s' \<and> utf8 err"
    and remove_shown: "remove n s = (s', err) \<Longrightarrow> shown s \<Longrightarrow> utf8 n \<Longrightarrow> shown s' \<and> utf8 err"
begin

lemma read_only_utf8:
  assumes "respond lib api env request s = (s, Ret a)" "shown s" "request_utf8 lib request"
    "read_rc_utf8 (re_read env)" "rq_cmd (parse_request lib request) \<notin> {''add_job'', ''remove_job'', ''run''}"
  shows "json_utf8 a"
proof -
  let ?req = "parse_request lib request" and ?db = "map_option (\<lambda>f. f s) (api_db api)"
  have "runs_utf8 d" if "?db = Some d" for d using that shown_runs [OF assms(2)] by auto
  then show ?thesis
    using assms shown_state [OF assms(2)] history_utf8 [of env ?req ?db a] runs_reply_utf8 [of env ?req ?db a]
    by (auto simp: respond_def Let_def status_reply_def state_utf8_def request_utf8_def split: if_splits)
qed

lemma add_reply_utf8:
  assumes "add_job_reply lib api request s = (s', Ret a)" "shown s" "request_utf8 lib request"
  shows "json_utf8 a \<and> shown s'"
  using assms
proof (cases rule: add_job_reply_cases [where lib = lib and api = api and request = request and s = s])
  case (handled handler body job s1 err)
  have "utf8 (body_str body ''name'')" "utf8 (body_str body ''schedule'')"
    using assms(3) handled by (auto simp: request_utf8_def)
  then show ?thesis
    using add_shown [of job s s1 err] handled assms by (auto simp: handlers split: if_splits)
next
  case (refused msg)
  then show ?thesis using assms by (auto simp: request_utf8_def quoted_def intro!: utf8_append)
qed simp

lemma respond_shown:
  assumes "respond lib api env request s = (s', Ret a)" "shown s" "request_utf8 lib request"
    "read_rc_utf8 (re_read env)"
  shows "json_utf8 a \<and> shown s'"
proof (cases rule: respond_cases [where lib = lib and api = api and env = env and request = request and s = s])
  case (read_only b)
  then show ?thesis using read_only_utf8 [of lib env request s a] assms by simp
next
  case add
  then show ?thesis using add_reply_utf8 [of lib request s s' a] assms by simp
next
  case remove
  have "utf8 (rq_arg (parse_request lib request))" using assms(3) by (simp add: request_utf8_def)
  with remove show ?thesis
    using assms
    by (cases api "parse_request lib request" s rule: remove_job_reply_cases)
       (auto simp: handlers split: if_splits dest: remove_shown)
next
  case run
  have "utf8 (rq_arg (parse_request lib request))" using assms(3) by (simp add: request_utf8_def)
  with run show ?thesis
    using assms
    by (cases api "parse_request lib request" s rule: run_reply_cases)
       (auto simp: handlers split: if_splits dest: run_shown)
qed

end

section \<open>Properties\<close>

text \<open>Fact: the two forms of a request mean the same. A line \<open>cmd job limit\<close> of blank-free words that is
  not itself JSON, and the JSON object with the same command, job and numeric limit, decode to
  the same request, and the limit it carries reads back as the number that was sent.\<close>

theorem request_forms_agree:
  assumes "jl_parse lib line = None"
    and "jl_parse lib doc = Some (JObject [(''cmd'', JString c), (''job'', JString job), (''limit'', JInt n)])"
    and "jl_long lib (JInt n) = n" "LONG_MIN \<le> n" "n \<le> LONG_MAX"
    and "line = join CHR '' '' [c, job, to_string n]"
    and "c \<noteq> []" "job \<noteq> []" "\<forall>x \<in> set c \<union> set job. \<not> isspace x"
  shows "parse_request lib doc = parse_request lib line \<and>
    parse_request lib line = \<lparr>rq_cmd = c, rq_arg = job, rq_arg2 = to_string n\<rparr> \<and>
    strtol (rq_arg2 (parse_request lib line)) = n"
proof -
  have "to_string n \<noteq> [] \<and> (\<forall>x \<in> set (to_string n). \<not> isspace x)"
    using dec_digits_props [of n] dec_digits_props [of "- n"]
    by (auto simp: to_string_def isspace_def code_of_def)
  then have "ws_tokens line = [c, job, to_string n]"
    unfolding assms(6) by (intro ws_tokens_join) (use assms in \<open>auto simp: isspace_def code_of_def\<close>)
  then show ?thesis
    using assms(1-5) by (simp add: parse_request_def strtol_to_string)
qed

text \<open>Fact: every request is answered. Whatever the bytes of the line and whatever fails below, the
  answer is an object that either says \<open>ok: true\<close>, or says \<open>ok: false\<close> and carries an error text;
  no exception leaves the dispatch. The one exclusion is a schedule whose cron expression
  overflows inside the parser.\<close>

theorem every_request_answered:
  assumes "\<forall>body. jl_parse lib request = Some body \<longrightarrow> parse (body_str body ''schedule'') \<noteq> Undefined"
  shows "\<exists>a. snd (respond lib api env request s) = Ret a \<and> is_object a \<and>
    (member ''ok'' a = Some (JBool True) \<or>
     member ''ok'' a = Some (JBool False) \<and> (\<exists>msg. member ''error'' a = Some (JString msg)))"
proof -
  have "\<exists>a. snd (respond lib api env request s) = Ret a \<and> (accepted a \<or> refused a)"
    using assms parse_no_throw by (intro respond_answer) (metis rangeI no_throw_def)
  moreover have "is_object a" if "member ''ok'' a \<noteq> None" for a using that by (cases a) auto
  ultimately show ?thesis by (auto simp: accepted_def refused_def)
qed


subsection \<open>Witnesses\<close>

definition runs_line :: string where
  "runs_line = ''runs backup 5''"

definition runs_doc :: json where
  "runs_doc = JObject [(''cmd'', JString ''runs''), (''job'', JString ''backup''), (''limit'', JInt 5)]"

text \<open>A JSON library that knows one document.\<close>

definition sample_lib :: json_lib where
  "sample_lib = \<lparr>jl_parse = (\<lambda>line. if line = ''{}'' then Some runs_doc else None), jl_dump = (\<lambda>_. Ret ''{}''),
     jl_int = (\<lambda>_. 0), jl_long = (\<lambda>j. case j of JInt n \<Rightarrow> n | _ \<Rightarrow> 0)\<rparr>"

theorem request_forms_agree_witness:
  "parse_request sample_lib ''{}'' = parse_request sample_lib ''runs backup 5'' \<and>
   parse_request sample_lib ''runs backup 5'' = \<lparr>rq_cmd = ''runs'', rq_arg = ''backup'', rq_arg2 = ''5''\<rparr> \<and>
   runs_limit ''5'' = 5"
proof -
  have n: "to_string 5 = ''5''" "runs_limit ''5'' = 5" by code_simp+
  have "parse_request sample_lib ''{}'' = parse_request sample_lib ''runs backup 5'' \<and>
      parse_request sample_lib ''runs backup 5'' = \<lparr>rq_cmd = ''runs'', rq_arg = ''backup'', rq_arg2 = to_string 5\<rparr> \<and>
      strtol (rq_arg2 (parse_request sample_lib ''runs backup 5'')) = 5"
    by (rule request_forms_agree)
       (simp_all add: sample_lib_def runs_doc_def n LONG_MIN_def LONG_MAX_def isspace_def code_of_def)
  with n show ?thesis by simp
qed

definition no_api :: "unit Api" where
  "no_api = new_Api (\<lambda>_. init_SharedState) 0 [] (Ret ()) (\<lambda>_. empty_Database)"

theorem every_request_answered_witness:
  "\<exists>a. snd (respond sample_lib no_api \<lparr>re_now = 0, re_read = Read_complete, re_by_ts = (\<lambda>rows. rows)\<rparr>
      ''reboot'' ()) = Ret a \<and> is_object a"
proof -
  have "\<forall>body. jl_parse sample_lib ''reboot'' = Some body \<longrightarrow> parse (body_str body ''schedule'') \<noteq> Undefined"
    by (simp add: sample_lib_def)
  from every_request_answered [OF this, of no_api _ "()"] show ?thesis by blast
qed

end
