(* ===== verification/Socket_Server.thy ===== *)
theory Socket_Server
  imports Prelude "HOL-Library.Sublist"
begin

text \<open>
  The line server of \<open>daemon/src/ipc/socket_server.hpp\<close> and \<open>socket_server.cpp\<close>. What \<open>read\<close>, \<open>write\<close>,
  \<open>poll\<close> and \<open>accept\<close> return is a list of outcomes, in the order of the calls; when the list ends
  the thread is still waiting in its next call. The handler acts on the state of the daemon and
  takes the part of the world it asks during one request as an argument of its own; an
  exception of the handler leaves the thread. \<open>start\<close> and \<open>stop\<close> also return the system calls they
  make, in order.
\<close>

section \<open>Data\<close>

definition kMaxRequestBytes :: nat where
  "kMaxRequestBytes = 64 * 1024"

abbreviation newline :: char where
  "newline \<equiv> CHR 0x0A"

text \<open>The outcome of one \<open>read\<close>; no bytes means that the client closed its end.\<close>

datatype sock_read = Got_bytes string | Got_eintr | Got_error

text \<open>The outcome of one \<open>write\<close>: the number of bytes taken, an interruption or a failure.\<close>

datatype sock_write = Wrote nat | Write_eintr | Write_failed

record 'e connection =
  cn_reads :: "sock_read list"
  cn_env :: 'e
  cn_writes :: "sock_write list"

section \<open>One connection\<close>

datatype request_read = Waiting | No_request | Request_line string

text \<open>The loop that reads the request line; the size is tested at its head only.\<close>

fun read_request :: "sock_read list \<Rightarrow> string \<Rightarrow> request_read" where
  "read_request [] request = (if length request < kMaxRequestBytes then Waiting else No_request)"
| "read_request (r # rs) request =
     (if length request < kMaxRequestBytes
      then case r of
             Got_eintr \<Rightarrow> read_request rs request
           | Got_error \<Rightarrow> No_request
           | Got_bytes buf \<Rightarrow>
               if buf = [] then No_request
               else let request' = request @ buf
                    in if newline \<in> set request'
                       then Request_line (takeWhile (\<lambda>c. c \<noteq> newline) request')
                       else read_request rs request'
      else No_request)"

datatype write_end = Write_waiting | Write_abandoned | Write_complete

text \<open>The loop that writes the response: the bytes handed to the socket and how it ends.\<close>

fun write_response :: "sock_write list \<Rightarrow> string \<Rightarrow> nat \<Rightarrow> string \<times> write_end" where
  "write_response [] response written =
     ([], if written < length response then Write_waiting else Write_complete)"
| "write_response (w # ws) response written =
     (if written < length response
      then case w of
             Write_eintr \<Rightarrow> write_response ws response written
           | Write_failed \<Rightarrow> ([], Write_abandoned)
           | Wrote n \<Rightarrow>
               let (sent, e) = write_response ws response (written + n)
               in (take n (drop written response) @ sent, e)
      else ([], Write_complete))"

text \<open>The bytes sent, and whether the function has returned.\<close>

definition serve_connection :: "('e \<Rightarrow> string \<Rightarrow> 's \<Rightarrow> 's \<times> string cxx) \<Rightarrow> 'e connection \<Rightarrow> 's \<Rightarrow>
    's \<times> (string \<times> bool) cxx" where
  "serve_connection handler conn s =
     (case read_request (cn_reads conn) [] of
        Waiting \<Rightarrow> (s, Ret ([], False))
      | No_request \<Rightarrow> (s, Ret ([], True))
      | Request_line request \<Rightarrow>
          let (s', r) = handler (cn_env conn) request s
          in (s', cxx_bind r (\<lambda>response.
                let (sent, e) = write_response (cn_writes conn) (response @ [newline]) 0
                in Ret (sent, e \<noteq> Write_waiting))))"

section \<open>The accept loop\<close>

datatype 'e accept_event = Listen_eintr | Listen_failed | Listen_idle | Accept_failed | Accepted "'e connection"

datatype loop_end = Loop_polling | Loop_left | Loop_stuck | Loop_died

text \<open>
  Each round reads \<open>running_\<close> and sees one event. The loop is polling when the events end; it is
  stuck when a connection does not finish; an exception that leaves it terminates the process.
\<close>

fun accept_loop :: "('e \<Rightarrow> string \<Rightarrow> 's \<Rightarrow> 's \<times> string cxx) \<Rightarrow> (bool \<times> 'e accept_event) list \<Rightarrow> 's \<Rightarrow>
    's \<times> string list \<times> loop_end" where
  "accept_loop handler [] s = (s, [], Loop_polling)"
| "accept_loop handler ((running, ev) # evs) s =
     (if \<not> running then (s, [], Loop_left)
      else case ev of
             Listen_eintr \<Rightarrow> accept_loop handler evs s
           | Listen_failed \<Rightarrow> (s, [], Loop_left)
           | Listen_idle \<Rightarrow> accept_loop handler evs s
           | Accept_failed \<Rightarrow> accept_loop handler evs s
           | Accepted conn \<Rightarrow>
               (case serve_connection handler conn s of
                  (s1, Ret (sent, returned)) \<Rightarrow>
                    if returned
                    then let (s2, rest, e) = accept_loop handler evs s1 in (s2, sent # rest, e)
                    else (s1, [sent], Loop_stuck)
                | (s1, _) \<Rightarrow> (s1, [], Loop_died)))"

section \<open>Starting and stopping\<close>

record SocketServer =
  sv_path :: string
  sv_listen_fd :: bool
  sv_running :: bool
  sv_thread :: bool

datatype sys_call = Sys_socket | Sys_unlink string | Sys_bind string | Sys_chmod string nat | Sys_listen | Sys_close

definition new_SocketServer :: SocketServer where
  "new_SocketServer = \<lparr>sv_path = [], sv_listen_fd = False, sv_running = False, sv_thread = False\<rparr>"

text \<open>The failures of \<open>socket\<close>, \<open>bind\<close> and \<open>listen\<close>, with the text of \<open>errno\<close>.\<close>

record start_env =
  se_socket :: "string option"
  se_bind :: "string option"
  se_listen :: "string option"

text \<open>
  \<open>room\<close> is \<open>sizeof(sockaddr_un::sun_path)\<close> and 384 is octal 600. Assigning to \<open>thread_\<close> while it is
  joinable terminates the process.
\<close>

definition start_server :: "nat \<Rightarrow> start_env \<Rightarrow> string \<Rightarrow> SocketServer \<Rightarrow> SocketServer \<times> sys_call list \<times> unit cxx" where
  "start_server room env path sv =
     (if length path \<ge> room then (sv, [], Throw (''socket path too long: '' @ path))
      else
        let sv1 = sv\<lparr>sv_path := path\<rparr>
        in case se_socket env of
             Some err \<Rightarrow> (sv1\<lparr>sv_listen_fd := False\<rparr>, [Sys_socket], Throw (''socket(): '' @ err))
           | None \<Rightarrow>
               let calls = [Sys_socket, Sys_unlink (c_str path), Sys_bind (take (room - 1) (c_str path))]
               in case se_bind env of
                    Some err \<Rightarrow> (sv1\<lparr>sv_listen_fd := False\<rparr>, calls @ [Sys_close], Throw (''bind(): '' @ err))
                  | None \<Rightarrow>
                      let calls' = calls @ [Sys_chmod (c_str path) 384, Sys_listen]
                      in case se_listen env of
                           Some err \<Rightarrow> (sv1\<lparr>sv_listen_fd := False\<rparr>, calls' @ [Sys_close, Sys_unlink (c_str path)],
                                        Throw (''listen(): '' @ err))
                         | None \<Rightarrow>
                             (sv1\<lparr>sv_listen_fd := True, sv_running := True, sv_thread := True\<rparr>, calls',
                              if sv_thread sv then Terminate else Ret ()))"

definition stop_server :: "SocketServer \<Rightarrow> SocketServer \<times> sys_call list" where
  "stop_server sv =
     (if \<not> sv_running sv then (sv, [])
      else (sv\<lparr>sv_running := False, sv_thread := False, sv_listen_fd := False\<rparr>,
            (if sv_listen_fd sv then [Sys_close] else []) @
            (if sv_path sv \<noteq> [] then [Sys_unlink (c_str (sv_path sv))] else [])))"

section \<open>Reading: lemmas\<close>

text \<open>All bytes a list of reads delivers.\<close>

fun delivered :: "sock_read list \<Rightarrow> string" where
  "delivered [] = []"
| "delivered (Got_bytes buf # rs) = buf @ delivered rs"
| "delivered (_ # rs) = delivered rs"

definition healthy_read :: "sock_read \<Rightarrow> bool" where
  "healthy_read r \<longleftrightarrow> r \<noteq> Got_error \<and> r \<noteq> Got_bytes []"

definition first_line :: "string \<Rightarrow> string" where
  "first_line t = takeWhile (\<lambda>c. c \<noteq> newline) t"

lemma first_line_append: "newline \<in> set t \<Longrightarrow> first_line (t @ u) = first_line t"
  by (auto simp: first_line_def takeWhile_append1)

lemma first_line_prefix: "newline \<notin> set t \<Longrightarrow> first_line (t @ u) = t @ first_line u"
  by (induction t) (auto simp: first_line_def)

lemma read_request_line:
  assumes "\<forall>r \<in> set rs. healthy_read r" "newline \<in> set (delivered rs)" "newline \<notin> set req"
    "length (first_line (req @ delivered rs)) < kMaxRequestBytes"
  shows "read_request rs req = Request_line (first_line (req @ delivered rs))"
  using assms
proof (induction rs arbitrary: req)
  case Nil
  then show ?case by simp
next
  case (Cons r rs)
  have len: "length req < kMaxRequestBytes"
    using Cons.prems(3,4) by (simp add: first_line_prefix)
  show ?case
  proof (cases r)
    case (Got_bytes buf)
    show ?thesis
    proof (cases "newline \<in> set buf")
      case True
      then show ?thesis
        using Cons.prems Got_bytes len first_line_append [of "req @ buf" "delivered rs"]
        by (simp add: healthy_read_def first_line_def Let_def)
    next
      case False
      then show ?thesis
        using Cons.IH [of "req @ buf"] Cons.prems Got_bytes len by (simp add: healthy_read_def Let_def)
    qed
  qed (use Cons len in \<open>simp_all add: healthy_read_def\<close>)
qed

lemma read_request_bound:
  assumes "read_request rs req = Request_line q" "\<forall>buf. Got_bytes buf \<in> set rs \<longrightarrow> length buf \<le> n"
    "newline \<notin> set req"
  shows "length q < kMaxRequestBytes + n \<and> newline \<notin> set q \<and> prefix (q @ [newline]) (req @ delivered rs)"
  using assms
proof (induction rs arbitrary: req)
  case Nil
  then show ?case by (simp split: if_splits)
next
  case (Cons r rs)
  then have len: "length req < kMaxRequestBytes" by (simp split: if_splits)
  show ?case
  proof (cases r)
    case (Got_bytes buf)
    show ?thesis
    proof (cases "newline \<in> set buf")
      case True
      obtain u v where buf: "buf = u @ newline # v" "newline \<notin> set u"
        using split_list_first [OF True] by blast
      then have "q = req @ u" using Cons.prems len Got_bytes
        by (auto simp: Let_def takeWhile_append takeWhile_tail)
      moreover have "length buf \<le> n" using Cons.prems(2) Got_bytes by simp
      ultimately show ?thesis using len Cons.prems(3) buf Got_bytes by simp
    next
      case False
      then show ?thesis
        using Cons.IH [of "req @ buf"] Cons.prems Got_bytes len by (simp add: Let_def split: if_splits)
    qed
  qed (use Cons len in simp_all)
qed

section \<open>Writing: lemmas\<close>

fun taken :: "sock_write \<Rightarrow> nat" where
  "taken (Wrote n) = n"
| "taken _ = 0"

lemma write_response_sent:
  assumes "write_response ws resp k = (sent, e)"
  shows "prefix sent (drop k resp) \<and> (e = Write_complete \<longrightarrow> sent = drop k resp)"
  using assms
proof (induction ws arbitrary: k sent)
  case Nil
  then show ?case by (auto split: if_splits)
next
  case (Cons w ws)
  show ?case
  proof (cases "k < length resp \<and> (\<exists>n. w = Wrote n)")
    case True
    then obtain n where w: "w = Wrote n" by blast
    obtain s1 where s1: "write_response ws resp (k + n) = (s1, e)" "sent = take n (drop k resp) @ s1"
      using Cons.prems True w by (auto split: prod.splits)
    have "drop k resp = take n (drop k resp) @ drop (k + n) resp"
      by (metis add.commute append_take_drop_id drop_drop)
    then show ?thesis using Cons.IH [OF s1(1)] s1(2) by (metis same_prefix_prefix)
  next
    case False
    then show ?thesis using Cons by (auto split: if_splits sock_write.splits)
  qed
qed

lemma write_response_complete:
  assumes "Write_failed \<notin> set ws" "length resp \<le> k + sum_list (map taken ws)"
  shows "write_response ws resp k = (drop k resp, Write_complete)"
  using assms
proof (induction ws arbitrary: k)
  case Nil
  then show ?case by simp
next
  case (Cons w ws)
  then show ?case
    by (cases w) (auto simp: Let_def add.commute simp flip: drop_drop)
qed


section \<open>The loop: lemmas\<close>

lemma serve_connection_line:
  assumes "read_request (cn_reads conn) [] = Request_line q" "handler (cn_env conn) q s = (s', Ret resp)"
  shows "serve_connection handler conn s =
    (s', Ret (fst (write_response (cn_writes conn) (resp @ [newline]) 0),
              snd (write_response (cn_writes conn) (resp @ [newline]) 0) \<noteq> Write_waiting))"
  using assms by (simp add: serve_connection_def split_beta)

text \<open>The abstract server: the connections one after the other, each answered in full.\<close>

definition answer_step :: "('e \<Rightarrow> string \<Rightarrow> 's \<Rightarrow> 's \<times> string cxx) \<Rightarrow> 'e connection \<Rightarrow> 's \<Rightarrow> 's \<times> string list" where
  "answer_step handler conn s =
     (case read_request (cn_reads conn) [] of
        Request_line q \<Rightarrow>
          (case handler (cn_env conn) q s of
             (s', Ret response) \<Rightarrow> (s', [response @ [newline]])
           | (s', _) \<Rightarrow> (s', []))
      | _ \<Rightarrow> (s, [[]]))"

definition connections :: "(bool \<times> 'e accept_event) list \<Rightarrow> 'e connection list" where
  "connections evs = List.map_filter (\<lambda>(running, ev). case ev of Accepted conn \<Rightarrow> Some conn | _ \<Rightarrow> None) evs"

lemma connections_simps [simp]:
  "connections [] = []" "connections ((b, Accepted conn) # evs) = conn # connections evs"
  "connections ((b, Listen_eintr) # evs) = connections evs" "connections ((b, Listen_failed) # evs) = connections evs"
  "connections ((b, Listen_idle) # evs) = connections evs" "connections ((b, Accept_failed) # evs) = connections evs"
  by (simp_all add: connections_def List.map_filter_def)

lemma serve_refines:
  assumes "serve_connection handler conn s = (s', Ret (sent, returned))"
  shows "\<exists>whole. answer_step handler conn s = (s', [whole]) \<and> prefix sent whole"
proof (cases "read_request (cn_reads conn) []")
  case (Request_line q)
  obtain r where r: "handler (cn_env conn) q s = (s', Ret r)"
    "sent = fst (write_response (cn_writes conn) (r @ [newline]) 0)"
    using assms Request_line by (auto simp: serve_connection_def split_beta cxx_simps prod_eq_iff)
  have "prefix sent (r @ [newline])"
    using write_response_sent [OF surjective_pairing, of "cn_writes conn" "r @ [newline]" 0] r(2) by simp
  then show ?thesis using Request_line r(1) by (simp add: answer_step_def)
qed (use assms in \<open>auto simp: serve_connection_def answer_step_def\<close>)

section \<open>The interface of a line handler\<close>

text \<open>
  What the server relies on: for the requests and surroundings that are \<open>ok\<close>, the handler
  returns (no exception leaves it) and keeps the invariant of the state behind it.
\<close>

definition conn_ok :: "('e \<Rightarrow> string \<Rightarrow> bool) \<Rightarrow> 'e connection \<Rightarrow> bool" where
  "conn_ok ok conn = (case read_request (cn_reads conn) [] of Request_line q \<Rightarrow> ok (cn_env conn) q | _ \<Rightarrow> True)"

locale line_service =
  fixes handler :: "'e \<Rightarrow> string \<Rightarrow> 's \<Rightarrow> 's \<times> string cxx"
    and ok :: "'e \<Rightarrow> string \<Rightarrow> bool"
    and inv :: "'s \<Rightarrow> bool"
  assumes answers: "inv s \<Longrightarrow> ok e q \<Longrightarrow> \<exists>s' r. handler e q s = (s', Ret r) \<and> inv s'"
begin

lemma serves:
  assumes "inv s" "conn_ok ok conn"
  shows "\<exists>s' sent returned. serve_connection handler conn s = (s', Ret (sent, returned)) \<and> inv s'"
proof (cases "read_request (cn_reads conn) []")
  case (Request_line q)
  then obtain s' r where "handler (cn_env conn) q s = (s', Ret r)" "inv s'"
    using answers [OF assms(1), of "cn_env conn" q] assms(2) by (auto simp: conn_ok_def)
  then show ?thesis using serve_connection_line [OF Request_line, of handler s s' r] by simp
qed (use assms in \<open>auto simp: serve_connection_def\<close>)

lemma survives:
  assumes "inv s" "\<forall>conn \<in> set (connections evs). conn_ok ok conn"
    "accept_loop handler evs s = (s', out, e)"
  shows "inv s' \<and> e \<noteq> Loop_died"
  using assms
proof (induction evs arbitrary: s s' out e)
  case Nil
  then show ?case by simp
next
  case (Cons a evs)
  obtain running ev where a: "a = (running, ev)" by fastforce
  show ?case
  proof (cases ev)
    case (Accepted conn)
    then obtain s1 sent returned where c: "serve_connection handler conn s = (s1, Ret (sent, returned))" "inv s1"
      using serves [OF Cons.prems(1), of conn] Cons.prems(2) a by auto
    obtain s2 rest e2 where l: "accept_loop handler evs s1 = (s2, rest, e2)" by (metis prod_cases3)
    then show ?thesis
      using Cons.IH [OF c(2) _ l] Cons.prems c a Accepted by (auto split: if_splits)
  qed (use Cons a in \<open>auto split: if_splits\<close>)
qed

end

section \<open>Properties\<close>

text \<open>Fact: the request does not depend on how the bytes arrive. However the stream is cut into reads and
  interrupted, if its first line is shorter than 64 KiB then that line, without its newline and
  without anything after it, is the request; and whenever some line is taken as a request
  (reads return at most 1024 bytes), it is the first line of the stream and is shorter than
  65 KiB.\<close>

theorem request_independent_of_chunking:
  assumes "\<forall>r \<in> set rs. healthy_read r" "newline \<in> set (delivered rs)"
  shows "(length (first_line (delivered rs)) < kMaxRequestBytes \<longrightarrow>
      read_request rs [] = Request_line (first_line (delivered rs))) \<and>
    ((\<forall>buf. Got_bytes buf \<in> set rs \<longrightarrow> length buf \<le> 1024) \<longrightarrow>
      (\<forall>q. read_request rs [] = Request_line q \<longrightarrow>
        q = first_line (delivered rs) \<and> length q < kMaxRequestBytes + 1024))"
proof (intro conjI impI allI)
  show "read_request rs [] = Request_line (first_line (delivered rs))"
    if "length (first_line (delivered rs)) < kMaxRequestBytes"
    using read_request_line [of rs "[]"] assms that by simp
next
  fix q
  assume small: "\<forall>buf. Got_bytes buf \<in> set rs \<longrightarrow> length buf \<le> 1024"
    and q: "read_request rs [] = Request_line q"
  note b = read_request_bound [OF q small, simplified]
  show "length q < kMaxRequestBytes + 1024" using b by simp
  from b obtain v where "delivered rs = q @ newline # v" by (auto simp: prefix_def)
  then show "q = first_line (delivered rs)"
    using b first_line_prefix [of q "newline # v"] by (simp add: first_line_def)
qed

text \<open>Fact: a complete exchange. When the first line arrives whole and within the limit, the handler
  returns a response, and the writes go on until the response has been taken (in pieces of any
  size, with interruptions), the client receives exactly the response and one newline, once.\<close>

theorem connection_answered:
  assumes "\<forall>r \<in> set (cn_reads conn). healthy_read r" "newline \<in> set (delivered (cn_reads conn))"
    "length (first_line (delivered (cn_reads conn))) < kMaxRequestBytes"
    and "handler (cn_env conn) (first_line (delivered (cn_reads conn))) s = (s', Ret response)"
    and "Write_failed \<notin> set (cn_writes conn)" "length response < sum_list (map taken (cn_writes conn))"
  shows "serve_connection handler conn s = (s', Ret (response @ [newline], True))"
  using serve_connection_line [of conn "first_line (delivered (cn_reads conn))" handler s s' response]
    read_request_line [of "cn_reads conn" "[]"] assms
    write_response_complete [of "cn_writes conn" "response @ [newline]" 0]
  by simp

text \<open>C27: the accept loop implements the sequential server. Whatever polls, interruptions, failed
  accepts and broken connections it meets, as long as it is still accepting, the state is the
  one reached by handling the requests of the connections one at a time in the order of their
  arrival, and each client has been sent a prefix of its own answer and nothing else.\<close>

theorem accept_loop_sequential:
  assumes "accept_loop handler evs s = (s', out, Loop_polling)"
  shows "s' = fst (run_steps (answer_step handler) (connections evs) s) \<and>
    list_all2 prefix out (snd (run_steps (answer_step handler) (connections evs) s))"
  using assms
proof (induction handler evs s arbitrary: out rule: accept_loop.induct)
  case (1 handler s)
  then show ?case by simp
next
  case (2 handler running ev evs s)
  show ?case
  proof (cases ev)
    case (Accepted conn)
    obtain s1 sent rest where c: "serve_connection handler conn s = (s1, Ret (sent, True))"
      "accept_loop handler evs s1 = (s', rest, Loop_polling)" "out = sent # rest" running
      using "2.prems" Accepted by (auto split: if_splits prod.splits cxx.splits)
    have "s' = fst (run_steps (answer_step handler) (connections evs) s1) \<and>
        list_all2 prefix rest (snd (run_steps (answer_step handler) (connections evs) s1))"
      by (rule "2.IH"(4)) (use c Accepted in auto)
    then show ?thesis using serve_refines [OF c(1)] c(3) Accepted by auto
  qed (use 2 in \<open>auto split: if_splits\<close>)
qed

text \<open>Fact: a client that connects and sends no complete line holds the accept thread: the loop does not
  get past it whatever happens afterwards, so neither another client nor \<open>stop\<close> is served until
  that client sends something or closes.\<close>

theorem silent_client_blocks:
  assumes "\<forall>r \<in> set (cn_reads conn). healthy_read r" "newline \<notin> set (delivered (cn_reads conn))"
    "length (delivered (cn_reads conn)) < kMaxRequestBytes"
  shows "accept_loop handler ((True, Accepted conn) # evs) s = (s, [[]], Loop_stuck)"
proof -
  have "read_request rs req = Waiting"
    if "\<forall>r \<in> set rs. healthy_read r" "newline \<notin> set (req @ delivered rs)"
      "length (req @ delivered rs) < kMaxRequestBytes" for rs req
    using that
  proof (induction rs arbitrary: req)
    case (Cons r rs)
    then show ?case using Cons.IH [of "req @ delivered [r]"] by (cases r) (auto simp: healthy_read_def)
  qed simp
  from this [of "cn_reads conn" "[]"] show ?thesis
    using assms by (simp add: serve_connection_def)
qed

text \<open>Fact: starting either succeeds or leaves nothing behind. A failed start throws with no descriptor
  open (every socket made is closed) and not running; a successful one restricts the file
  to its owner before it listens, on the very path it removed a stale file from; and stopping
  then closes the descriptor and removes the file, once.\<close>

theorem start_stop_clean:
  assumes "start_server room env path new_SocketServer = (sv, calls, r)"
  shows "(r = Ret () \<and> calls = [Sys_socket, Sys_unlink (c_str path), Sys_bind (c_str path),
            Sys_chmod (c_str path) 384, Sys_listen] \<and> sv_running sv \<and>
          stop_server sv = (new_SocketServer\<lparr>sv_path := path\<rparr>,
            Sys_close # (if path \<noteq> [] then [Sys_unlink (c_str path)] else [])) \<and>
          stop_server (fst (stop_server sv)) = (fst (stop_server sv), [])) \<or>
         ((\<exists>msg. r = Throw msg) \<and> \<not> sv_running sv \<and> \<not> sv_listen_fd sv \<and> \<not> sv_thread sv \<and>
          count_list calls Sys_close = (if Sys_bind (c_str path) \<in> set calls then 1 else 0) \<and>
          stop_server sv = (sv, []))"
proof -
  have "take (room - 1) (c_str path) = c_str path" if "length path < room"
    using that length_takeWhile_le [of "\<lambda>c. code_of c \<noteq> 0" path] by (simp add: c_str_def)
  then show ?thesis
    using assms by (auto simp: start_server_def stop_server_def new_SocketServer_def Let_def
        split: if_splits option.splits)
qed

subsection \<open>Witnesses\<close>

definition echo :: "unit \<Rightarrow> string \<Rightarrow> nat \<Rightarrow> nat \<times> string cxx" where
  "echo _ q n = (n + 1, Ret (''re: '' @ q))"

definition good_conn :: "unit connection" where
  "good_conn = \<lparr>cn_reads = [Got_bytes ''pi'', Got_eintr, Got_bytes (''ng'' @ [newline] @ ''x'')], cn_env = (),
     cn_writes = [Wrote 3, Write_eintr, Wrote 6]\<rparr>"

definition silent_conn :: "unit connection" where
  "silent_conn = \<lparr>cn_reads = [Got_bytes ''pi''], cn_env = (), cn_writes = []\<rparr>"

lemma good_reads:
  "\<forall>r \<in> set (cn_reads good_conn). healthy_read r" "newline \<in> set (delivered (cn_reads good_conn))"
  "first_line (delivered (cn_reads good_conn)) = ''ping''" "length ''ping'' < kMaxRequestBytes"
  by (simp_all add: good_conn_def healthy_read_def first_line_def kMaxRequestBytes_def)

theorem request_independent_of_chunking_witness:
  "read_request (cn_reads good_conn) [] = Request_line ''ping''"
  using request_independent_of_chunking [OF good_reads(1,2)] good_reads(3,4) by simp

theorem connection_answered_witness:
  "serve_connection echo good_conn 7 = (8, Ret (''re: ping'' @ [newline], True))"
  by (rule connection_answered [OF good_reads(1,2)])
     (simp_all only: good_reads(3,4), simp_all add: good_conn_def echo_def)

theorem accept_loop_sequential_witness:
  "fst (run_steps (answer_step echo) [good_conn, good_conn] 7) = 9"
proof -
  have "serve_connection echo good_conn n = (n + 1, Ret (''re: ping'' @ [newline], True))" for n
    by (simp add: serve_connection_def good_conn_def kMaxRequestBytes_def echo_def)
  then have "accept_loop echo [(True, Accepted good_conn), (True, Listen_idle), (True, Accepted good_conn)] 7 =
      (9, [''re: ping'' @ [newline], ''re: ping'' @ [newline]], Loop_polling)" by simp
  from accept_loop_sequential [OF this] show ?thesis by simp
qed

theorem silent_client_blocks_witness:
  "accept_loop echo [(True, Accepted silent_conn), (False, Listen_idle)] 7 = (7, [[]], Loop_stuck)"
  by (rule silent_client_blocks)
     (simp_all add: silent_conn_def healthy_read_def kMaxRequestBytes_def)

theorem start_stop_clean_witness:
  "fst (stop_server \<lparr>sv_path = ''s.sock'', sv_listen_fd = True, sv_running = True, sv_thread = True\<rparr>) =
     new_SocketServer\<lparr>sv_path := ''s.sock''\<rparr>"
proof -
  have "start_server 104 \<lparr>se_socket = None, se_bind = None, se_listen = None\<rparr> ''s.sock'' new_SocketServer =
      (\<lparr>sv_path = ''s.sock'', sv_listen_fd = True, sv_running = True, sv_thread = True\<rparr>,
       [Sys_socket, Sys_unlink ''s.sock'', Sys_bind ''s.sock'', Sys_chmod ''s.sock'' 384, Sys_listen], Ret ())"
    by (simp add: start_server_def new_SocketServer_def c_str_def code_of_def)
  from start_stop_clean [OF this] show ?thesis by auto
qed

end
