(* ===== verification/Metrics.thy ===== *)
theory Metrics
  imports Shared_State "HOL-Library.Word" "HOL-Library.Multiset" "HOL-Library.Product_Lexorder"
begin

text \<open>
  The collectors of \<open>daemon/src/metrics\<close>: \<open>cpu_sampler.cpp\<close>, \<open>memory_sampler.cpp\<close>, \<open>disk_sampler.cpp\<close>,
  \<open>process_sampler.cpp\<close> and \<open>self_sampler.cpp\<close>. What Mach, \<open>statfs\<close> and \<open>libproc\<close> report is an argument, with
  \<open>None\<close> for a failed call. Counters keep their width: the Mach tick counters are 32-bit words,
  the sums and differences the code forms are 64-bit words and wrap. A \<open>double\<close> made from an
  integer is the real number itself.
\<close>

type_synonym u32 = "32 word"
type_synonym u64 = "64 word"

text \<open>\<open>static_cast<double>(a) / static_cast<double>(b) * 100.0\<close> for a divisor that is not zero.\<close>

definition percent_of :: "u64 \<Rightarrow> u64 \<Rightarrow> double" where
  "percent_of a b = Fin (real (unat a) / real (unat b) * 100)"

section \<open>CPU\<close>

record cpu_ticks =
  tk_user :: u32
  tk_system :: u32
  tk_idle :: u32
  tk_nice :: u32

record CpuSampler =
  cp_have_prev :: bool
  cp_user :: u64
  cp_system :: u64
  cp_idle :: u64
  cp_nice :: u64

definition new_CpuSampler :: CpuSampler where
  "new_CpuSampler = \<lparr>cp_have_prev = False, cp_user = 0, cp_system = 0, cp_idle = 0, cp_nice = 0\<rparr>"

definition cpu_sample :: "cpu_ticks option \<Rightarrow> CpuSampler \<Rightarrow> CpuSampler \<times> double" where
  "cpu_sample info cs =
     (case info of
        None \<Rightarrow> (cs, Fin 0)
      | Some t \<Rightarrow>
          let user = ucast (tk_user t); system = ucast (tk_system t);
              idle = ucast (tk_idle t); nice = ucast (tk_nice t);
              cs' = \<lparr>cp_have_prev = True, cp_user = user, cp_system = system, cp_idle = idle, cp_nice = nice\<rparr>
          in if \<not> cp_have_prev cs then (cs', Fin 0)
             else
               let d_user = user - cp_user cs; d_system = system - cp_system cs;
                   d_idle = idle - cp_idle cs; d_nice = nice - cp_nice cs;
                   busy = d_user + d_system + d_nice; whole = busy + d_idle
               in (cs', if whole = 0 then Fin 0 else percent_of busy whole))"

section \<open>Memory and disk\<close>

record MemorySample =
  ms_valid :: bool
  ms_total_bytes :: u64
  ms_used_bytes :: u64
  ms_used_percent :: double

definition no_MemorySample :: MemorySample where
  "no_MemorySample = \<lparr>ms_valid = False, ms_total_bytes = 0, ms_used_bytes = 0, ms_used_percent = Fin 0\<rparr>"

text \<open>The page counts that matter: active, wired and compressed.\<close>

record vm_statistics =
  vm_active_count :: u32
  vm_wire_count :: u32
  vm_compressor_page_count :: u32

definition sample_memory :: "u64 option \<Rightarrow> u64 option \<Rightarrow> vm_statistics option \<Rightarrow> MemorySample" where
  "sample_memory memsize page_size vm_stat =
     (case memsize of
        None \<Rightarrow> no_MemorySample
      | Some whole \<Rightarrow>
          if whole = 0 then no_MemorySample
          else case page_size of
                 None \<Rightarrow> no_MemorySample
               | Some page \<Rightarrow>
                   (case vm_stat of
                      None \<Rightarrow> no_MemorySample
                    | Some vm \<Rightarrow>
                        let used_pages = ucast (vm_active_count vm) + ucast (vm_wire_count vm) +
                              ucast (vm_compressor_page_count vm);
                            used = used_pages * page;
                            used' = (if used > whole then whole else used)
                        in \<lparr>ms_valid = True, ms_total_bytes = whole, ms_used_bytes = used',
                            ms_used_percent = percent_of used' whole\<rparr>))"

record DiskSample =
  dk_valid :: bool
  dk_total_bytes :: u64
  dk_available_bytes :: u64
  dk_used_percent :: double

record statfs_data =
  f_bsize :: u32
  f_blocks :: u64
  f_bavail :: u64

definition sample_disk :: "statfs_data option \<Rightarrow> DiskSample" where
  "sample_disk st =
     (case st of
        None \<Rightarrow> \<lparr>dk_valid = False, dk_total_bytes = 0, dk_available_bytes = 0, dk_used_percent = Fin 0\<rparr>
      | Some fs \<Rightarrow>
          let bsize = ucast (f_bsize fs);
              whole = f_blocks fs * bsize;
              available = f_bavail fs * bsize;
              used = (if whole \<ge> available then whole - available else 0)
          in \<lparr>dk_valid = True, dk_total_bytes = whole, dk_available_bytes = available,
              dk_used_percent = (if whole > 0 then percent_of used whole else Fin 0)\<rparr>)"

section \<open>Processes\<close>

record task_info =
  pti_total_user :: u64
  pti_total_system :: u64
  pti_resident_size :: u64

record ProcessSampler =
  ps_prev_time_ns :: "int \<rightharpoonup> u64"
  ps_prev_sample :: int
  ps_have_prev :: bool

definition new_ProcessSampler :: ProcessSampler where
  "new_ProcessSampler = \<lparr>ps_prev_time_ns = Map.empty, ps_prev_sample = 0, ps_have_prev = False\<rparr>"

text \<open>
  What \<open>libproc\<close> answers: the two sizes of \<open>proc_listpids\<close> in bytes, the buffer it filled, the data and
  the name of each process; and the steady clock in nanoseconds.
\<close>

record proc_env =
  pv_needed :: int
  pv_got :: int
  pv_pids :: "int list"
  pv_info :: "int \<Rightarrow> task_info option"
  pv_name :: "int \<Rightarrow> string option"
  pv_now :: int

text \<open>The body of the loop over the process ids: the task times collected, and the entry if there is one.\<close>

definition proc_step :: "proc_env \<Rightarrow> ProcessSampler \<Rightarrow> real \<Rightarrow> int \<Rightarrow> (int \<rightharpoonup> u64) \<Rightarrow>
    (int \<rightharpoonup> u64) \<times> ProcInfo list" where
  "proc_step env ps interval_ns pid cur =
     (if pid \<le> 0 then (cur, [])
      else case pv_info env pid of
             None \<Rightarrow> (cur, [])
           | Some ti \<Rightarrow>
               let total_ns = pti_total_user ti + pti_total_system ti
               in (cur(pid \<mapsto> total_ns),
                   [\<lparr>pi_pid = pid,
                     pi_name = (case pv_name env pid of
                                  Some n \<Rightarrow> c_str n | None \<Rightarrow> ''pid '' @ to_string pid),
                     pi_cpu_percent =
                       (if ps_have_prev ps \<and> interval_ns > 0
                        then case ps_prev_time_ns ps pid of
                               None \<Rightarrow> Fin 0
                             | Some prev \<Rightarrow>
                                 if total_ns \<ge> prev
                                 then Fin (real (unat (total_ns - prev)) / interval_ns * 100)
                                 else Fin 0
                        else Fin 0),
                     pi_rss_bytes = unat (pti_resident_size ti)\<rparr>]))"

definition proc_interval :: "proc_env \<Rightarrow> ProcessSampler \<Rightarrow> real" where
  "proc_interval env ps = (if ps_have_prev ps then real_of_int (pv_now env - ps_prev_sample ps) else 0)"

definition sample_procs :: "proc_env \<Rightarrow> ProcessSampler \<Rightarrow> (int \<rightharpoonup> u64) \<times> ProcInfo list" where
  "sample_procs env ps =
     run_steps (proc_step env ps (proc_interval env ps)) (take (nat (pv_got env) div 4) (pv_pids env)) Map.empty"

text \<open>The comparison handed to \<open>std::partial_sort\<close>.\<close>

definition proc_before :: "ProcInfo \<Rightarrow> ProcInfo \<Rightarrow> bool" where
  "proc_before a b =
     (if \<not> dbl_eq (pi_cpu_percent a) (pi_cpu_percent b) then dbl_less (pi_cpu_percent b) (pi_cpu_percent a)
      else pi_rss_bytes b < pi_rss_bytes a)"

text \<open>\<open>psort k\<close> is \<open>std::partial_sort\<close> with middle \<open>k\<close>, which may order equivalent elements in any way.\<close>

definition top_procs :: "(nat \<Rightarrow> ProcInfo list \<Rightarrow> ProcInfo list) \<Rightarrow> proc_env \<Rightarrow> int \<Rightarrow> ProcessSampler \<Rightarrow>
    ProcessSampler \<times> ProcInfo list" where
  "top_procs psort env n ps =
     (if pv_needed env \<le> 0 \<or> pv_got env \<le> 0 then (ps, [])
      else
        let (cur, procs) = sample_procs env ps;
            keep = min (length procs) (nat n)
        in (\<lparr>ps_prev_time_ns = cur, ps_prev_sample = pv_now env, ps_have_prev = True\<rparr>,
            take keep (psort keep procs)))"

section \<open>The daemon itself\<close>

record SelfStats =
  sf_valid :: bool
  sf_rss_bytes :: u64
  sf_cpu_percent :: double

record SelfSampler =
  sl_have_prev :: bool
  sl_prev_time_ns :: u64
  sl_prev_wall_ns :: int

definition new_SelfSampler :: SelfSampler where
  "new_SelfSampler = \<lparr>sl_have_prev = False, sl_prev_time_ns = 0, sl_prev_wall_ns = 0\<rparr>"

definition self_sample :: "task_info option \<Rightarrow> int \<Rightarrow> SelfSampler \<Rightarrow> SelfSampler \<times> SelfStats" where
  "self_sample info wall_ns sl =
     (case info of
        None \<Rightarrow> (sl, \<lparr>sf_valid = False, sf_rss_bytes = 0, sf_cpu_percent = Fin 0\<rparr>)
      | Some ti \<Rightarrow>
          let total_ns = pti_total_user ti + pti_total_system ti
          in (\<lparr>sl_have_prev = True, sl_prev_time_ns = total_ns, sl_prev_wall_ns = wall_ns\<rparr>,
              \<lparr>sf_valid = True, sf_rss_bytes = pti_resident_size ti,
               sf_cpu_percent =
                 (if sl_have_prev sl \<and> wall_ns > sl_prev_wall_ns sl \<and> total_ns \<ge> sl_prev_time_ns sl
                  then Fin (real (unat (total_ns - sl_prev_time_ns sl)) /
                            real_of_int (wall_ns - sl_prev_wall_ns sl) * 100)
                  else Fin 0)\<rparr>))"


section \<open>Widths\<close>

lemma unat_ucast64 [simp]: "unat (ucast (x :: u32) :: u64) = unat x"
proof -
  have "unat x < 2 ^ 64" using unsigned_less [of x] by (rule less_trans) simp
  then show ?thesis by (simp add: unsigned_ucast_eq take_bit_nat_eq_self)
qed

lemma unat_u32_less: "unat (x :: u32) < 2 ^ 32"
  using unsigned_less [of x] by simp

lemma unat_add64: "unat (x :: u64) + unat y < 2 ^ 64 \<Longrightarrow> unat (x + y) = unat x + unat y"
  using unat_add_lem [of x y] by simp

lemma unat_mult64: "unat (x :: u64) * unat y < 2 ^ 64 \<Longrightarrow> unat (x * y) = unat x * unat y"
  using unat_mult_lem [of x y] by simp

lemma unat_diff64: "unat y \<le> unat (x :: u64) \<Longrightarrow> unat (x - y) = unat x - unat y"
  by (simp add: unat_sub word_le_nat_alt)

lemma unat_diff64_wrap: "unat (x :: u64) < unat y \<Longrightarrow> unat (x - y) = 2 ^ 64 - (unat y - unat x)"
  using unat_sub_if_size [of x y] unsigned_less [of y] by (simp add: word_size)

lemma ratio_percent: "x \<le> y \<Longrightarrow> 0 \<le> real x / real y * 100 \<and> real x / real y * 100 \<le> 100"
  by (cases "y = 0") (simp_all add: divide_le_eq)

lemma percent_of_range: "unat a \<le> unat b \<Longrightarrow> \<exists>x. percent_of a b = Fin x \<and> 0 \<le> x \<and> x \<le> 100"
  unfolding percent_of_def double.inject using ratio_percent [of "unat a" "unat b"] by blast

section \<open>Properties\<close>

text \<open>The ticks between two readings, when no counter has wrapped.\<close>

definition ticks_le :: "cpu_ticks \<Rightarrow> cpu_ticks \<Rightarrow> bool" where
  "ticks_le p t \<longleftrightarrow> tk_user p \<le> tk_user t \<and> tk_system p \<le> tk_system t \<and> tk_idle p \<le> tk_idle t \<and> tk_nice p \<le> tk_nice t"

definition busy_ticks :: "cpu_ticks \<Rightarrow> nat" where
  "busy_ticks t = unat (tk_user t) + unat (tk_system t) + unat (tk_nice t)"

lemma diff_ucast: "p \<le> t \<Longrightarrow> unat (ucast (t :: u32) - ucast p :: u64) = unat t - unat p"
  by (simp add: unat_diff64 word_le_nat_alt)

lemma unat_sum3:
  assumes "unat (a :: u64) < 2 ^ 32" "unat (b :: u64) < 2 ^ 32" "unat (c :: u64) < 2 ^ 32"
  shows "unat (a + b + c) = unat a + unat b + unat c"
  using unat_add64 [of a b] unat_add64 [of "a + b" c] assms by simp



text \<open>Fact: a counter that wraps reports a busy machine. The Mach counters have 32 bits and the differences 64:
  when the user counter passes its end (and fewer ticks than its drop pass on the others), the
  reported load is at least 99.99 percent, however idle the machine was.\<close>

theorem cpu_counter_wrap_spikes:
  assumes "tk_user t < tk_user p" "tk_system p \<le> tk_system t" "tk_idle p \<le> tk_idle t" "tk_nice p \<le> tk_nice t"
    "(unat (tk_system t) - unat (tk_system p)) + (unat (tk_nice t) - unat (tk_nice p)) +
       (unat (tk_idle t) - unat (tk_idle p)) < unat (tk_user p) - unat (tk_user t)"
  shows "\<exists>x. snd (cpu_sample (Some t) (fst (cpu_sample (Some p) new_CpuSampler))) = Fin x \<and> 99.99 \<le> x"
proof -
  let ?d = "\<lambda>f. ucast (f t) - ucast (f p) :: u64"
  let ?busy = "?d tk_user + ?d tk_system + ?d tk_nice"
  define a where "a = unat (tk_user p) - unat (tk_user t)"
  define b where "b = (unat (tk_system t) - unat (tk_system p)) + (unat (tk_nice t) - unat (tk_nice p))"
  define i where "i = unat (tk_idle t) - unat (tk_idle p)"
  have a: "a < 2 ^ 32" "b + i < a" using unat_u32_less [of "tk_user p"] assms(5) by (simp_all add: a_def b_def i_def)
  have d: "unat (?d tk_user) = 2 ^ 64 - a" "unat (?d tk_idle) = i"
    "unat (?d tk_system) + unat (?d tk_nice) = b"
    using unat_diff64_wrap [of "ucast (tk_user t)" "ucast (tk_user p)"] assms(1-4)
    by (simp_all add: a_def b_def i_def diff_ucast word_less_nat_alt)
  have us: "unat (?d tk_user + ?d tk_system) = (2 ^ 64 - a) + unat (?d tk_system)"
    using a d by (subst unat_add64) simp_all
  have busy: "unat ?busy = 2 ^ 64 - a + b"
    using a d(3) by (subst unat_add64) (simp_all add: us)
  have whole: "unat (?busy + ?d tk_idle) = 2 ^ 64 - a + b + i"
    using a busy d(2) by (subst unat_add64) simp_all
  have "snd (cpu_sample (Some t) (fst (cpu_sample (Some p) new_CpuSampler))) =
      (if ?busy + ?d tk_idle = 0 then Fin 0 else percent_of ?busy (?busy + ?d tk_idle))"
    by (simp add: cpu_sample_def new_CpuSampler_def Let_def)
  also have "\<dots> = Fin (real (unat ?busy) / real (unat (?busy + ?d tk_idle)) * 100)"
    by (simp add: percent_of_def)
  finally have r: "snd (cpu_sample (Some t) (fst (cpu_sample (Some p) new_CpuSampler))) =
      Fin (real (2 ^ 64 - a + b) / real (2 ^ 64 - a + b + i) * 100)" unfolding whole busy .
  define B where "B = 2 ^ 64 - a + b"
  have "9999 * i \<le> B" "0 < B" using a by (simp_all add: B_def)
  then have "99.99 \<le> real B / real (B + i) * 100" by (simp add: field_simps)
  then show ?thesis using r unfolding B_def by blast
qed

text \<open>Fact: the gauges stay in range. A valid memory sample never reports more used than there is, its
  percentage is between 0 and 100, and with pages of at most a gibibyte the bytes used are the
  active, wired and compressed pages, capped by the total, with no overflow; the percentage of
  a disk is between 0 and 100 as well, even when more is available than the volume holds.\<close>

theorem gauges_in_range:
  "(let m = sample_memory memsize page vm in ms_valid m \<longrightarrow>
      unat (ms_used_bytes m) \<le> unat (ms_total_bytes m) \<and>
      (\<exists>x. ms_used_percent m = Fin x \<and> 0 \<le> x \<and> x \<le> 100) \<and>
      (\<forall>pg v. page = Some pg \<longrightarrow> vm = Some v \<longrightarrow> unat pg \<le> 2 ^ 30 \<longrightarrow>
        unat (ms_used_bytes m) = min (unat (ms_total_bytes m))
          ((unat (vm_active_count v) + unat (vm_wire_count v) + unat (vm_compressor_page_count v)) * unat pg))) \<and>
   (\<exists>x. dk_used_percent (sample_disk st) = Fin x \<and> 0 \<le> x \<and> x \<le> 100)"
proof -
  have pages: "unat ((ucast a + ucast b + ucast c) * pg :: u64) = (unat a + unat b + unat c) * unat pg"
    if "unat pg \<le> 2 ^ 30" for a b c :: u32 and pg :: u64
  proof -
    have s: "unat (ucast a + ucast b + ucast c :: u64) = unat a + unat b + unat c"
      using unat_sum3 [of "ucast a" "ucast b" "ucast c"] unat_u32_less [of a] unat_u32_less [of b] unat_u32_less [of c]
      by simp
    have "(unat a + unat b + unat c) * unat pg \<le> (unat a + unat b + unat c) * 2 ^ 30"
      using that by (rule mult_le_mono2)
    also have "\<dots> < 2 ^ 64" using unat_u32_less [of a] unat_u32_less [of b] unat_u32_less [of c] by simp
    finally show ?thesis by (subst unat_mult64) (simp_all add: s)
  qed
  have "\<exists>x. dk_used_percent (sample_disk st) = Fin x \<and> 0 \<le> x \<and> x \<le> 100"
    by (cases st)
       (auto simp: sample_disk_def Let_def word_le_nat_alt unat_diff64 intro!: percent_of_range)
  then show ?thesis
    using pages
    by (auto simp: sample_memory_def no_MemorySample_def Let_def word_less_nat_alt not_less
        intro!: percent_of_range split: option.splits if_splits)
qed


text \<open>What \<open>std::partial_sort\<close> promises for this comparison, on percentages that are numbers.\<close>

definition partial_sorts :: "(nat \<Rightarrow> ProcInfo list \<Rightarrow> ProcInfo list) \<Rightarrow> bool" where
  "partial_sorts psort \<longleftrightarrow> (\<forall>k xs. k \<le> length xs \<longrightarrow> (\<forall>p \<in> set xs. \<exists>x. pi_cpu_percent p = Fin x) \<longrightarrow>
     mset (psort k xs) = mset xs \<and> sorted_wrt (\<lambda>a b. \<not> proc_before b a) (take k (psort k xs)) \<and>
     (\<forall>a \<in> set (take k (psort k xs)). \<forall>b \<in> set (drop k (psort k xs)). \<not> proc_before b a))"

lemma proc_step_percent:
  assumes "q \<in> set (snd (proc_step env ps i pid m))"
  shows "\<exists>x. pi_cpu_percent q = Fin x \<and> 0 \<le> x \<and> (ps_have_prev ps \<or> x = 0)"
  using assms by (auto simp: proc_step_def Let_def simp del: of_nat_unat split: if_splits option.splits)

lemma sample_procs_percent:
  assumes "p \<in> set (snd (sample_procs env ps))"
  shows "\<exists>x. pi_cpu_percent p = Fin x \<and> 0 \<le> x \<and> (ps_have_prev ps \<or> x = 0)"
proof -
  have "\<exists>x. pi_cpu_percent q = Fin x \<and> 0 \<le> x \<and> (ps_have_prev ps \<or> x = 0)"
    if "q \<in> set (snd (run_steps (proc_step env ps i) pids m))" for q i pids m
    using that
  proof (induction pids arbitrary: m)
    case (Cons pid pids)
    then consider "q \<in> set (snd (proc_step env ps i pid m))"
      | "q \<in> set (snd (run_steps (proc_step env ps i) pids (fst (proc_step env ps i pid m))))" by auto
    then show ?case by cases (rule proc_step_percent, assumption, rule Cons.IH)
  qed simp
  then show ?thesis using assms unfolding sample_procs_def by blast
qed

text \<open>Fact: the process list is the top of the table. Of all processes that could be read, exactly \<open>n\<close> are
  returned (all of them if there are fewer, none for a negative \<open>n\<close>), in the order of their load
  and then of their memory, and no process left out precedes one that is listed; loads are
  never negative and are 0 without an earlier sample.\<close>

theorem top_processes_are_top:
  assumes "partial_sorts psort" "top_procs psort env n ps = (ps', procs)" "0 < pv_needed env" "0 < pv_got env"
  shows "length procs = min (length (snd (sample_procs env ps))) (nat n) \<and>
    sorted_wrt (\<lambda>a b. \<not> proc_before b a) procs \<and>
    (\<exists>rest. mset (snd (sample_procs env ps)) = mset procs + mset rest \<and>
      (\<forall>a \<in> set procs. \<forall>b \<in> set rest. \<not> proc_before b a)) \<and>
    (\<forall>p \<in> set procs. \<exists>x. pi_cpu_percent p = Fin x \<and> 0 \<le> x \<and> (ps_have_prev ps \<or> x = 0))"
proof -
  define xs where "xs = snd (sample_procs env ps)"
  define k where "k = min (length xs) (nat n)"
  have num: "\<forall>p \<in> set xs. \<exists>x. pi_cpu_percent p = Fin x \<and> 0 \<le> x \<and> (ps_have_prev ps \<or> x = 0)"
    using sample_procs_percent unfolding xs_def by blast
  have procs: "procs = take k (psort k xs)"
    using assms(2-4) by (auto simp: top_procs_def xs_def k_def Let_def split: prod.splits)
  have s: "mset (psort k xs) = mset xs" "sorted_wrt (\<lambda>a b. \<not> proc_before b a) procs"
    "\<forall>a \<in> set procs. \<forall>b \<in> set (drop k (psort k xs)). \<not> proc_before b a"
    using assms(1) [unfolded partial_sorts_def, rule_format, of k xs] num unfolding procs k_def by auto
  have "mset procs + mset (drop k (psort k xs)) = mset xs"
    unfolding procs s(1) [symmetric] by (simp flip: mset_append)
  moreover have "length procs = k" using mset_eq_length [OF s(1)] by (simp add: procs k_def)
  moreover have "set procs \<subseteq> set xs" using set_take_subset mset_eq_setD [OF s(1)] by (auto simp: procs dest: in_set_takeD)
  ultimately show ?thesis
    using s(2,3) num unfolding xs_def [symmetric] k_def by (metis subsetD)
qed

text \<open>Fact: the daemon's own load: after a readable sample, the next one reports the task time used since, as
  a share of the wall time, whenever both clocks have advanced, and 0 otherwise; the resident
  size is always that of the latest reading, and an unreadable sample changes nothing.\<close>

theorem self_load_exact:
  "let total = (\<lambda>t. pti_total_user t + pti_total_system t);
       sl = fst (self_sample (Some a) w sl0); (sl', st) = self_sample (Some b) w' sl
   in sf_valid st \<and> sf_rss_bytes st = pti_resident_size b \<and>
      sf_cpu_percent st =
        (if w < w' \<and> unat (total a) \<le> unat (total b)
         then Fin (real (unat (total b) - unat (total a)) / real_of_int (w' - w) * 100) else Fin 0) \<and>
      fst (self_sample None w'' sl') = sl' \<and> \<not> sf_valid (snd (self_sample None w'' sl')) \<and>
      sf_cpu_percent (snd (self_sample (Some a) w new_SelfSampler)) = Fin 0"
  by (simp add: self_sample_def new_SelfSampler_def Let_def word_le_nat_alt unat_diff64)

subsection \<open>Witnesses\<close>

definition ticks :: "u32 \<Rightarrow> u32 \<Rightarrow> u32 \<Rightarrow> u32 \<Rightarrow> cpu_ticks" where
  "ticks u s i n = \<lparr>tk_user = u, tk_system = s, tk_idle = i, tk_nice = n\<rparr>"


theorem cpu_counter_wrap_spikes_witness:
  "\<exists>x. snd (cpu_sample (Some (ticks 4 50 500 0)) (fst (cpu_sample (Some (ticks 4294967290 50 100 0)) new_CpuSampler))) =
     Fin x \<and> 99.99 \<le> x"
  by (rule cpu_counter_wrap_spikes) (simp_all add: ticks_def)

theorem gauges_in_range_witness:
  "unat (ms_used_bytes (sample_memory (Some 1000000) (Some 4096)
     (Some \<lparr>vm_active_count = 10, vm_wire_count = 5, vm_compressor_page_count = 1\<rparr>))) = 65536"
  using gauges_in_range [of "Some 1000000" "Some 4096"
      "Some \<lparr>vm_active_count = 10, vm_wire_count = 5, vm_compressor_page_count = 1\<rparr>" None]
  by (simp add: sample_memory_def Let_def)

text \<open>One way to sort: the whole list, by load and then memory, largest first.\<close>

fun fin_val :: "double \<Rightarrow> real" where
  "fin_val (Fin x) = x"
| "fin_val _ = 0"

definition full_sort :: "nat \<Rightarrow> ProcInfo list \<Rightarrow> ProcInfo list" where
  "full_sort k xs = rev (sort_key (\<lambda>p. (fin_val (pi_cpu_percent p), pi_rss_bytes p)) xs)"

lemma full_sort_sorts: "partial_sorts full_sort"
proof -
  let ?key = "\<lambda>p. (fin_val (pi_cpu_percent p), pi_rss_bytes p)"
  have "sorted_wrt (\<lambda>a b. \<not> proc_before b a) (full_sort k xs)" if "\<forall>p \<in> set xs. \<exists>x. pi_cpu_percent p = Fin x" for k xs
  proof -
    have srt: "sorted_wrt (\<lambda>a b. ?key b \<le> ?key a) (full_sort k xs)"
      using sorted_sort_key [of ?key xs] by (simp add: full_sort_def sorted_wrt_rev sorted_wrt_map)
    show ?thesis
    proof (rule sorted_wrt_mono_rel [OF _ srt])
      fix a b
      assume "a \<in> set (full_sort k xs)" "b \<in> set (full_sort k xs)" and le: "?key b \<le> ?key a"
      then have "a \<in> set xs" "b \<in> set xs" by (simp_all add: full_sort_def)
      with that obtain x y where xy: "pi_cpu_percent a = Fin x" "pi_cpu_percent b = Fin y" by blast
      from le show "\<not> proc_before b a"
        by (auto simp: proc_before_def dbl_eq_def less_eq_prod_def xy)
    qed
  qed
  then have "sorted_wrt (\<lambda>a b. \<not> proc_before b a) (take k (full_sort k xs) @ drop k (full_sort k xs))"
    if "\<forall>p \<in> set xs. \<exists>x. pi_cpu_percent p = Fin x" for k xs
    using that by simp
  then show ?thesis
    unfolding partial_sorts_def sorted_wrt_append by (auto simp: full_sort_def)
qed

definition two_procs :: proc_env where
  "two_procs = \<lparr>pv_needed = 8, pv_got = 12, pv_pids = [7, 0, 9, 0],
     pv_info = (\<lambda>pid. Some \<lparr>pti_total_user = 1, pti_total_system = 2, pti_resident_size = word_of_int pid\<rparr>),
     pv_name = (\<lambda>pid. None), pv_now = 5\<rparr>"

theorem top_processes_are_top_witness:
  "length (snd (top_procs full_sort two_procs 1 new_ProcessSampler)) = 1"
proof -
  obtain ps' procs where t: "top_procs full_sort two_procs 1 new_ProcessSampler = (ps', procs)" by fastforce
  have "length (snd (sample_procs two_procs new_ProcessSampler)) = 2"
    by (simp add: sample_procs_def two_procs_def proc_step_def new_ProcessSampler_def Let_def numeral_3_eq_3 take_Cons')
  then show ?thesis
    using top_processes_are_top [OF full_sort_sorts t] t by (simp add: two_procs_def)
qed

end
