(* ===== verification/Sampler.thy ===== *)
theory Sampler
  imports Metrics Thermal Alert_Engine Database
begin

text \<open>
  The sampler of \<open>daemon/src/main.cpp\<close>: \<open>sampler_loop\<close>, one definition per stretch of its body and
  \<open>sampler_step\<close> for one round of the loop. It reads the collectors of the theory \<open>Metrics\<close>, publishes to
  the shared state, stores the metrics, evaluates the alert rules and hands each event to the
  database, the notifier and the ring of recent alerts. What the system answers during a round is the
  record \<open>round\<close>; the lines it logs are left out (the log itself is the theory \<open>Log\<close>). Times of the steady clock are nanoseconds.
\<close>

section \<open>Data\<close>

record Sampler =
  sm_cpu :: CpuSampler
  sm_procs :: ProcessSampler
  sm_self :: SelfSampler
  sm_engine :: AlertEngine
  sm_next :: int
  sm_reload :: bool
  sm_db :: Database
  sm_state :: SharedState

text \<open>
  What one round meets: the configuration a reload would read, the clocks, the readings, and the
  outcome of each insertion (the metrics and the alerts of the round are numbered from 0).
\<close>

record round =
  ro_config :: "Config cxx"
  ro_steady :: int
  ro_ts :: int
  ro_cpu :: "cpu_ticks option"
  ro_memsize :: "u64 option"
  ro_page_size :: "u64 option"
  ro_vm :: "vm_statistics option"
  ro_disk :: "statfs_data option"
  ro_thermal :: NSThermalState
  ro_procs :: proc_env
  ro_self :: "task_info option"
  ro_self_wall :: int
  ro_metric_rc :: "nat \<Rightarrow> write_rc"
  ro_alert_rc :: "nat \<Rightarrow> write_rc"

text \<open>Fixed surroundings: local time, the two number formats, and \<open>std::partial_sort\<close>.\<close>

record surroundings =
  su_lt :: "int \<Rightarrow> tm"
  su_double :: "double \<Rightarrow> string"
  su_round :: "double \<Rightarrow> string"
  su_sort :: "nat \<Rightarrow> ProcInfo list \<Rightarrow> ProcInfo list"

text \<open>The readings of one round.\<close>

record readings =
  rd_cpu :: double
  rd_mem :: MemorySample
  rd_disk :: DiskSample
  rd_thermal :: ThermalState
  rd_top :: "ProcInfo list"
  rd_self :: SelfStats

section \<open>One round\<close>

definition interval :: int where
  "interval = 5000000000"

definition start_sampler :: "surroundings \<Rightarrow> round \<Rightarrow> Rule list \<Rightarrow> QuietHours \<Rightarrow> Database \<Rightarrow> SharedState \<Rightarrow> Sampler" where
  "start_sampler su r rules quiet db st =
     \<lparr>sm_cpu = fst (cpu_sample (ro_cpu r) new_CpuSampler),
      sm_procs = fst (top_procs (su_sort su) (ro_procs r) 5 new_ProcessSampler),
      sm_self = fst (self_sample (ro_self r) (ro_self_wall r) new_SelfSampler),
      sm_engine = new_engine rules quiet, sm_next = ro_steady r, sm_reload = False,
      sm_db = db, sm_state = st\<rparr>"

text \<open>\<open>SIGHUP\<close>: every exception of the loader is caught and leaves the engine as it is.\<close>

definition reload_config :: "Config cxx \<Rightarrow> Sampler \<Rightarrow> Sampler cxx" where
  "reload_config cfg s =
     (if \<not> sm_reload s then Ret s
      else let s' = s\<lparr>sm_reload := False\<rparr>
           in case cfg of
                Ret c \<Rightarrow> Ret (s'\<lparr>sm_engine := new_engine (cfg_rules c) (cfg_quiet_hours c)\<rparr>)
              | Throw e \<Rightarrow> Ret s'
              | Undefined \<Rightarrow> Undefined
              | Terminate \<Rightarrow> Terminate)"

definition take_readings :: "surroundings \<Rightarrow> round \<Rightarrow> Sampler \<Rightarrow> Sampler \<times> readings" where
  "take_readings su r s =
     (let (cpu, cpu_pct) = cpu_sample (ro_cpu r) (sm_cpu s);
          (procs, tops) = top_procs (su_sort su) (ro_procs r) 5 (sm_procs s);
          (self, self_stats) = self_sample (ro_self r) (ro_self_wall r) (sm_self s)
      in (s\<lparr>sm_cpu := cpu, sm_procs := procs, sm_self := self\<rparr>,
          \<lparr>rd_cpu = cpu_pct, rd_mem = sample_memory (ro_memsize r) (ro_page_size r) (ro_vm r),
           rd_disk = sample_disk (ro_disk r), rd_thermal = sample_thermal_state (ro_thermal r), rd_top = tops,
           rd_self = self_stats\<rparr>))"

definition system_snapshot :: "int \<Rightarrow> readings \<Rightarrow> SystemSnapshot" where
  "system_snapshot ts rd =
     (let sys = default_SystemSnapshot\<lparr>sys_valid := True, sys_sampled_at := ts\<rparr>;
          mem = rd_mem rd; disk = rd_disk rd;
          sys1 = (if ms_valid mem
                  then sys\<lparr>sys_mem_total_bytes := unat (ms_total_bytes mem), sys_mem_used_bytes := unat (ms_used_bytes mem),
                           sys_mem_used_percent := ms_used_percent mem\<rparr>
                  else sys);
          sys2 = (if dk_valid disk
                  then sys1\<lparr>sys_disk_total_bytes := unat (dk_total_bytes disk),
                            sys_disk_available_bytes := unat (dk_available_bytes disk),
                            sys_disk_used_percent := dk_used_percent disk\<rparr>
                  else sys1)
      in sys2\<lparr>sys_thermal_state := thermal_to_string (rd_thermal rd), sys_top_processes := rd_top rd\<rparr>)"

definition publish_readings :: "int \<Rightarrow> readings \<Rightarrow> SharedState \<Rightarrow> SharedState" where
  "publish_readings ts rd st =
     (let st1 = set_cpu (rd_cpu rd) ts st;
          self = rd_self rd;
          st2 = (if sf_valid self then set_self (unat (sf_rss_bytes self)) (sf_cpu_percent self) st1 else st1)
      in set_system (system_snapshot ts rd) st2)"

definition thermal_double :: "ThermalState \<Rightarrow> double" where
  "thermal_double t = Fin (real_of_int (thermal_ordinal t))"

text \<open>The rows the round stores, in order.\<close>

definition metric_rows :: "readings \<Rightarrow> (string \<times> double) list" where
  "metric_rows rd =
     (let mem = rd_mem rd; disk = rd_disk rd; self = rd_self rd
      in [(''system.cpu.percent'', rd_cpu rd)] @
         (if ms_valid mem then [(''system.memory.percent'', ms_used_percent mem)] else []) @
         (if dk_valid disk
          then [(''system.disk.percent'', dk_used_percent disk),
                (''system.disk.available_bytes'', Fin (real (unat (dk_available_bytes disk))))]
          else []) @
         [(''system.thermal.level'', thermal_double (rd_thermal rd))] @
         (if sf_valid self
          then [(''daemon.rss_bytes'', Fin (real (unat (sf_rss_bytes self)))),
                (''daemon.cpu.percent'', sf_cpu_percent self)]
          else []))"

text \<open>The \<open>try\<close> block: the first insertion that fails skips the rest.\<close>

fun insert_metrics :: "(nat \<Rightarrow> write_rc) \<Rightarrow> nat \<Rightarrow> int \<Rightarrow> (string \<times> double) list \<Rightarrow> Database \<Rightarrow> Database" where
  "insert_metrics rc i ts [] db = db"
| "insert_metrics rc i ts ((metric, v) # ms) db =
     (case insert_metric (rc i) ts metric v db of
        (db', Throw e) \<Rightarrow> db'
      | (db', _) \<Rightarrow> insert_metrics rc (Suc i) ts ms db')"

definition metric_map :: "readings \<Rightarrow> MetricMap" where
  "metric_map rd =
     (let mem = rd_mem rd; disk = rd_disk rd;
          m1 = Map.empty(''system.cpu.percent'' \<mapsto> rd_cpu rd);
          m2 = (if ms_valid mem then m1(''system.memory.percent'' \<mapsto> ms_used_percent mem) else m1);
          m3 = (if dk_valid disk
                then m2(''system.disk.percent'' \<mapsto> dk_used_percent disk,
                        ''system.disk.available_gb'' \<mapsto> Fin (real (unat (dk_available_bytes disk)) / 1000000000))
                else m2)
      in m3(''system.thermal_state'' \<mapsto> thermal_double (rd_thermal rd)))"

text \<open>\<open>snprintf\<close> into 128 bytes; the dash is the UTF-8 bytes E2 80 94.\<close>

definition attribution :: "(double \<Rightarrow> string) \<Rightarrow> ProcInfo list \<Rightarrow> string" where
  "attribution fmt tops =
     (case tops of
        [] \<Rightarrow> []
      | p # _ \<Rightarrow> take 127 (c_str (pi_name p) @ '' '' @ [CHR 0xE2, CHR 0x80, CHR 0x94] @ '' '' @
                  fmt (pi_cpu_percent p) @ ''% CPU''))"

definition alert_record :: "AlertEvent \<Rightarrow> AlertRecord" where
  "alert_record e = \<lparr>al_id = 0, al_ts = ev_ts e, al_rule_name = ev_rule_name e, al_severity = ev_severity e,
     al_metric = ev_metric e, al_kind = ev_kind e, al_value = ev_value e, al_threshold = ev_threshold e,
     al_message = ev_message e, al_attribution = ev_attribution e\<rparr>"

definition alert_info :: "AlertEvent \<Rightarrow> AlertInfo" where
  "alert_info e = \<lparr>ai_ts = ev_ts e, ai_rule_name = ev_rule_name e, ai_severity = ev_severity e,
     ai_metric = ev_metric e, ai_kind = ev_kind e, ai_value = ev_value e, ai_threshold = ev_threshold e,
     ai_message = ev_message e, ai_attribution = ev_attribution e, ai_notify = ev_notify e\<rparr>"

text \<open>The title and the text of the notification of an event, if it has one.\<close>

definition event_notification :: "AlertEvent \<Rightarrow> (string \<times> string) list" where
  "event_notification e =
     (if ev_notify e
      then [(''AgentPulse: '' @ ev_rule_name e,
             ev_message e @ (if ev_attribution e \<noteq> [] then CHR 0x0A # ev_attribution e else []))]
      else [])"

fun handle_events :: "(nat \<Rightarrow> write_rc) \<Rightarrow> nat \<Rightarrow> AlertEvent list \<Rightarrow> Database \<times> SharedState \<Rightarrow>
    (Database \<times> SharedState) \<times> (string \<times> string) list" where
  "handle_events rc i [] s = (s, [])"
| "handle_events rc i (e # es) (db, st) =
     (let db' = fst (insert_alert (rc i) (alert_record e) db);
          st' = add_alert kRecentAlerts (alert_info e) st;
          (s', posted) = handle_events rc (Suc i) es (db', st')
      in (s', event_notification e @ posted))"

text \<open>The body of \<open>if (now >= next)\<close>.\<close>

definition sample_once :: "surroundings \<Rightarrow> round \<Rightarrow> Sampler \<Rightarrow> Sampler \<times> (string \<times> string) list" where
  "sample_once su r s =
     (let (s1, rd) = take_readings su r s;
          st = publish_readings (ro_ts r) rd (sm_state s1);
          db = insert_metrics (ro_metric_rc r) 0 (ro_ts r) (metric_rows rd) (sm_db s1);
          (eng, events) = evaluate (su_lt su) (su_double su) (metric_map rd) (ro_ts r)
                            (attribution (su_round su) (rd_top rd)) (sm_engine s1);
          ((db', st'), posted) = handle_events (ro_alert_rc r) 0 events (db, st)
      in (s1\<lparr>sm_engine := eng, sm_db := db', sm_state := st', sm_next := ro_steady r + interval\<rparr>, posted))"

definition sampler_step :: "surroundings \<Rightarrow> round \<Rightarrow> Sampler \<Rightarrow> (Sampler \<times> (string \<times> string) list) cxx" where
  "sampler_step su r s =
     cxx_bind (reload_config (ro_config r) s)
       (\<lambda>s1. Ret (if ro_steady r \<ge> sm_next s1 then sample_once su r s1 else (s1, [])))"

text \<open>The signals: \<open>SIGHUP\<close> asks for a reload.\<close>

definition handle_sighup :: "Sampler \<Rightarrow> Sampler" where
  "handle_sighup s = s\<lparr>sm_reload := True\<rparr>"

text \<open>The loop, over the rounds until \<open>g_stop\<close> is seen.\<close>

fun sampler_loop :: "surroundings \<Rightarrow> round list \<Rightarrow> Sampler \<Rightarrow> (Sampler \<times> (string \<times> string) list) cxx" where
  "sampler_loop su [] s = Ret (s, [])"
| "sampler_loop su (r # rs) s =
     cxx_bind (sampler_step su r s) (\<lambda>(s1, posted).
     cxx_bind (sampler_loop su rs s1) (\<lambda>(s2, posted'). Ret (s2, posted @ posted')))"


section \<open>Lemmas\<close>

lemma handle_events_eq:
  "snd (fst (handle_events rc i es (db, st))) = fold (\<lambda>e. add_alert kRecentAlerts (alert_info e)) es st"
  "snd (handle_events rc i es (db, st)) = concat (map event_notification es)"
  by (induction es arbitrary: i db st) (simp_all add: Let_def split_beta)

lemma handle_events_ring:
  assumes "length (ss_alerts st) \<le> kRecentAlerts"
  shows "ss_alerts (snd (fst (handle_events rc i es (db, st)))) =
    take kRecentAlerts (rev (map alert_info es) @ ss_alerts st)"
  using ring.view_pushes [OF assms, of "map alert_info es"] by (simp add: handle_events_eq fold_map comp_def)

lemma publish_alerts [simp]: "ss_alerts (publish_readings ts rd st) = ss_alerts st"
  by (simp add: publish_readings_def set_cpu_def set_self_def set_system_def Let_def)

lemma take_readings_frame [simp]:
  "sm_engine (fst (take_readings su r s)) = sm_engine s" "sm_state (fst (take_readings su r s)) = sm_state s"
  "sm_db (fst (take_readings su r s)) = sm_db s" "sm_reload (fst (take_readings su r s)) = sm_reload s"
  by (simp_all add: take_readings_def split_beta)

text \<open>What the alert engine is shown in a round.\<close>

definition observe :: "surroundings \<Rightarrow> round \<Rightarrow> Sampler \<Rightarrow> observation" where
  "observe su r s =
     (let rd = snd (take_readings su r s)
      in \<lparr>ob_metrics = metric_map rd, ob_now = ro_ts r, ob_attribution = attribution (su_round su) (rd_top rd)\<rparr>)"

lemma sample_once_effect:
  assumes "length (ss_alerts (sm_state s)) \<le> kRecentAlerts"
    "evaluate (su_lt su) (su_double su) (ob_metrics (observe su r s)) (ob_now (observe su r s))
       (ob_attribution (observe su r s)) (sm_engine s) = (eng, events)"
  shows "sm_engine (fst (sample_once su r s)) = eng"
    "ss_alerts (sm_state (fst (sample_once su r s))) =
       take kRecentAlerts (rev (map alert_info events) @ ss_alerts (sm_state s))"
    "snd (sample_once su r s) = concat (map event_notification events)"
    "sm_reload (fst (sample_once su r s)) = sm_reload s"
    "sm_next (fst (sample_once su r s)) = ro_steady r + interval"
    "sys_sampled_at (ss_system (sm_state (fst (sample_once su r s)))) = ro_ts r"
proof -
  obtain s1 rd where t: "take_readings su r s = (s1, rd)" by fastforce
  then have s1: "sm_engine s1 = sm_engine s" "sm_state s1 = sm_state s" "sm_reload s1 = sm_reload s"
    using take_readings_frame [of su r s] by simp_all
  let ?st = "publish_readings (ro_ts r) rd (sm_state s)"
  let ?db = "insert_metrics (ro_metric_rc r) 0 (ro_ts r) (metric_rows rd) (sm_db s1)"
  obtain db' st' posted where h: "handle_events (ro_alert_rc r) 0 events (?db, ?st) = ((db', st'), posted)"
    by (metis surj_pair)
  have "sample_once su r s =
      (s1\<lparr>sm_engine := eng, sm_db := db', sm_state := st', sm_next := ro_steady r + interval\<rparr>, posted)"
    using assms(2) h by (simp add: sample_once_def observe_def t s1 Let_def)
  moreover have "ss_alerts st' = take kRecentAlerts (rev (map alert_info events) @ ss_alerts (sm_state s))"
    "posted = concat (map event_notification events)"
    "st' = fold (\<lambda>e. add_alert kRecentAlerts (alert_info e)) events ?st"
    using handle_events_ring [of ?st "ro_alert_rc r" 0 events ?db] handle_events_eq [of "ro_alert_rc r" 0 events ?db ?st]
      assms(1) h by simp_all
  moreover have "ss_system (fold (\<lambda>e. add_alert kRecentAlerts (alert_info e)) es st) = ss_system st" for es st
    by (induction es arbitrary: st) simp_all
  ultimately show "sm_engine (fst (sample_once su r s)) = eng"
    "ss_alerts (sm_state (fst (sample_once su r s))) =
       take kRecentAlerts (rev (map alert_info events) @ ss_alerts (sm_state s))"
    "snd (sample_once su r s) = concat (map event_notification events)"
    "sm_reload (fst (sample_once su r s)) = sm_reload s"
    "sm_next (fst (sample_once su r s)) = ro_steady r + interval"
    "sys_sampled_at (ss_system (sm_state (fst (sample_once su r s)))) = ro_ts r"
    by (simp_all add: s1 publish_readings_def set_system_def system_snapshot_def Let_def)
qed

text \<open>The rounds in which the loop samples, and what the engine is shown in them.\<close>

fun due_rounds :: "int \<Rightarrow> round list \<Rightarrow> round list" where
  "due_rounds next [] = []"
| "due_rounds next (r # rs) =
     (if ro_steady r \<ge> next then r # due_rounds (ro_steady r + interval) rs else due_rounds next rs)"

fun observations :: "surroundings \<Rightarrow> round list \<Rightarrow> Sampler \<Rightarrow> observation list" where
  "observations su [] s = []"
| "observations su (r # rs) s =
     (if ro_steady r \<ge> sm_next s then observe su r s # observations su rs (fst (sample_once su r s))
      else observations su rs s)"


lemma sampler_loop_no_reload:
  assumes "\<not> sm_reload s"
  shows "sampler_loop su (r # rs) s =
    (let (s1, posted) = (if ro_steady r \<ge> sm_next s then sample_once su r s else (s, []))
     in cxx_bind (sampler_loop su rs s1) (\<lambda>(s2, posted'). Ret (s2, posted @ posted')))"
  using assms by (simp add: sampler_step_def reload_config_def split_beta)

declare sampler_loop.simps(2) [simp del]

lemma sampler_loop_effect:
  assumes "\<not> sm_reload s" "length (ss_alerts (sm_state s)) \<le> kRecentAlerts"
    "run_engine (su_lt su) (su_double su) (observations su rs s) (sm_engine s) = (eng, events)"
  shows "\<exists>s'. sampler_loop su rs s = Ret (s', concat (map event_notification events)) \<and> sm_engine s' = eng \<and>
    \<not> sm_reload s' \<and> ss_alerts (sm_state s') = take kRecentAlerts (rev (map alert_info events) @ ss_alerts (sm_state s))"
  using assms
proof (induction rs arbitrary: s eng events)
  case Nil
  then show ?case by (simp add: run_engine_def)
next
  case (Cons r rs)
  show ?case
  proof (cases "ro_steady r \<ge> sm_next s")
    case False
    then have "sampler_loop su (r # rs) s = sampler_loop su rs s"
      by (cases "sampler_loop su rs s") (simp_all add: sampler_loop_no_reload [OF Cons.prems(1)] split_beta)
    then show ?thesis using Cons.IH [OF Cons.prems(1,2)] Cons.prems(3) False by simp
  next
    case True
    obtain eng1 ev1 where e1: "evaluate (su_lt su) (su_double su) (ob_metrics (observe su r s)) (ob_now (observe su r s))
       (ob_attribution (observe su r s)) (sm_engine s) = (eng1, ev1)" by fastforce
    note once = sample_once_effect [OF Cons.prems(2) e1]
    let ?s1 = "fst (sample_once su r s)"
    obtain ev2 where e2: "run_engine (su_lt su) (su_double su) (observations su rs ?s1) eng1 = (eng, ev2)"
      and ev: "events = ev1 @ ev2"
      using Cons.prems(3) True e1 by (auto simp: run_engine_def run_steps.simps Let_def split: prod.splits)
    have "\<not> sm_reload ?s1" "length (ss_alerts (sm_state ?s1)) \<le> kRecentAlerts"
      using Cons.prems(1) once by simp_all
    from Cons.IH [OF this] e2 once(1) obtain s' where s': "sampler_loop su rs ?s1 = Ret (s', concat (map event_notification ev2))"
      "sm_engine s' = eng" "\<not> sm_reload s'"
      "ss_alerts (sm_state s') = take kRecentAlerts (rev (map alert_info ev2) @ ss_alerts (sm_state ?s1))"
      by auto
    then show ?thesis
      using True once by (auto simp: sampler_loop_no_reload [OF Cons.prems(1)] split_beta ev take_append min_def)
  qed
qed

lemma sample_once_next [simp]: "sm_next (fst (sample_once su r s)) = ro_steady r + interval"
  by (simp add: sample_once_def Let_def split_beta)

lemma observations_due: "map ob_now (observations su rs s) = map ro_ts (due_rounds (sm_next s) rs)"
  by (induction rs arbitrary: s) (simp_all add: observe_def Let_def)

lemma due_rounds_later: "r \<in> set (due_rounds t rs) \<Longrightarrow> t \<le> ro_steady r"
proof (induction t rs rule: due_rounds.induct)
  case (2 t q rs)
  then show ?case by (fastforce simp: interval_def split: if_splits)
qed simp

lemma due_rounds_spaced: "sorted_wrt (\<lambda>a b. ro_steady a + interval \<le> ro_steady b) (due_rounds t rs)"
  by (induction t rs rule: due_rounds.induct) (auto dest: due_rounds_later)

lemma due_rounds_covers:
  "r \<in> set rs \<Longrightarrow> r \<in> set (due_rounds t rs) \<or> ro_steady r < t \<or>
     (\<exists>d \<in> set (due_rounds t rs). ro_steady r < ro_steady d + interval)"
  by (induction t rs rule: due_rounds.induct) auto

lemma sample_once_db:
  "\<exists>db'. sample_once su (r\<lparr>ro_metric_rc := f, ro_alert_rc := g\<rparr>) s =
     ((fst (sample_once su r s))\<lparr>sm_db := db'\<rparr>, snd (sample_once su r s))"
  by (intro exI [of _ "sm_db (fst (sample_once su (r\<lparr>ro_metric_rc := f, ro_alert_rc := g\<rparr>) s))"])
     (simp add: sample_once_def take_readings_def Let_def split_beta handle_events_eq)

lemma insert_metrics_prefix:
  assumes "\<forall>m \<in> set ms. nul_free (fst m)"
  shows "\<exists>k. map (\<lambda>row. (mt_ts row, mt_metric row, mt_value row)) (db_metrics (insert_metrics rc i ts ms db)) =
       map (\<lambda>row. (mt_ts row, mt_metric row, mt_value row)) (db_metrics db) @
       map (\<lambda>(n, v). (ts, n, v)) (take k ms) \<and>
     ((\<forall>j. \<exists>rowid. rc j = Write_done rowid) \<longrightarrow> k = length ms)"
  using assms
proof (induction ms arbitrary: i db)
  case Nil
  then show ?case by simp
next
  case (Cons m ms)
  obtain n v where m: "m = (n, v)" "nul_free n" using Cons.prems by (cases m) simp
  show ?case
  proof (cases "rc i")
    case (Write_done rowid)
    let ?db = "db_metrics_update (\<lambda>rows. rows @ [\<lparr>mt_id = rowid, mt_ts = ts, mt_metric = n, mt_value = v\<rparr>]) db"
    have "insert_metrics rc i ts (m # ms) db = insert_metrics rc (Suc i) ts ms ?db"
      using m Write_done by (simp add: insert_metric_def write_stmt_def)
    moreover obtain k where "map (\<lambda>row. (mt_ts row, mt_metric row, mt_value row)) (db_metrics (insert_metrics rc (Suc i) ts ms ?db)) =
        map (\<lambda>row. (mt_ts row, mt_metric row, mt_value row)) (db_metrics ?db) @ map (\<lambda>(n, v). (ts, n, v)) (take k ms)"
      "(\<forall>j. \<exists>rowid. rc j = Write_done rowid) \<longrightarrow> k = length ms"
      using Cons.IH [of "Suc i" ?db] Cons.prems by auto
    ultimately show ?thesis using m by (intro exI [of _ "Suc k"]) simp
  qed ((rule exI [of _ 0], use m in \<open>simp add: insert_metric_def write_stmt_def\<close>, metis write_rc.distinct(3,5))+)
qed

section \<open>Properties\<close>


text \<open>Fact: samples are at least five seconds apart on the steady clock, however often the loop turns, and a
  round samples as soon as that time has passed.\<close>

theorem samples_are_spaced:
  "let due = due_rounds (sm_next s) rs
   in map ob_now (observations su rs s) = map ro_ts due \<and>
      sorted_wrt (\<lambda>a b. ro_steady a + interval \<le> ro_steady b) due \<and>
      (\<forall>r \<in> set rs. r \<in> set due \<or> ro_steady r < sm_next s \<or> (\<exists>d \<in> set due. ro_steady r < ro_steady d + interval))"
  unfolding Let_def by (intro conjI ballI observations_due due_rounds_spaced due_rounds_covers)

text \<open>Fact: a failing database costs history and nothing else. Whatever outcome each insertion of metrics and of
  alerts has in a round, the round ends, and the alert engine, the published state, the
  notifications and the time of the next sample are the same.\<close>

theorem database_failures_are_contained:
  "\<exists>db'. sampler_step su (r\<lparr>ro_metric_rc := f, ro_alert_rc := g\<rparr>) s =
     cxx_bind (sampler_step su r s) (\<lambda>(s', posted). Ret (s'\<lparr>sm_db := db'\<rparr>, posted))"
proof (cases "reload_config (ro_config r) s")
  case (Ret s1)
  then show ?thesis
    using sample_once_db [where su = su and r = r and f = f and g = g and s = s1] by (auto simp: sampler_step_def split_beta intro: exI [of _ "sm_db s1"])
qed (simp_all add: sampler_step_def)

text \<open>Fact: a reload replaces the rules only if the new configuration loads: otherwise the engine and all its
  timers are kept; when it loads, the new engine starts from scratch, and the request is
  consumed in both cases.\<close>

theorem reload_is_safe:
  assumes "cfg = Ret c \<or> cfg = Throw e"
  shows "\<exists>s'. reload_config cfg (handle_sighup s) = Ret s' \<and> \<not> sm_reload s' \<and>
    s' = s\<lparr>sm_reload := False, sm_engine := (if cfg = Throw e then sm_engine s else new_engine (cfg_rules c) (cfg_quiet_hours c))\<rparr>"
  using assms by (auto simp: reload_config_def handle_sighup_def)

text \<open>Fact: what is stored is a prefix of the round's metrics, and all of them when no insertion fails; rows
  already there are never touched.\<close>

theorem metrics_stored_in_order:
  "\<exists>k. map (\<lambda>row. (mt_ts row, mt_metric row, mt_value row)) (db_metrics (insert_metrics rc i ts (metric_rows rd) db)) =
       map (\<lambda>row. (mt_ts row, mt_metric row, mt_value row)) (db_metrics db) @
       map (\<lambda>(n, v). (ts, n, v)) (take k (metric_rows rd)) \<and>
     ((\<forall>j. \<exists>rowid. rc j = Write_done rowid) \<longrightarrow> k = length (metric_rows rd))"
  by (rule insert_metrics_prefix)
     (auto simp: metric_rows_def Let_def nul_free_def code_of_def split: if_splits)


subsection \<open>Witnesses\<close>

definition hot_rule :: Rule where
  "hot_rule = default_Rule\<lparr>rule_name := ''hot'', rule_metric := ''system.thermal_state'', rule_condition := AtLeast,
     rule_threshold := Fin 2\<rparr>"

definition plain :: surroundings where
  "plain = \<lparr>su_lt = utc_day, su_double = (\<lambda>_. ''3''), su_round = (\<lambda>_. ''0''), su_sort = full_sort\<rparr>"

definition hot_round :: "int \<Rightarrow> round" where
  "hot_round t = \<lparr>ro_config = Throw ''no file'', ro_steady = t, ro_ts = 100, ro_cpu = None, ro_memsize = None,
     ro_page_size = None, ro_vm = None, ro_disk = None, ro_thermal = NSCritical,
     ro_procs = two_procs\<lparr>pv_got := 0\<rparr>, ro_self = None, ro_self_wall = 0,
     ro_metric_rc = (\<lambda>i. Write_done (int i)), ro_alert_rc = (\<lambda>_. Write_step_error ''disk full'')\<rparr>"

definition idle_sampler :: Sampler where
  "idle_sampler = start_sampler plain (hot_round 0) [hot_rule] \<lparr>qh_enabled = False, qh_start_hour = 0, qh_end_hour = 0\<rparr>
     empty_Database init_SharedState"

lemma plain_fields: "su_lt plain = utc_day" "su_double plain = (\<lambda>_. ''3'')"
  by (simp_all add: plain_def)

lemma idle_fields:
  "\<not> sm_reload idle_sampler" "ss_alerts (sm_state idle_sampler) = []" "sm_next idle_sampler = 0"
  "sm_engine idle_sampler = new_engine [hot_rule] \<lparr>qh_enabled = False, qh_start_hour = 0, qh_end_hour = 0\<rparr>"
  by (simp_all add: idle_sampler_def start_sampler_def init_SharedState_def hot_round_def)

lemma hot_observed:
  "ob_metrics (observe plain (hot_round 0) idle_sampler) ''system.thermal_state'' = Some (Fin 3)"
  "ob_now (observe plain (hot_round 0) idle_sampler) = 100"
  "observations plain [hot_round 0, hot_round 7] idle_sampler = [observe plain (hot_round 0) idle_sampler]"
  by (simp_all add: observe_def metric_map_def thermal_double_def take_readings_def split_beta hot_round_def idle_fields(3)
      interval_def Let_def)

lemma hot_event:
  assumes "metrics ''system.thermal_state'' = Some (Fin 3)"
  shows "\<exists>eng e. evaluate utc_day (\<lambda>_. ''3'') metrics 100 attr (sm_engine idle_sampler) = (eng, [e]) \<and>
    event_notification e = [(''AgentPulse: hot'', ''hot: system.thermal_state = 3 (at_least 3)'')]"
  using assms
  by (simp add: idle_fields(4) new_engine_def evaluate_def in_quiet_hours_def rule_step_def state_of_def init_RuleState_def
      hot_rule_def default_Rule_def dbl_le_def event_notification_def format_message_def Let_def)


theorem samples_are_spaced_witness:
  "map ob_now (observations plain [hot_round 0, hot_round 7] idle_sampler) = [100]"
  using samples_are_spaced [of idle_sampler "[hot_round 0, hot_round 7]" plain]
  by (simp add: Let_def idle_sampler_def start_sampler_def hot_round_def interval_def)

theorem reload_is_safe_witness:
  "\<exists>s'. reload_config (Throw ''bad yaml'') (handle_sighup idle_sampler) = Ret s' \<and> sm_engine s' = sm_engine idle_sampler"
  using reload_is_safe [of "Throw ''bad yaml''" empty_Config "''bad yaml''" idle_sampler] by auto

theorem metrics_stored_in_order_witness:
  "length (db_metrics (insert_metrics (\<lambda>i. Write_done (int i)) 0 100
      (metric_rows (snd (take_readings plain (hot_round 0) idle_sampler))) empty_Database)) = 2"
proof -
  have rows: "length (metric_rows (snd (take_readings plain (hot_round 0) idle_sampler))) = 2"
    by (simp add: metric_rows_def take_readings_def hot_round_def sample_memory_def no_MemorySample_def sample_disk_def
        self_sample_def split_beta)
  obtain k where "map (\<lambda>row. (mt_ts row, mt_metric row, mt_value row)) (db_metrics (insert_metrics (\<lambda>i. Write_done (int i)) 0 100
      (metric_rows (snd (take_readings plain (hot_round 0) idle_sampler))) empty_Database)) =
      map (\<lambda>row. (mt_ts row, mt_metric row, mt_value row)) (db_metrics empty_Database) @
      map (\<lambda>(n, v). (100, n, v)) (take k (metric_rows (snd (take_readings plain (hot_round 0) idle_sampler))))" "k = 2"
    using metrics_stored_in_order [of "\<lambda>i. Write_done (int i)" 0 100 "snd (take_readings plain (hot_round 0) idle_sampler)"
      empty_Database] rows by auto
  from arg_cong [OF this(1), of length] this(2) rows show ?thesis by (simp add: empty_Database_def)
qed

end
