(* ===== verification/Daemon.thy ===== *)
theory Daemon
  imports Api Socket_Server Scheduler_Loop
begin

text \<open>
  The daemon put together the way \<open>main\<close> of \<open>daemon/src/main.cpp\<close> does it: the request API works on
  the scheduler through three call-backs, and the socket server feeds it. The scheduler's
  operations are shown to be what the API expects (\<open>job_control\<close> and \<open>displayed_control\<close>), and the API
  to be what the server expects (\<open>line_service\<close>), so that the theorems of the parts compose.
\<close>

section \<open>Wiring\<close>

text \<open>
  What one request meets: the JSON library, the local time zone, the arguments \<open>main\<close> built the API
  with, the clock and SQLite during the call of a handler, and during a read of the API itself.
\<close>

record daemon_env =
  de_lib :: json_lib
  de_lt :: "int \<Rightarrow> tm"
  de_started_at :: int
  de_db_path :: string
  de_opened :: "unit cxx"
  de_now :: int
  de_rc :: write_rc
  de_request :: request_env

definition daemon_api :: "daemon_env \<Rightarrow> Scheduler Api" where
  "daemon_api e =
     set_remove_job_handler (remove_job (de_rc e))
      (set_add_job_handler (add_job (de_lt e) (de_now e) (de_rc e))
        (set_run_handler request_run
          (new_Api sc_state (de_started_at e) (de_db_path e) (de_opened e) sc_db)))"

text \<open>The handler \<open>main\<close> hands to the socket server.\<close>

definition daemon_handler :: "daemon_env \<Rightarrow> string \<Rightarrow> Scheduler \<Rightarrow> Scheduler \<times> string cxx" where
  "daemon_handler e req s = handle (de_lib e) (daemon_api e) (de_request e) req s"

lemma daemon_api_simps [simp]:
  "api_run_handler (daemon_api e) = Some request_run"
  "api_add_job_handler (daemon_api e) = Some (add_job (de_lt e) (de_now e) (de_rc e))"
  "api_remove_job_handler (daemon_api e) = Some (remove_job (de_rc e))"
  "api_state (daemon_api e) = sc_state"
  "api_db (daemon_api e) = Some db \<Longrightarrow> db = sc_db"
  by (auto simp: daemon_api_def set_run_handler_def set_add_job_handler_def set_remove_job_handler_def new_Api_def
      split: if_splits cxx.splits)

section \<open>The scheduler keeps the contract of the handlers\<close>

lemma add_job_contract:
  assumes "add_job lt now rc j s = (s', err)"
  shows "err \<noteq> [] \<Longrightarrow> s' = s"
    "sched_inv s \<Longrightarrow> err = [] \<Longrightarrow> published (sc_state s') = published (sc_state s) @ [job_name j]"
proof -
  show "s' = s" if "err \<noteq> []"
    by (cases lt now rc j s rule: add_job_cases) (use assms that in auto)
  show "published (sc_state s') = published (sc_state s) @ [job_name j]" if "sched_inv s" "err = []"
    by (cases lt now rc j s rule: add_job_cases)
       (use assms that sched_invD(3) [OF that(1)] in \<open>auto simp: published_def\<close>)
qed

lemma remove_job_contract:
  assumes "remove_job rc n s = (s', err)"
  shows "err \<noteq> [] \<Longrightarrow> s' = s"
    "sched_inv s \<Longrightarrow> err = [] \<Longrightarrow> published (sc_state s') = filter (\<lambda>m. m \<noteq> n) (published (sc_state s))"
proof -
  show "s' = s" if "err \<noteq> []"
    by (cases rc n s rule: remove_job_cases) (use assms that in auto)
  show "published (sc_state s') = filter (\<lambda>m. m \<noteq> n) (published (sc_state s))" if "sched_inv s" "err = []"
    by (cases rc n s rule: remove_job_cases)
       (use assms that sched_invD(3) [OF that(1)] in \<open>auto simp: published_def filter_map comp_def\<close>)
qed

interpretation control: job_control "daemon_api e" request_run "add_job (de_lt e) (de_now e) (de_rc e)"
    "remove_job (de_rc e)" sched_inv
proof unfold_locales
  fix n s s' queued
  assume r: "request_run n s = (s', queued)"
  show "sched_inv s'" if "sched_inv s"
    using r by (auto simp: request_run_def enqueue_def intro!: sched_inv_cong [OF that] split: if_splits)
  show "published (api_state (daemon_api e) s') = published (api_state (daemon_api e) s)"
    using r by (auto simp: request_run_def enqueue_def split: if_splits)
next
  fix j s s' err
  assume r: "add_job (de_lt e) (de_now e) (de_rc e) j s = (s', err)"
  show "s' = s" if "err \<noteq> []" using add_job_contract(1) [OF r that] .
  show "sched_inv s'" if "sched_inv s" "ui_job_ok j" using add_job_inv [OF that] r by (metis fst_conv)
next
  fix n s s' err
  assume r: "remove_job (de_rc e) n s = (s', err)"
  show "s' = s" if "err \<noteq> []" using remove_job_contract(1) [OF r that] .
  show "sched_inv s'" if "sched_inv s" using remove_job_inv [OF that] r by (metis fst_conv)
qed (auto simp: request_run_def add_job_contract remove_job_contract split: if_splits)


section \<open>What the daemon can display\<close>

definition displayable :: "Scheduler \<Rightarrow> bool" where
  "displayable s \<longleftrightarrow> state_utf8 (sc_state s) \<and> runs_utf8 (sc_db s) \<and>
     (\<forall>j \<in> set (sc_jobs s). utf8 (job_name j) \<and> utf8 (job_schedule_expr j) \<and> utf8 (job_source j)) \<and>
     (\<forall>r \<in> ran (sc_last_runs s). utf8 (run_status r) \<and> utf8 (run_trigger r))"

fun write_rc_utf8 :: "write_rc \<Rightarrow> bool" where
  "write_rc_utf8 (Write_prepare_error msg) = utf8 msg"
| "write_rc_utf8 (Write_step_error msg) = utf8 msg"
| "write_rc_utf8 (Write_done i) = True"

lemma job_status_utf8:
  assumes "utf8 (job_name j)" "utf8 (job_schedule_expr j)" "utf8 (job_source j)"
    "\<forall>r \<in> ran (sc_last_runs s). utf8 (run_status r) \<and> utf8 (run_trigger r)"
  shows "json_utf8 (job_to_json (job_status s j))"
  using assms by (auto simp: job_to_json_utf8 job_status_def Let_def default_JobStatus_def ranI split: option.split)

lemma publish_displayable:
  assumes "displayable s" "sc_state s1 = sc_state s" "runs_utf8 (sc_db s1)"
    "\<forall>j \<in> set (sc_jobs s1). utf8 (job_name j) \<and> utf8 (job_schedule_expr j) \<and> utf8 (job_source j)"
    "ran (sc_last_runs s1) \<subseteq> ran (sc_last_runs s)"
  shows "displayable (publish_status s1)"
proof -
  have r: "\<forall>r \<in> ran (sc_last_runs s1). utf8 (run_status r) \<and> utf8 (run_trigger r)"
    using assms(1,5) by (auto simp: displayable_def)
  then have "json_utf8 (job_to_json (job_status s1 j))" if "j \<in> set (sc_jobs s1)" for j
    using assms(4) that by (intro job_status_utf8) auto
  then show ?thesis
    using assms r by (auto simp: displayable_def state_utf8_def publish_status_def set_jobs_def jobs_array_def
        alerts_array_def)
qed

lemma write_stmt_error_utf8:
  "snd (write_stmt what rc f db) = Throw msg \<Longrightarrow> utf8 what \<Longrightarrow> write_rc_utf8 rc \<Longrightarrow> utf8 msg"
  by (cases rc) (auto simp: write_stmt_def intro!: utf8_append)

lemma quoted_utf8 [intro]: "utf8 t \<Longrightarrow> utf8 (quoted t)"
  by (auto simp: quoted_def intro!: utf8_append)

lemma add_job_displayable:
  assumes "add_job lt now rc j s = (s', err)" "displayable s" "write_rc_utf8 rc"
    "utf8 (job_name j)" "utf8 (job_schedule_expr j)"
  shows "displayable s' \<and> utf8 err"
proof (cases lt now rc j s rule: add_job_cases)
  case (rejected msg)
  have "utf8 err"
    using assms rejected
    by (cases rc) (auto simp: add_job_def upsert_job_def_def write_stmt_def Let_def split: if_splits option.splits
        intro!: utf8_append quoted_utf8)
  then show ?thesis using rejected assms by simp
next
  case (added s1)
  have "displayable (publish_status s1)"
    using added assms(2,4,5) by (intro publish_displayable [OF assms(2)]) (auto simp: displayable_def runs_utf8_def)
  then show ?thesis using added assms(1) by simp
qed

lemma remove_job_displayable:
  assumes "remove_job rc n s = (s', err)" "displayable s" "write_rc_utf8 rc" "utf8 n"
  shows "displayable s' \<and> utf8 err"
proof (cases rc n s rule: remove_job_cases)
  case (rejected msg)
  have "utf8 err"
    using assms rejected
    by (cases rc) (auto simp: remove_job_def delete_job_def_def write_stmt_def Let_def split: if_splits option.splits
        intro!: utf8_append quoted_utf8)
  then show ?thesis using rejected assms by simp
next
  case (removed s1 j)
  have "ran (sc_last_runs s1) \<subseteq> ran (sc_last_runs s)" using removed(8) by (auto simp: ran_def split: if_splits)
  then have "displayable (publish_status s1)"
    using removed assms(2) by (intro publish_displayable [OF assms(2)]) (auto simp: displayable_def runs_utf8_def)
  then show ?thesis using removed assms(1) by simp
qed

interpretation shown: displayed_control "daemon_api e" request_run "add_job (de_lt e) (de_now e) (de_rc e)"
    "remove_job (de_rc e)" sched_inv "\<lambda>s. displayable s \<and> write_rc_utf8 (de_rc e)"
proof unfold_locales
  fix n s s' queued
  assume "request_run n s = (s', queued)" "displayable s \<and> write_rc_utf8 (de_rc e)"
  then show "displayable s' \<and> write_rc_utf8 (de_rc e)"
    by (auto simp: request_run_def enqueue_def displayable_def split: if_splits)
qed (auto simp: displayable_def [of s for s] dest: daemon_api_simps(5) add_job_displayable remove_job_displayable)


section \<open>The API keeps the contract of the server\<close>

definition request_ok :: "daemon_env \<Rightarrow> string \<Rightarrow> bool" where
  "request_ok e req \<longleftrightarrow> dump_documented (de_lib e) \<and> request_utf8 (de_lib e) req \<and> clean_body (de_lib e) req \<and>
     (\<forall>body. jl_parse (de_lib e) req = Some body \<longrightarrow> parse (body_str body ''schedule'') \<noteq> Undefined) \<and>
     write_rc_utf8 (de_rc e) \<and> read_rc_utf8 (re_read (de_request e))"

lemma daemon_handler_answers:
  assumes "sched_inv s \<and> displayable s" "request_ok e req"
  shows "\<exists>s' r. daemon_handler e req s = (s', Ret r) \<and> sched_inv s' \<and> displayable s'"
proof -
  let ?respond = "respond (de_lib e) (daemon_api e) (de_request e) req s"
  have "\<exists>a. snd ?respond = Ret a \<and> (accepted a \<or> refused a)"
    using assms(2) parse_no_throw by (intro respond_answer) (metis request_ok_def rangeI no_throw_def)
  then obtain s' a where a: "?respond = (s', Ret a)" by (metis surjective_pairing)
  have "sched_inv s'" using control.respond_inv [of s "de_lib e" req e "de_request e"] a assms
    by (simp add: request_ok_def)
  moreover have u: "json_utf8 a \<and> displayable s'"
    using shown.respond_shown [OF a] assms by (simp add: request_ok_def)
  moreover obtain t where "jl_dump (de_lib e) a = Ret t"
    using dump_documentedD(1) [of "de_lib e" a] u assms(2) by (auto simp: request_ok_def)
  ultimately show ?thesis by (simp add: daemon_handler_def handle_def a)
qed

interpretation service: line_service daemon_handler request_ok "\<lambda>s. sched_inv s \<and> displayable s"
  by unfold_locales (rule daemon_handler_answers)

text \<open>An answer that cannot be serialised ends the process.\<close>

lemma undisplayable_answer_fatal:
  assumes "read_request (cn_reads conn) [] = Request_line req"
    "respond (de_lib (cn_env conn)) (daemon_api (cn_env conn)) (de_request (cn_env conn)) req s = (s', Ret a)"
    "\<not> json_utf8 a" "dump_documented (de_lib (cn_env conn))"
  shows "accept_loop daemon_handler ((True, Accepted conn) # evs) s = (s', [], Loop_died)"
  using dump_documentedD(2) [OF assms(4,3)] assms(1,2)
  by (auto simp: serve_connection_def daemon_handler_def handle_def)

section \<open>Properties\<close>

text \<open>C7: a request that is answered with \<open>ok: false\<close> has no effect: whatever the command and whatever
  went wrong (a malformed body, an unknown or configured job, a failing database), the scheduler,
  its database and the published state are exactly what they were.\<close>

theorem refusal_changes_nothing:
  assumes "respond lib (daemon_api e) env req s = (s', Ret a)" "member ''ok'' a = Some (JBool False)"
  shows "s' = s"
  by (rule control.refusal_keeps [OF assms(1)]) (use assms(2) in \<open>simp add: accepted_def\<close>)

text \<open>The names an answer to \<open>jobs\<close> lists.\<close>

definition listed :: "json \<Rightarrow> string list" where
  "listed a = (case member ''jobs'' a of Some (JArray js) \<Rightarrow> map (\<lambda>j. body_str j ''name'') js | _ \<Rightarrow> [])"

lemma listed_jobs_array [simp]:
  "listed (JObject [(''ok'', ok), (''cmd'', c), (''jobs'', jobs_array st)]) = published st"
  by (simp add: listed_def jobs_array_def published_def body_str_def job_to_json_def)

text \<open>C6: accepted requests take effect and are visible at once. After a request answered \<open>ok: true\<close>,
  the next \<open>jobs\<close> request lists the same jobs in the same order, followed by the new one if the
  request added a job, and without the named one if it removed a job. No other thread acts between the two requests
  here; what a worker that publishes an older snapshot in between does to the list is shown in
  \<open>Threads\<close>.\<close>

theorem accepted_requests_visible:
  assumes "sched_inv s" "respond lib (daemon_api e) env req s = (s', Ret a)" "member ''ok'' a = Some (JBool True)"
    and "rq_cmd (parse_request lib' listing) = ''jobs''"
  shows "\<exists>b. respond lib' (daemon_api e') env' listing s' = (s', Ret b) \<and>
    listed b =
      (let names = map job_name (sc_jobs s); r = parse_request lib req in
       if rq_cmd r = ''add_job'' then names @ [body_str (the (jl_parse lib req)) ''name'']
       else if rq_cmd r = ''remove_job'' then filter (\<lambda>m. m \<noteq> rq_arg r) names
       else names)"
  using control.accepted_lists [OF assms(1,2)] assms(3,4) sched_invD(3) [OF assms(1)]
  by (auto simp: accepted_def respond_def Let_def published_def [of "sc_state s"])

text \<open>C8: the server survives every well-formed request. As long as what the daemon shows and the text of
  the requests is UTF-8, no schedule overflows the cron parser and no name has a NUL byte, any
  number of connections, well behaved or not, is served without an exception leaving the accept
  thread, and the invariant of the scheduler holds afterwards.\<close>

theorem daemon_survives_requests:
  assumes "sched_inv s" "displayable s" "\<forall>conn \<in> set (connections evs). conn_ok request_ok conn"
    and "accept_loop daemon_handler evs s = (s', out, e)"
  shows "e \<noteq> Loop_died \<and> sched_inv s' \<and> displayable s'"
  using service.survives [OF _ assms(3,4)] assms(1,2) by simp



text \<open>C40: the output of a job can end the daemon. If the last line a failed job wrote to its standard error,
  cut to 160 bytes, is not valid UTF-8 (a valid line can be cut inside a character), the alert
  that is raised for it makes the next \<open>alerts\<close> request terminate the process.\<close>

theorem failed_job_terminates_daemon:
  assumes "worker tries True ae job trigger s = Ret (Some (s', ns))"
    "worker_attempts job trigger (job_retries job + 1) 1 tries default_RunResult s = Some (s1, res)"
    "rr_status res \<noteq> Success" "\<not> utf8 (stderr_detail (rr_stderr_text res))"
    and "dump_documented (de_lib (cn_env conn))" "jl_parse (de_lib (cn_env conn)) ''alerts'' = None"
    "cn_reads conn = [Got_bytes (''alerts'' @ [newline])]"
  shows "accept_loop daemon_handler ((True, Accepted conn) # evs) s' = (s', [], Loop_died)"
proof (rule undisplayable_answer_fatal)
  show "read_request (cn_reads conn) [] = Request_line ''alerts''"
    by (simp add: assms(7) kMaxRequestBytes_def)
  have "ws_tokens ''alerts'' = [''alerts'']"
    using ws_tokens_word [of "''alerts''" "[]"] by (simp add: isspace_def code_of_def)
  then show "respond (de_lib (cn_env conn)) (daemon_api (cn_env conn)) (de_request (cn_env conn)) ''alerts'' s' =
      (s', Ret (JObject [(''ok'', JBool True), (''cmd'', JString ''alerts''),
                         (''alerts'', alerts_array (sc_state s'))]))"
    by (simp add: respond_def parse_request_def assms(6))
  have "\<exists>a rest. ss_alerts (sc_state s') = a # rest \<and> ai_attribution a = stderr_detail (rr_stderr_text res)"
    using assms(1-3) by (auto simp: worker_def Let_def emit_alert_def add_alert_def kRecentAlerts_def mark_done_def
        finish_tasks_def split: if_splits)
  then show "\<not> json_utf8 (JObject [(''ok'', JBool True), (''cmd'', JString ''alerts''),
      (''alerts'', alerts_array (sc_state s'))])"
    using assms(4) by (auto simp: alerts_array_def alert_to_json_def)
qed (fact assms(5))


subsection \<open>Witnesses\<close>

text \<open>A library that knows one document and serialises as documented.\<close>

definition doc_lib :: json_lib where
  "doc_lib = \<lparr>jl_parse = (\<lambda>line. if line = ''add'' then Some (JObject [(''cmd'', JString ''add_job''),
       (''name'', JString ''backup''), (''command'', JString ''make'')]) else None),
     jl_dump = (\<lambda>a. if json_utf8 a then Ret ''{}'' else Throw ''invalid UTF-8''),
     jl_int = (\<lambda>_. 0), jl_long = (\<lambda>_. 0)\<rparr>"

definition doc_request :: request_env where
  "doc_request = \<lparr>re_now = 1000, re_read = Read_complete, re_by_ts = (\<lambda>rows. rows)\<rparr>"

definition doc_env :: daemon_env where
  "doc_env = \<lparr>de_lib = doc_lib, de_lt = utc_day, de_started_at = 0, de_db_path = ''db'', de_opened = Ret (),
     de_now = 1000, de_rc = Write_done 1, de_request = doc_request\<rparr>"

definition line_conn :: "string \<Rightarrow> daemon_env connection" where
  "line_conn line = \<lparr>cn_reads = [Got_bytes (line @ [newline])], cn_env = doc_env, cn_writes = [Wrote 100]\<rparr>"

lemma doc_lib_documented: "dump_documented doc_lib"
  by (simp add: dump_documented_def doc_lib_def)

lemma fresh_inv: "sched_inv fresh_state"
  using reachable_ok [OF fresh_reachable] by (simp add: sched_ok_def config_job_def default_Job_def)

lemma doc_requests:
  "parse_request doc_lib ''run nosuch'' = \<lparr>rq_cmd = ''run'', rq_arg = ''nosuch'', rq_arg2 = []\<rparr>"
  "parse_request doc_lib ''jobs'' = \<lparr>rq_cmd = ''jobs'', rq_arg = [], rq_arg2 = []\<rparr>"
  "parse_request doc_lib ''ping'' = \<lparr>rq_cmd = ''ping'', rq_arg = [], rq_arg2 = []\<rparr>"
  "parse_request doc_lib ''add'' = \<lparr>rq_cmd = ''add_job'', rq_arg = [], rq_arg2 = []\<rparr>"
  by code_simp+

lemma doc_body:
  "\<exists>body. jl_parse doc_lib ''add'' = Some body \<and> is_object body \<and> body_str body ''name'' = ''backup'' \<and>
     body_str body ''command'' = ''make'' \<and> body_str body ''schedule'' = []"
  by (simp add: doc_lib_def body_str_def)

lemma doc_env_simps [simp]:
  "de_lib doc_env = doc_lib" "de_lt doc_env = utc_day" "de_now doc_env = 1000" "de_rc doc_env = Write_done 1"
  "de_request doc_env = doc_request"
  by (simp_all add: doc_env_def)

theorem refusal_changes_nothing_witness:
  "fst (respond doc_lib (daemon_api doc_env) doc_request ''run nosuch'' fresh_state) = fresh_state"
proof -
  have r: "find_job ''nosuch'' (sc_jobs fresh_state) = None"
    by (simp add: find_job_def fresh_state_def config_job_def default_Job_def)
  obtain s' a where "respond doc_lib (daemon_api doc_env) doc_request ''run nosuch'' fresh_state = (s', Ret a)"
    "member ''ok'' a = Some (JBool False)"
    by (simp add: respond_def doc_requests run_reply_def request_run_def r)
  with refusal_changes_nothing [OF this] show ?thesis by simp
qed

theorem accepted_requests_visible_witness:
  "\<exists>s' b. respond doc_lib (daemon_api doc_env) doc_request ''jobs'' s' = (s', Ret b) \<and>
     listed b = [''report'', ''backup'']"
proof -
  have "job_name job = ''backup'' \<Longrightarrow> job_command job = ''make'' \<Longrightarrow>
      snd (add_job utc_day 1000 (Write_done 1) job fresh_state) = []" for job
    by (simp add: add_job_def find_job_def fresh_state_def config_job_def default_Job_def upsert_job_def_def
        write_stmt_def Let_def)
  moreover obtain body where body: "jl_parse doc_lib ''add'' = Some body" "is_object body"
    "body_str body ''name'' = ''backup''" "body_str body ''command'' = ''make''" "body_str body ''schedule'' = []"
    using doc_body by blast
  ultimately obtain s' a where r: "respond doc_lib (daemon_api doc_env) doc_request ''add'' fresh_state = (s', Ret a)"
    "member ''ok'' a = Some (JBool True)"
    by (simp add: respond_def doc_requests add_job_reply_def split_beta)
  have "sc_jobs fresh_state = [config_job]" by (simp add: fresh_state_def)
  then show ?thesis
    using accepted_requests_visible [OF fresh_inv r, of doc_lib "''jobs''" doc_env doc_request]
    by (auto simp: doc_requests body config_job_def default_Job_def)
qed

theorem daemon_survives_requests_witness:
  "snd (snd (accept_loop daemon_handler [(True, Listen_idle), (True, Accepted (line_conn ''ping''))] fresh_state)) \<noteq>
     Loop_died"
proof -
  let ?evs = "[(True, Listen_idle), (True, Accepted (line_conn ''ping''))]"
  have shown: "displayable fresh_state"
    by (simp add: displayable_def fresh_state_def publish_status_def set_jobs_def state_utf8_def jobs_array_def
        job_to_json_utf8 job_status_def default_JobStatus_def config_job_def default_Job_def alerts_array_def
        init_SharedState_def system_to_json_def default_SystemSnapshot_def runs_utf8_def empty_Database_def)
  have "conn_ok request_ok (line_conn ''ping'')"
    by (simp add: conn_ok_def line_conn_def kMaxRequestBytes_def request_ok_def doc_env_def doc_lib_documented
        request_utf8_def doc_requests clean_body_def doc_request_def)
       (simp add: doc_lib_def)
  then have ok: "\<forall>conn \<in> set (connections ?evs). conn_ok request_ok conn" by simp
  obtain s' out e where "accept_loop daemon_handler ?evs fresh_state = (s', out, e)" by (metis prod_cases3)
  with daemon_survives_requests [OF fresh_inv shown ok this] show ?thesis by simp
qed


text \<open>A valid line of 168 bytes whose 157th byte begins a character.\<close>

definition long_error :: string where
  "long_error = replicate 156 CHR ''x'' @ [CHR 0xC3, CHR 0xA9] @ replicate 10 CHR ''x''"

definition failing_try :: attempt_env where
  "failing_try = \<lparr>at_active = True, at_run = (sample_env
     [\<lparr>pe_elapsed = 0, pe_returned = 5, pe_answer = Poll_ready None (Some (Read_bytes long_error))\<rparr>, eof_poll 9])
       \<lparr>en_wait := Some (Wait_exited 1)\<rparr>, at_rc = Write_done 1\<rparr>"

lemma long_error_cut: "utf8 long_error" "\<not> utf8 (stderr_detail long_error)" "length long_error = 168"
  by code_simp+

lemma failing_run:
  "\<exists>res effs. run_command (at_run failing_try) command 0 = Some (res, effs) \<and> rr_status res \<noteq> Success \<and>
     rr_stderr_text res = long_error"
proof -
  have "long_error \<noteq> []" using long_error_cut(3) by auto
  then show ?thesis by (simp add: failing_try_def sample_run_defs long_error_cut(3))
qed

theorem failed_job_terminates_daemon_witness:
  "\<exists>s'. accept_loop daemon_handler [(True, Accepted (line_conn ''alerts''))] s' = (s', [], Loop_died)"
proof -
  let ?s = fresh_state
  obtain s1 res where run: "worker_attempts config_job ''manual'' (job_retries config_job + 1) 1 [failing_try]
      default_RunResult ?s = Some (s1, res)" "rr_status res \<noteq> Success" "rr_stderr_text res = long_error"
    using failing_run [of "''make''"] by (auto simp: config_job_def default_Job_def failing_try_def Let_def)
  then obtain s' ns where w: "worker [failing_try] True (5, Write_done 1) config_job ''manual'' ?s = Ret (Some (s', ns))"
    by (auto simp: worker_def Let_def config_job_def default_Job_def INT_MAX_def split_beta)
  have "accept_loop daemon_handler [(True, Accepted (line_conn ''alerts''))] s' = (s', [], Loop_died)"
    by (rule failed_job_terminates_daemon [OF w run(1,2)])
       (simp_all add: run(3) long_error_cut line_conn_def doc_lib_documented, simp add: doc_lib_def)
  then show ?thesis by blast
qed

end
