(* ===== verification/Client.thy ===== *)
theory Client
  imports Json Socket_Server
begin

text \<open>
  The paths of \<open>daemon/src/paths.cpp\<close>, the command line client of \<open>cli/src/main.cpp\<close>, and both ends of a request
  together: the client's loops over the socket against those of the server.
\<close>

section \<open>Paths\<close>

text \<open>\<open>operator/\<close> of \<open>std::filesystem::path\<close>.\<close>

definition path_append :: "string \<Rightarrow> string \<Rightarrow> string" where
  "path_append p q =
     (if q \<noteq> [] \<and> hd q = CHR ''/'' then q
      else if p = [] \<or> last p = CHR ''/'' then p @ q
      else p @ ''/'' @ q)"

record Paths =
  pt_data_dir :: string
  pt_config_dir :: string
  pt_log_dir :: string

definition database_path :: "Paths \<Rightarrow> string" where
  "database_path p = path_append (pt_data_dir p) ''agentpulse.db''"

definition socket_path :: "Paths \<Rightarrow> string" where
  "socket_path p = path_append (pt_data_dir p) ''agentpulse.sock''"

definition config_file :: "Paths \<Rightarrow> string" where
  "config_file p = path_append (pt_config_dir p) ''config.yaml''"

definition home_dir :: "string option \<Rightarrow> string cxx" where
  "home_dir home =
     (case home of
        None \<Rightarrow> Throw ''HOME environment variable is not set''
      | Some h \<Rightarrow> if h = [] then Throw ''HOME environment variable is not set'' else Ret h)"

text \<open>\<open>mkdirs d\<close> is the error \<open>create_directories\<close> ends with, if any.\<close>

definition ensure_dir :: "(string \<Rightarrow> string option) \<Rightarrow> string \<Rightarrow> unit cxx" where
  "ensure_dir mkdirs dir =
     (case mkdirs dir of
        None \<Rightarrow> Ret ()
      | Some msg \<Rightarrow> Throw (''failed to create directory '' @ dir @ '': '' @ msg))"

definition resolve_paths :: "string option \<Rightarrow> (string \<Rightarrow> string option) \<Rightarrow> Paths cxx" where
  "resolve_paths home_env mkdirs =
     cxx_bind (home_dir home_env) (\<lambda>home.
       let p = \<lparr>pt_data_dir = path_append (path_append (path_append home ''Library'') ''Application Support'') ''AgentPulse'',
                pt_config_dir = path_append (path_append home ''.config'') ''agentpulse'',
                pt_log_dir = path_append (path_append (path_append home ''Library'') ''Logs'') ''AgentPulse''\<rparr>
       in cxx_bind (ensure_dir mkdirs (pt_data_dir p)) (\<lambda>_.
          cxx_bind (ensure_dir mkdirs (pt_config_dir p)) (\<lambda>_.
          cxx_bind (ensure_dir mkdirs (pt_log_dir p)) (\<lambda>_. Ret p))))"

section \<open>The client\<close>

definition default_socket_path :: "string option \<Rightarrow> string" where
  "default_socket_path home =
     (case home of Some h \<Rightarrow> h | None \<Rightarrow> ''.'') @ ''/Library/Application Support/AgentPulse/agentpulse.sock''"

text \<open>What the system answers: failures with the text of \<open>errno\<close>, and the outcomes of the writes and reads.\<close>

record client_env =
  ce_socket :: "string option"
  ce_connect :: "string option"
  ce_writes :: "sock_write list"
  ce_reads :: "sock_read list"
  ce_errno :: string

text \<open>The loop that reads the response: \<open>None\<close> while it waits. The end of the stream ends it too.\<close>

fun read_response :: "string \<Rightarrow> sock_read list \<Rightarrow> string \<Rightarrow> string cxx option" where
  "read_response err [] response = None"
| "read_response err (r # rs) response =
     (case r of
        Got_eintr \<Rightarrow> read_response err rs response
      | Got_error \<Rightarrow> Some (Throw (''read(): '' @ err))
      | Got_bytes buf \<Rightarrow>
          if buf = [] then Some (Ret response)
          else let response' = response @ buf
               in if newline \<in> set response'
                  then Some (Ret (takeWhile (\<lambda>c. c \<noteq> newline) response'))
                  else read_response err rs response')"

text \<open>The bytes sent, and the response once the function has returned; \<open>room\<close> is the size of \<open>sun_path\<close>.\<close>

definition send_request :: "nat \<Rightarrow> client_env \<Rightarrow> string \<Rightarrow> string \<Rightarrow> string \<times> string cxx option" where
  "send_request room env path command =
     (case ce_socket env of
        Some err \<Rightarrow> ([], Some (Throw (''socket(): '' @ err)))
      | None \<Rightarrow>
          if length path \<ge> room then ([], Some (Throw ''socket path too long''))
          else case ce_connect env of
                 Some err \<Rightarrow> ([], Some (Throw (''connect('' @ path @ ''): '' @ err)))
               | None \<Rightarrow>
                   let (sent, e) = write_response (ce_writes env) (command @ [newline]) 0
                   in (sent, case e of
                               Write_waiting \<Rightarrow> None
                             | Write_abandoned \<Rightarrow> Some (Throw (''write(): '' @ ce_errno env))
                             | Write_complete \<Rightarrow> read_response (ce_errno env) (ce_reads env) []))"

text \<open>\<open>dump2\<close> is \<open>dump(2)\<close> of the JSON library.\<close>

definition print_response :: "json_lib \<Rightarrow> (json \<Rightarrow> string cxx) \<Rightarrow> string \<Rightarrow> string cxx" where
  "print_response lib dump2 response =
     (case jl_parse lib response of
        None \<Rightarrow> Ret (response @ [newline])
      | Some j \<Rightarrow> cxx_bind (dump2 j) (\<lambda>t. Ret (t @ [newline])))"

record options =
  op_socket_path :: string
  op_command :: string
  op_watch :: bool
  op_watch_seconds :: int

datatype arguments = Exit_now nat | Proceed options

text \<open>\<open>std::atoi\<close>: undefined when the value is no \<open>int\<close>.\<close>

definition atoi :: "string \<Rightarrow> int cxx" where
  "atoi s = (case scan_decimal (c_str s) of
       None \<Rightarrow> Ret 0 | Some n \<Rightarrow> if is_int32 n then Ret n else Undefined)"

text \<open>The loop over the arguments.\<close>

fun parse_args :: "string list \<Rightarrow> options \<Rightarrow> arguments cxx" where
  "parse_args [] opts = Ret (Proceed opts)"
| "parse_args (arg # args) opts =
     (if arg = ''--help'' \<or> arg = ''-h'' then Ret (Exit_now 0)
      else if arg = ''--socket''
      then (case args of [] \<Rightarrow> Ret (Exit_now 2) | p # rest \<Rightarrow> parse_args rest (opts\<lparr>op_socket_path := p\<rparr>))
      else if arg = ''--watch''
      then (case args of
              [] \<Rightarrow> parse_args [] (opts\<lparr>op_watch := True\<rparr>)
            | a # rest \<Rightarrow>
                if a \<noteq> [] \<and> isdigit (hd a)
                then cxx_bind (atoi a) (\<lambda>n. parse_args rest
                       (opts\<lparr>op_watch := True, op_watch_seconds := (if n \<le> 0 then 2 else n)\<rparr>))
                else parse_args args (opts\<lparr>op_watch := True\<rparr>))
      else if arg \<noteq> [] \<and> hd arg = CHR ''-'' then Ret (Exit_now 2)
      else parse_args args (opts\<lparr>op_command := arg\<rparr>))"

definition default_options :: "string option \<Rightarrow> options" where
  "default_options home = \<lparr>op_socket_path = default_socket_path home, op_command = ''status'', op_watch = False,
     op_watch_seconds = 2\<rparr>"

text \<open>
  The rest of \<open>main\<close>, over one environment per request: the text printed and the exit code, \<open>None\<close> while
  it is running. In watch mode it ends only with an exception.
\<close>

definition clear_screen :: string where
  "clear_screen = [CHR 0x1B] @ ''[2J'' @ [CHR 0x1B] @ ''[H''"

fun client_loop :: "nat \<Rightarrow> json_lib \<Rightarrow> (json \<Rightarrow> string cxx) \<Rightarrow> options \<Rightarrow> client_env list \<Rightarrow> string \<times> nat option" where
  "client_loop room lib dump2 opts [] = ([], None)"
| "client_loop room lib dump2 opts (env # envs) =
     (let command = (if op_watch opts then ''status'' else op_command opts)
      in case snd (send_request room env (op_socket_path opts) command) of
           None \<Rightarrow> ([], None)
         | Some r \<Rightarrow>
             (case r of
                Ret response \<Rightarrow>
                  let cleared = (if op_watch opts then clear_screen else [])
                  in (case print_response lib dump2 response of
                        Ret t \<Rightarrow>
                          if op_watch opts
                          then let (rest, code) = client_loop room lib dump2 opts envs in (cleared @ t @ rest, code)
                          else (t, Some 0)
                      | _ \<Rightarrow> (cleared, Some 1))
              | _ \<Rightarrow> ([], Some 1)))"


section \<open>Lemmas\<close>

lemma read_response_line:
  assumes "\<forall>r \<in> set rs. healthy_read r" "newline \<in> set (delivered rs)" "newline \<notin> set resp"
  shows "read_response err rs resp = Some (Ret (first_line (resp @ delivered rs)))"
  using assms
proof (induction rs arbitrary: resp)
  case Nil
  then show ?case by simp
next
  case (Cons r rs)
  show ?case
  proof (cases r)
    case (Got_bytes buf)
    then show ?thesis
      using Cons.prems Cons.IH [of "resp @ buf"] first_line_append [of "resp @ buf" "delivered rs"]
      by (cases "newline \<in> set buf") (auto simp: healthy_read_def first_line_def Let_def)
  qed (use Cons in \<open>simp_all add: healthy_read_def\<close>)
qed

lemma first_line_whole: "newline \<notin> set t \<Longrightarrow> first_line (t @ [newline]) = t"
  by (simp add: first_line_prefix) (simp add: first_line_def)

lemma path_append_word [simp]:
  "p \<noteq> [] \<Longrightarrow> last p \<noteq> CHR ''/'' \<Longrightarrow> q \<noteq> [] \<Longrightarrow> hd q \<noteq> CHR ''/'' \<Longrightarrow> path_append p q = p @ ''/'' @ q"
  by (simp add: path_append_def)

section \<open>Properties\<close>

text \<open>C28: a request makes the round trip. A client that sends a command without a newline, shorter than
  64 KiB, to a server whose handler answers with one line, receives exactly that answer, and the
  server's state is the one the handler left; this for every way in which the two streams are cut into
  reads and writes and interrupted, provided that what one end sends is what the other receives.\<close>

theorem request_round_trip:
  assumes "ce_socket env = None" "length path < room" "ce_connect env = None"
    and "newline \<notin> set command" "length command < kMaxRequestBytes"
    and "Write_failed \<notin> set (ce_writes env)" "length command < sum_list (map taken (ce_writes env))"
    and "\<forall>r \<in> set (cn_reads conn). healthy_read r"
    "delivered (cn_reads conn) = fst (send_request room env path command)"
    and "handler (cn_env conn) command s = (s', Ret response)" "newline \<notin> set response"
    and "Write_failed \<notin> set (cn_writes conn)" "length response < sum_list (map taken (cn_writes conn))"
    and "\<forall>r \<in> set (ce_reads env). healthy_read r"
    "serve_connection handler conn s = (s1, Ret (delivered (ce_reads env), True))"
  shows "send_request room env path command = (command @ [newline], Some (Ret response)) \<and> s1 = s'"
proof -
  have "write_response (ce_writes env) (command @ [newline]) 0 = (command @ [newline], Write_complete)"
    using write_response_complete [of "ce_writes env" "command @ [newline]" 0] assms(6,7) by simp
  then have send: "send_request room env path command =
      (command @ [newline], read_response (ce_errno env) (ce_reads env) [])"
    using assms(1-3) by (simp add: send_request_def)
  then have "read_request (cn_reads conn) [] = Request_line command"
    using read_request_line [of "cn_reads conn" "[]"] assms(4,5,8,9) by (simp add: first_line_whole)
  then have "serve_connection handler conn s = (s', Ret (response @ [newline], True))"
    using serve_connection_line [of conn command handler s s' response] assms(10,12,13)
      write_response_complete [of "cn_writes conn" "response @ [newline]" 0] by simp
  then have "delivered (ce_reads env) = response @ [newline]" "s1 = s'" using assms(15) by simp_all
  then show ?thesis
    using send read_response_line [of "ce_reads env" "[]"] assms(11,14) by (simp add: first_line_whole)
qed

text \<open>Fact: client and daemon agree on the socket: with a home directory that is set and has no trailing
  slash, the default path of the client is the path the daemon listens on.\<close>

theorem socket_paths_agree:
  assumes "home \<noteq> []" "last home \<noteq> CHR ''/''" "resolve_paths (Some home) mkdirs = Ret p"
  shows "default_socket_path (Some home) = socket_path p"
  using assms
  by (auto simp: resolve_paths_def home_dir_def ensure_dir_def default_socket_path_def socket_path_def Let_def cxx_simps
      split: option.splits)

subsection \<open>Witnesses\<close>

definition ping_client :: client_env where
  "ping_client = \<lparr>ce_socket = None, ce_connect = None, ce_writes = [Wrote 2, Write_eintr, Wrote 3],
     ce_reads = [Got_bytes ''re: '', Got_eintr, Got_bytes (''ping'' @ [newline])], ce_errno = ''broken pipe''\<rparr>"

definition ping_server :: "unit connection" where
  "ping_server = \<lparr>cn_reads = [Got_bytes ''pi'', Got_bytes (''ng'' @ [newline])], cn_env = (), cn_writes = [Wrote 4, Wrote 5]\<rparr>"

theorem request_round_trip_witness:
  "send_request 104 ping_client ''s.sock'' ''ping'' = (''ping'' @ [newline], Some (Ret ''re: ping''))"
proof -
  have "serve_connection echo ping_server 7 = (8, Ret (delivered (ce_reads ping_client), True))"
    by (simp add: serve_connection_def ping_server_def ping_client_def kMaxRequestBytes_def echo_def)
  from request_round_trip [OF _ _ _ _ _ _ _ _ _ _ _ _ _ _ this, of "''s.sock''" 104 "''ping''" 8 "''re: ping''"]
  show ?thesis
    by (simp add: ping_client_def ping_server_def kMaxRequestBytes_def healthy_read_def echo_def send_request_def)
qed

theorem socket_paths_agree_witness:
  "default_socket_path (Some ''/Users/me'') = ''/Users/me/Library/Application Support/AgentPulse/agentpulse.sock''"
  using socket_paths_agree [of "''/Users/me''" "\<lambda>_. None"]
  by (simp add: resolve_paths_def home_dir_def ensure_dir_def socket_path_def Let_def)

end
