(* ===== verification/Lifecycle.thy ===== *)
theory Lifecycle
  imports Daemon Client
begin

text \<open>
  The beginning and the end of the daemon: the arguments, the start-up order and the exit codes of \<open>main\<close> in
  \<open>daemon/src/main.cpp\<close>, and the sleep monitor of \<open>daemon/src/power/sleep_monitor.cpp\<close> with its thread.
\<close>

section \<open>The sleep monitor\<close>

text \<open>\<open>sp_thread\<close>: \<open>thread_\<close> is joinable; \<open>sp_run_loop\<close>: the run loop has been published.\<close>

record SleepMonitor =
  sp_on_wake :: bool
  sp_running :: bool
  sp_thread :: bool
  sp_run_loop :: bool

definition new_SleepMonitor :: SleepMonitor where
  "new_SleepMonitor = \<lparr>sp_on_wake = False, sp_running = False, sp_thread = False, sp_run_loop = False\<rparr>"

datatype power_message = CanSystemSleep | SystemWillSleep | SystemHasPoweredOn | OtherMessage

text \<open>Whether the change is allowed, and the state after the call-back.\<close>

definition power_callback :: "('s \<Rightarrow> 's) \<Rightarrow> power_message \<Rightarrow> SleepMonitor \<Rightarrow> 's \<Rightarrow> 's \<times> bool" where
  "power_callback on_wake message m s =
     (case message of
        CanSystemSleep \<Rightarrow> (s, True)
      | SystemWillSleep \<Rightarrow> (s, True)
      | SystemHasPoweredOn \<Rightarrow> (if sp_on_wake m then on_wake s else s, False)
      | OtherMessage \<Rightarrow> (s, False))"

definition start_monitor :: "SleepMonitor \<Rightarrow> SleepMonitor cxx" where
  "start_monitor m =
     (if sp_running m then Ret m
      else if sp_thread m then Terminate
      else Ret (m\<lparr>sp_running := True, sp_on_wake := True, sp_thread := True\<rparr>))"

text \<open>The thread until its run loop runs; \<open>registered\<close>: \<open>IORegisterForSystemPower\<close> succeeded.\<close>

definition monitor_thread :: "bool \<Rightarrow> SleepMonitor \<Rightarrow> SleepMonitor" where
  "monitor_thread registered m =
     (if registered then m\<lparr>sp_run_loop := True\<rparr> else m\<lparr>sp_running := False\<rparr>)"

text \<open>\<open>stop\<close>: without a run loop after half a second nothing stops the thread, and \<open>join\<close> waits for it.\<close>

definition stop_monitor :: "SleepMonitor \<Rightarrow> SleepMonitor option" where
  "stop_monitor m =
     (if \<not> sp_running m then Some m
      else if sp_run_loop m
      then Some (m\<lparr>sp_running := False, sp_thread := False, sp_run_loop := False\<rparr>)
      else None)"

text \<open>The destructor: \<open>stop\<close>, then the members; destroying a joinable thread terminates the process.\<close>

definition destroy_monitor :: "SleepMonitor \<Rightarrow> unit cxx option" where
  "destroy_monitor m =
     (case stop_monitor m of
        None \<Rightarrow> None
      | Some m' \<Rightarrow> Some (if sp_thread m' then Terminate else Ret ()))"

section \<open>Start-up\<close>

text \<open>The loop over the arguments: whether it ends the program.\<close>

fun main_args :: "string list \<Rightarrow> bool" where
  "main_args [] = False"
| "main_args (arg # args) =
     (if arg = ''--version'' \<or> arg = ''-v'' then True
      else if arg = ''--help'' \<or> arg = ''-h'' then True
      else main_args args)"

text \<open>
  What the start-up meets: the environment, the outcomes of opening and migrating the database and
  of the scheduler's own connection, the configuration by its path, the clocks, and the socket.
\<close>

record boot_env =
  be_args :: "string list"
  be_home :: "string option"
  be_mkdirs :: "string \<Rightarrow> string option"
  be_db_opened :: "unit cxx"
  be_migrated :: "unit cxx"
  be_load :: "string \<Rightarrow> Config cxx"
  be_sched_opened :: "unit cxx"
  be_defs_rc :: read_rc
  be_runs_rc :: "string \<Rightarrow> read_rc"
  be_now :: int
  be_wall :: int
  be_scan_now :: int
  be_alerts :: "string \<Rightarrow> alert_env"
  be_room :: nat
  be_server :: start_env

record daemon =
  dm_paths :: Paths
  dm_rules :: "Rule list"
  dm_quiet :: QuietHours
  dm_scheduler :: Scheduler
  dm_server :: SocketServer
  dm_posted :: "notification list"

datatype boot_result = Exited nat | Up daemon

text \<open>\<open>try\<close> with a \<open>catch\<close> that logs and returns 1.\<close>

definition or_exit :: "'a cxx \<Rightarrow> ('a \<Rightarrow> boot_result cxx) \<Rightarrow> boot_result cxx" where
  "or_exit r f = (case r of
       Ret x \<Rightarrow> f x | Throw e \<Rightarrow> Ret (Exited 1) | Undefined \<Rightarrow> Undefined | Terminate \<Rightarrow> Terminate)"

definition boot :: "(int \<Rightarrow> tm) \<Rightarrow> boot_env \<Rightarrow> Database \<Rightarrow> boot_result cxx" where
  "boot lt env db =
     (if main_args (be_args env) then Ret (Exited 0)
      else
        or_exit (resolve_paths (be_home env) (be_mkdirs env)) (\<lambda>paths.
        or_exit (cxx_bind (be_db_opened env) (\<lambda>_. be_migrated env)) (\<lambda>_.
        or_exit (be_load env (config_file paths)) (\<lambda>config.
        or_exit (new_Scheduler lt (be_sched_opened env) (be_defs_rc env) (be_runs_rc env) (be_now env)
                   (cfg_jobs config) db init_SharedState) (\<lambda>scheduler.
          let (scheduler', posted) = start lt (be_wall env) (be_scan_now env) (be_alerts env) scheduler;
              (server, _, r) = start_server (be_room env) (be_server env) (socket_path paths) new_SocketServer
          in case r of
               Terminate \<Rightarrow> Terminate
             | Undefined \<Rightarrow> Undefined
             | _ \<Rightarrow> Ret (Up \<lparr>dm_paths = paths, dm_rules = cfg_rules config, dm_quiet = cfg_quiet_hours config,
                           dm_scheduler = scheduler', dm_server = server, dm_posted = posted\<rparr>))))))"

text \<open>After the sampler loop: the server and then the scheduler are stopped, and \<open>main\<close> returns 0.\<close>

definition shutdown :: "daemon \<Rightarrow> daemon \<times> sys_call list" where
  "shutdown d =
     (let (server, calls) = stop_server (dm_server d)
      in (d\<lparr>dm_server := server, dm_scheduler := stop (dm_scheduler d)\<rparr>, calls))"

text \<open>The rest of \<open>main\<close>: the monitor is stopped first and destroyed last; \<open>None\<close> when \<open>stop\<close> waits for ever.\<close>

definition end_main :: "SleepMonitor \<Rightarrow> daemon \<Rightarrow> (daemon \<times> sys_call list \<times> nat cxx) option" where
  "end_main m d =
     (case stop_monitor m of
        None \<Rightarrow> None
      | Some m' \<Rightarrow>
          let (d', calls) = shutdown d
          in Some (d', calls, if sp_thread m' then Terminate else Ret 0))"

section \<open>Properties\<close>

lemma start_server_new:
  "(case snd (snd (start_server room env path new_SocketServer)) of
      Terminate \<Rightarrow> Terminate | Undefined \<Rightarrow> Undefined | _ \<Rightarrow> x) = x"
  by (auto simp: start_server_def new_SocketServer_def Let_def split: option.split)

lemma boot_UpE:
  assumes "boot lt env db = Ret (Up d)"
  obtains config scheduler where "be_load env (config_file (dm_paths d)) = Ret config"
    "resolve_paths (be_home env) (be_mkdirs env) = Ret (dm_paths d)"
    "new_Scheduler lt (be_sched_opened env) (be_defs_rc env) (be_runs_rc env) (be_now env)
       (cfg_jobs config) db init_SharedState = Ret scheduler"
    "dm_scheduler d = fst (start lt (be_wall env) (be_scan_now env) (be_alerts env) scheduler)"
    "dm_rules d = cfg_rules config" "dm_quiet d = cfg_quiet_hours config"
  using assms
  by (auto simp: boot_def or_exit_def Let_def split_beta split: if_splits cxx.splits)

lemma start_active: "sc_active (fst (start lt wall now env s))"
proof -
  have "sc_active (fst (scan_job lt now env j s)) = sc_active s" for j s
    by (auto simp: scan_job_def emit_alert_def enqueue_def Let_def split: option.split)
  then have "sc_active (fst (run_steps (scan_job lt now env) js s)) = sc_active s" for js s
    by (induction js arbitrary: s) simp_all
  then show ?thesis by (simp add: start_def scan_missed_def)
qed

text \<open>Fact: the start-up establishes the scheduler's invariant. Whenever \<open>main\<close> gets as far as its sampler loop, the
  configuration it loaded is valid, the scheduler is active in a state reachable from the configured
  jobs, whose names are distinct and none of which claims to be added at run time, so that everything
  proved of reachable states holds of the running daemon, for any database of saved jobs.\<close>

theorem boot_establishes_invariant:
  assumes "boot lt env db = Ret (Up d)" "be_load env = load_config y file_exists load_file"
    and "be_defs_rc env = Read_complete" "distinct (map def_name (db_job_defs db))"
    "\<forall>def \<in> set (db_job_defs db). saved_def def"
  shows "\<exists>config. load_config y file_exists load_file (config_file (dm_paths d)) = Ret config \<and> wf_config config \<and>
    dm_rules d = cfg_rules config \<and> dm_quiet d = cfg_quiet_hours config \<and>
    reachable lt (cfg_jobs config) (dm_scheduler d) \<and> sc_active (dm_scheduler d) \<and> sched_inv (dm_scheduler d)"
proof -
  obtain config sch where c: "be_load env (config_file (dm_paths d)) = Ret config"
    "new_Scheduler lt (be_sched_opened env) (be_defs_rc env) (be_runs_rc env) (be_now env)
       (cfg_jobs config) db init_SharedState = Ret sch"
    "dm_scheduler d = fst (start lt (be_wall env) (be_scan_now env) (be_alerts env) sch)"
    "dm_rules d = cfg_rules config" "dm_quiet d = cfg_quiet_hours config"
    using assms(1) by (rule boot_UpE)
  have load: "load_config y file_exists load_file (config_file (dm_paths d)) = Ret config" using c(1) assms(2) by simp
  then have wf: "wf_config config" by (rule load_config_wf)
  have "reachable lt (cfg_jobs config) sch" using c(2) assms(3-5) by (auto intro: reach_init)
  then have r: "reachable lt (cfg_jobs config) (dm_scheduler d)"
    unfolding c(3) by (rule reach_step) (rule step_start)
  then have "sched_inv (dm_scheduler d)"
    using reachable_ok [OF r] wf by (auto simp: wf_config_def sched_ok_def)
  then show ?thesis using load wf r c(3-5) by (auto simp: start_active)
qed

text \<open>Fact: a socket that cannot be opened is not fatal: whatever \<open>socket\<close>, \<open>bind\<close> and \<open>listen\<close> answer, the start-up
  ends the same way, with the same scheduler and the same rules.\<close>

theorem socket_failure_not_fatal:
  "\<exists>sv. boot lt (env\<lparr>be_server := se\<rparr>) db =
     cxx_bind (boot lt env db) (\<lambda>b. Ret (case b of Exited n \<Rightarrow> Exited n | Up d \<Rightarrow> Up (d\<lparr>dm_server := sv\<rparr>)))"
  by (intro exI [of _ "case resolve_paths (be_home env) (be_mkdirs env) of
          Ret p \<Rightarrow> fst (start_server (be_room env) se (socket_path p) new_SocketServer) | _ \<Rightarrow> new_SocketServer"])
     (simp add: boot_def or_exit_def Let_def split_beta start_server_new split: cxx.split)

text \<open>Fact: a sleep monitor that registers and is stopped leaves no thread; one whose registration fails is
  not joined by \<open>stop\<close>, and its destructor, at the end of \<open>main\<close>, terminates the process.\<close>

theorem monitor_shutdown:
  "start_monitor new_SleepMonitor = Ret m \<Longrightarrow>
     destroy_monitor (monitor_thread True m) = Some (Ret ()) \<and>
     destroy_monitor (monitor_thread False m) = Some Terminate"
  by (auto simp: start_monitor_def new_SleepMonitor_def destroy_monitor_def monitor_thread_def stop_monitor_def)

text \<open>Fact: an orderly end: with a monitor that registered, \<open>main\<close> returns 0 with the scheduler inactive and no
  worker left; with one that did not, it terminates after all of that has been done.\<close>

theorem main_ends:
  assumes "start_monitor new_SleepMonitor = Ret m" "sc_active (dm_scheduler d)"
  shows "\<exists>d' calls. end_main (monitor_thread True m) d = Some (d', calls, Ret 0) \<and>
    end_main (monitor_thread False m) d = Some (d', calls, Terminate) \<and>
    \<not> sc_active (dm_scheduler d') \<and> sc_running (dm_scheduler d') = Map.empty"
  using assms
  by (auto simp: start_monitor_def new_SleepMonitor_def monitor_thread_def stop_monitor_def end_main_def shutdown_def
      stop_def split_beta)

subsection \<open>Witnesses\<close>

definition first_boot :: boot_env where
  "first_boot = \<lparr>be_args = [''--verbose''], be_home = Some ''/Users/me'', be_mkdirs = (\<lambda>_. None), be_db_opened = Ret (),
     be_migrated = Ret (), be_load = load_config sample_yaml (\<lambda>_. False) (\<lambda>_. Throw ''unreadable''),
     be_sched_opened = Ret (), be_defs_rc = Read_complete, be_runs_rc = (\<lambda>_. Read_complete), be_now = 1000,
     be_wall = 1000, be_scan_now = 1000, be_alerts = (\<lambda>_. (1000, Write_done 1)), be_room = 104,
     be_server = \<lparr>se_socket = Some ''too many open files'', se_bind = None, se_listen = None\<rparr>\<rparr>"

lemma first_boot_up: "\<exists>d. boot utc_day first_boot empty_Database = Ret (Up d)"
  by (simp add: boot_def first_boot_def or_exit_def resolve_paths_def home_dir_def ensure_dir_def load_config_def
      empty_Config_def new_Scheduler_def load_job_defs_def fetch_def empty_Database_def start_server_new Let_def split_beta)

theorem boot_establishes_invariant_witness:
  "\<exists>d. boot utc_day first_boot empty_Database = Ret (Up d) \<and> sched_inv (dm_scheduler d) \<and> sc_active (dm_scheduler d)"
proof -
  obtain d where up: "boot utc_day first_boot empty_Database = Ret (Up d)" using first_boot_up ..
  from boot_establishes_invariant [OF this, of sample_yaml "\<lambda>_. False" "\<lambda>_. Throw ''unreadable''"]
  have "sched_inv (dm_scheduler d) \<and> sc_active (dm_scheduler d)"
    by (auto simp: first_boot_def empty_Database_def)
  with up show ?thesis by blast
qed

theorem main_ends_witness:
  "\<exists>m d d' calls. end_main (monitor_thread True m) d = Some (d', calls, Ret 0) \<and> \<not> sc_active (dm_scheduler d')"
proof -
  obtain d where up: "boot utc_day first_boot empty_Database = Ret (Up d)" using first_boot_up ..
  then have "sc_active (dm_scheduler d)" by (rule boot_UpE) (simp add: start_active)
  moreover obtain m where "start_monitor new_SleepMonitor = Ret m" by (simp add: start_monitor_def new_SleepMonitor_def)
  ultimately show ?thesis using main_ends by blast
qed

theorem monitor_shutdown_witness:
  "\<exists>m. start_monitor new_SleepMonitor = Ret m \<and> destroy_monitor (monitor_thread False m) = Some Terminate"
proof -
  obtain m where "start_monitor new_SleepMonitor = Ret m" by (simp add: start_monitor_def new_SleepMonitor_def)
  with monitor_shutdown [OF this] show ?thesis by blast
qed

end
