(* ===== verification/Log.thy ===== *)
theory Log
  imports Prelude
begin

text \<open>
  The log of \<open>daemon/src/log.hpp\<close> and \<open>log.cpp\<close>: the levels, the global minimum level, and the line
  that \<open>log_write\<close> prints. Both functions hold the mutex for their whole body, so each is one atomic
  function on the minimum level and the bytes written to standard error. The clock and the local time
  are inputs of a call; \<open>strftime\<close> and \<open>fprintf\<close> are modelled for the formats the code uses.
\<close>

section \<open>Levels\<close>

datatype LogLevel = Debug | Info | Warn | Error

primrec level_ordinal :: "LogLevel \<Rightarrow> nat" where
  "level_ordinal Debug = 0"
| "level_ordinal Info = 1"
| "level_ordinal Warn = 2"
| "level_ordinal Error = 3"

instantiation LogLevel :: linorder
begin

definition less_eq_LogLevel :: "LogLevel \<Rightarrow> LogLevel \<Rightarrow> bool" where
  "less_eq_LogLevel a b \<longleftrightarrow> level_ordinal a \<le> level_ordinal b"

definition less_LogLevel :: "LogLevel \<Rightarrow> LogLevel \<Rightarrow> bool" where
  "less_LogLevel a b \<longleftrightarrow> level_ordinal a < level_ordinal b"

instance
proof
  fix a b c :: LogLevel
  show "a < b \<longleftrightarrow> a \<le> b \<and> \<not> b \<le> a" by (auto simp: less_eq_LogLevel_def less_LogLevel_def)
  show "a \<le> a" by (simp add: less_eq_LogLevel_def)
  show "a \<le> b \<Longrightarrow> b \<le> c \<Longrightarrow> a \<le> c" by (simp add: less_eq_LogLevel_def)
  show "a \<le> b \<or> b \<le> a" by (auto simp: less_eq_LogLevel_def)
  show "a \<le> b \<Longrightarrow> b \<le> a \<Longrightarrow> a = b" by (cases a; cases b) (simp_all add: less_eq_LogLevel_def)
qed

end

primrec level_tag :: "LogLevel \<Rightarrow> string" where
  "level_tag Debug = ''DEBUG''"
| "level_tag Info = ''INFO ''"
| "level_tag Warn = ''WARN ''"
| "level_tag Error = ''ERROR''"

section \<open>The line\<close>

text \<open>The members of \<open>std::tm\<close> the stamp shows, and the nanoseconds of the same reading of the clock.\<close>

record log_time =
  lt_year :: int
  lt_mon :: int
  lt_mday :: int
  lt_hour :: int
  lt_min :: int
  lt_sec :: int
  lt_nsec :: int

text \<open>A number padded with zeros to a width, as \<open>%02d\<close> and \<open>%03ld\<close> print it.\<close>

definition zero_pad :: "nat \<Rightarrow> int \<Rightarrow> string" where
  "zero_pad w n =
     (if n < 0 then CHR ''-'' # replicate (w - 1 - length (dec_digits (- n))) CHR ''0'' @ dec_digits (- n)
      else replicate (w - length (dec_digits n)) CHR ''0'' @ dec_digits n)"

text \<open>\<open>strftime\<close> with \<open>%Y-%m-%d %H:%M:%S\<close>.\<close>

definition stamp :: "log_time \<Rightarrow> string" where
  "stamp t = to_string (1900 + lt_year t) @ ''-'' @ zero_pad 2 (1 + lt_mon t) @ ''-'' @ zero_pad 2 (lt_mday t) @ '' '' @
     zero_pad 2 (lt_hour t) @ '':'' @ zero_pad 2 (lt_min t) @ '':'' @ zero_pad 2 (lt_sec t)"

text \<open>\<open>%.*s\<close> with the size converted to \<open>int\<close>: at most that many bytes, up to the first NUL; a
  negative precision is no precision.\<close>

definition precise :: "string \<Rightarrow> string" where
  "precise message =
     (let p = to_int32 (int (length message))
      in if p < 0 then c_str message else take (nat p) (c_str message))"

definition newline_char :: char where
  "newline_char = CHR 0x0A"

definition log_line :: "log_time \<Rightarrow> LogLevel \<Rightarrow> string \<Rightarrow> string" where
  "log_line t level message =
     stamp t @ ''.'' @ zero_pad 3 (lt_nsec t div 1000000) @ '' ['' @ level_tag level @ ''] '' @ precise message @
     [newline_char]"

section \<open>The log\<close>

record log_state =
  lg_min_level :: LogLevel
  lg_stderr :: string

definition init_log :: log_state where
  "init_log = \<lparr>lg_min_level = Info, lg_stderr = []\<rparr>"

definition set_log_level :: "LogLevel \<Rightarrow> log_state \<Rightarrow> log_state" where
  "set_log_level level g = g\<lparr>lg_min_level := level\<rparr>"

definition log_write :: "log_time \<Rightarrow> LogLevel \<Rightarrow> string \<Rightarrow> log_state \<Rightarrow> log_state" where
  "log_write t level message g =
     (if level < lg_min_level g then g else g\<lparr>lg_stderr := lg_stderr g @ log_line t level message\<rparr>)"

definition log_debug :: "log_time \<Rightarrow> string \<Rightarrow> log_state \<Rightarrow> log_state" where
  "log_debug t m = log_write t Debug m"

definition log_info :: "log_time \<Rightarrow> string \<Rightarrow> log_state \<Rightarrow> log_state" where
  "log_info t m = log_write t Info m"

definition log_warn :: "log_time \<Rightarrow> string \<Rightarrow> log_state \<Rightarrow> log_state" where
  "log_warn t m = log_write t Warn m"

definition log_error :: "log_time \<Rightarrow> string \<Rightarrow> log_state \<Rightarrow> log_state" where
  "log_error t m = log_write t Error m"

text \<open>A sequence of calls.\<close>

record log_call =
  lc_time :: log_time
  lc_level :: LogLevel
  lc_message :: string

definition log_all :: "log_call list \<Rightarrow> log_state \<Rightarrow> log_state" where
  "log_all cs g = fold (\<lambda>c. log_write (lc_time c) (lc_level c) (lc_message c)) cs g"

text \<open>Reading a line back: the tag is at bytes 25 to 29, the message begins at byte 32.\<close>

definition read_tag :: "string \<Rightarrow> string" where
  "read_tag line = take 5 (drop 25 line)"

definition read_message :: "string \<Rightarrow> string" where
  "read_message line = drop 32 line"

section \<open>Lemmas\<close>

definition log_time_ok :: "log_time \<Rightarrow> bool" where
  "log_time_ok t \<longleftrightarrow> -900 \<le> lt_year t \<and> lt_year t \<le> 8099 \<and> 0 \<le> lt_mon t \<and> lt_mon t \<le> 11 \<and> 1 \<le> lt_mday t \<and>
     lt_mday t \<le> 31 \<and> 0 \<le> lt_hour t \<and> lt_hour t \<le> 23 \<and> 0 \<le> lt_min t \<and> lt_min t \<le> 59 \<and> 0 \<le> lt_sec t \<and> lt_sec t \<le> 60 \<and>
     0 \<le> lt_nsec t \<and> lt_nsec t < 1000000000"

definition plain_message :: "string \<Rightarrow> bool" where
  "plain_message m \<longleftrightarrow> nul_free m \<and> newline_char \<notin> set m \<and> int (length m) \<le> INT_MAX"

lemma level_tag_length [simp]: "length (level_tag l) = 5"
  by (cases l) simp_all

lemma level_tag_inj: "level_tag a = level_tag b \<longleftrightarrow> a = b"
  by (cases a; cases b) simp_all

lemma dec_digits_step: "10 \<le> n \<Longrightarrow> length (dec_digits n) = Suc (length (dec_digits (n div 10)))"
  by (subst dec_digits.simps) simp

lemma dec_digits_length:
  shows "0 \<le> n \<Longrightarrow> n < 10 \<Longrightarrow> length (dec_digits n) = 1"
    and "10 \<le> n \<Longrightarrow> n < 100 \<Longrightarrow> length (dec_digits n) = 2"
    and "100 \<le> n \<Longrightarrow> n < 1000 \<Longrightarrow> length (dec_digits n) = 3"
    and "1000 \<le> n \<Longrightarrow> n < 10000 \<Longrightarrow> length (dec_digits n) = 4"
proof -
  have one: "0 \<le> k \<Longrightarrow> k < 10 \<Longrightarrow> length (dec_digits k) = 1" for k by (subst dec_digits.simps) simp
  have two: "10 \<le> k \<Longrightarrow> k < 100 \<Longrightarrow> length (dec_digits k) = 2" for k using one [of "k div 10"] dec_digits_step [of k] by simp
  have three: "100 \<le> k \<Longrightarrow> k < 1000 \<Longrightarrow> length (dec_digits k) = 3" for k
    using two [of "k div 10"] dec_digits_step [of k] by simp
  show "0 \<le> n \<Longrightarrow> n < 10 \<Longrightarrow> length (dec_digits n) = 1" by (rule one)
  show "10 \<le> n \<Longrightarrow> n < 100 \<Longrightarrow> length (dec_digits n) = 2" by (rule two)
  show "100 \<le> n \<Longrightarrow> n < 1000 \<Longrightarrow> length (dec_digits n) = 3" by (rule three)
  show "1000 \<le> n \<Longrightarrow> n < 10000 \<Longrightarrow> length (dec_digits n) = 4" using three [of "n div 10"] dec_digits_step [of n] by simp
qed

lemma zero_pad_length:
  assumes "0 \<le> n"
  shows "n < 100 \<Longrightarrow> length (zero_pad 2 n) = 2" "n < 1000 \<Longrightarrow> length (zero_pad 3 n) = 3"
  using assms dec_digits_length [of n] by (cases "n < 10"; cases "n < 100"; simp add: zero_pad_def)+

lemma stamp_length:
  assumes "log_time_ok t"
  shows "length (stamp t) = 19"
  using assms dec_digits_length(4) [of "1900 + lt_year t"] zero_pad_length(1)
  by (simp add: log_time_ok_def stamp_def to_string_def)

lemma precise_id: "nul_free m \<Longrightarrow> int (length m) \<le> INT_MAX \<Longrightarrow> precise m = m"
  by (simp add: precise_def to_int32_id is_int32_def INT_MIN_def Let_def)

lemma isdigit_not_newline: "isdigit c \<Longrightarrow> c \<noteq> newline_char"
  by (auto simp: isdigit_def code_of_def newline_char_def)

lemma dec_digits_no_newline: "0 \<le> n \<Longrightarrow> newline_char \<notin> set (dec_digits n)"
  using dec_digits_props [of n] isdigit_not_newline by blast

lemma zero_pad_no_newline: "newline_char \<notin> set (zero_pad w n)"
  using dec_digits_no_newline [of n] dec_digits_no_newline [of "- n"]
  by (auto simp: zero_pad_def) (auto simp: newline_char_def)

lemma to_string_no_newline: "newline_char \<notin> set (to_string n)"
  using dec_digits_no_newline [of n] dec_digits_no_newline [of "- n"]
  by (auto simp: to_string_def) (auto simp: newline_char_def)

lemma stamp_no_newline: "newline_char \<notin> set (stamp t)"
  using zero_pad_no_newline to_string_no_newline by (auto simp: stamp_def) (auto simp: newline_char_def)

lemma level_tag_no_newline: "newline_char \<notin> set (level_tag l)"
  by (cases l) (auto simp: newline_char_def)

lemma getline_split_line: "d \<notin> set x \<Longrightarrow> getline_split d (x @ d # rest) = x # getline_split d rest"
  proof -
  assume d: "d \<notin> set x"
  then have "\<forall>c \<in> set x. c \<noteq> d" by blast
  then have "takeWhile (\<lambda>c. c \<noteq> d) (x @ d # rest) = x" "dropWhile (\<lambda>c. c \<noteq> d) (x @ d # rest) = d # rest"
    by (simp_all add: takeWhile_stop dropWhile_append)
  then show ?thesis by (subst getline_split.simps) simp
qed

text \<open>What precedes the line feed.\<close>

definition log_text :: "log_time \<Rightarrow> LogLevel \<Rightarrow> string \<Rightarrow> string" where
  "log_text t level message =
     stamp t @ ''.'' @ zero_pad 3 (lt_nsec t div 1000000) @ '' ['' @ level_tag level @ ''] '' @ precise message"

lemma log_line_text: "log_line t level m = log_text t level m @ [newline_char]"
  by (simp add: log_line_def log_text_def)

lemma log_text_fields:
  assumes "log_time_ok t" "plain_message m"
  shows "read_tag (log_text t level m) = level_tag level" "read_message (log_text t level m) = m"
    "newline_char \<notin> set (log_text t level m)"
proof -
  have n: "length (zero_pad 3 (lt_nsec t div 1000000)) = 3"
    using assms(1) by (intro zero_pad_length(2)) (auto simp: log_time_ok_def)
  define pre where "pre = stamp t @ ''.'' @ zero_pad 3 (lt_nsec t div 1000000) @ '' [''"
  have pre: "length pre = 25" using stamp_length [OF assms(1)] n by (simp add: pre_def)
  have tx: "log_text t level m = pre @ level_tag level @ '']'' @ '' '' @ m"
    using assms(2) by (simp add: log_text_def pre_def precise_id plain_message_def)
  show "read_tag (log_text t level m) = level_tag level" by (simp add: read_tag_def tx pre)
  show "read_message (log_text t level m) = m" by (simp add: read_message_def tx pre)
  show "newline_char \<notin> set (log_text t level m)"
    using stamp_no_newline zero_pad_no_newline level_tag_no_newline assms(2)
    by (auto simp: tx pre_def plain_message_def) (auto simp: newline_char_def)
qed

lemma log_all_split:
  assumes "\<forall>c \<in> set cs. log_time_ok (lc_time c) \<and> plain_message (lc_message c)"
  shows "\<exists>new. lg_stderr (log_all cs g) = lg_stderr g @ new \<and> lg_min_level (log_all cs g) = lg_min_level g \<and>
    getline_split newline_char new = map (\<lambda>c. log_text (lc_time c) (lc_level c) (lc_message c))
      (filter (\<lambda>c. lg_min_level g \<le> lc_level c) cs)"
  using assms
proof (induction cs arbitrary: g)
  case Nil
  then show ?case by (simp add: log_all_def)
next
  case (Cons c cs)
  let ?g = "log_write (lc_time c) (lc_level c) (lc_message c) g"
  let ?t = "log_text (lc_time c) (lc_level c) (lc_message c)"
  obtain new where new: "lg_stderr (log_all cs ?g) = lg_stderr ?g @ new" "lg_min_level (log_all cs ?g) = lg_min_level ?g"
    "getline_split newline_char new = map (\<lambda>c. log_text (lc_time c) (lc_level c) (lc_message c))
      (filter (\<lambda>c. lg_min_level ?g \<le> lc_level c) cs)"
    using Cons.IH [of ?g] Cons.prems by auto
  have g: "lg_min_level ?g = lg_min_level g" by (simp add: log_write_def)
  have all: "log_all (c # cs) g = log_all cs ?g" by (simp add: log_all_def)
  show ?case
  proof (cases "lc_level c < lg_min_level g")
    case True
    then show ?thesis using new by (auto simp: all log_write_def)
  next
    case False
    then have e: "lg_stderr (log_all (c # cs) g) = lg_stderr g @ ?t @ newline_char # new"
      using new(1) by (simp add: all log_write_def log_line_text)
    moreover have "newline_char \<notin> set ?t" using Cons.prems by (intro log_text_fields(3)) simp_all
    ultimately show ?thesis
      using False new(2,3) g all by (intro exI [of _ "?t @ newline_char # new"]) (simp add: getline_split_line)
  qed
qed

section \<open>Properties\<close>

text \<open>Fact: the log can be read back. For messages without line feeds and NUL bytes, standard error gets one
  line for each call at or above the minimum level, in order, and the level and the whole
  message can be read from fixed columns of the line.\<close>

theorem log_reads_back:
  assumes "\<forall>c \<in> set cs. log_time_ok (lc_time c) \<and> plain_message (lc_message c)"
  shows "\<exists>new. lg_stderr (log_all cs g) = lg_stderr g @ new \<and>
    map (\<lambda>line. (read_tag line, read_message line)) (getline_split newline_char new) =
      map (\<lambda>c. (level_tag (lc_level c), lc_message c)) (filter (\<lambda>c. lg_min_level g \<le> lc_level c) cs)"
proof -
  obtain new where new: "lg_stderr (log_all cs g) = lg_stderr g @ new"
    "getline_split newline_char new = map (\<lambda>c. log_text (lc_time c) (lc_level c) (lc_message c))
      (filter (\<lambda>c. lg_min_level g \<le> lc_level c) cs)"
    using log_all_split [OF assms, of g] by blast
  have "read_tag (log_text (lc_time c) (lc_level c) (lc_message c)) = level_tag (lc_level c)"
    "read_message (log_text (lc_time c) (lc_level c) (lc_message c)) = lc_message c" if "c \<in> set cs" for c
    using assms that log_text_fields(1,2) by blast+
  then show ?thesis using new by (intro exI [of _ new]) simp
qed

text \<open>Fact: a line feed in a message forges a line. Whatever text follows it stands on a line of its own, in
  the place where a genuine entry would, so a message that quotes a name received from a client
  can show any entry, with any time and level.\<close>

theorem newline_forges_entry:
  assumes "log_time_ok t" "plain_message a" "log_time_ok t'" "plain_message m'" "\<not> level < lg_min_level g"
    "int (length (a @ [newline_char] @ log_text t' level' m')) \<le> INT_MAX" "nul_free (log_text t' level' m')"
  shows "\<exists>new. lg_stderr (log_write t level (a @ [newline_char] @ log_text t' level' m') g) = lg_stderr g @ new \<and>
    map (\<lambda>line. (read_tag line, read_message line)) (getline_split newline_char new) =
      [(level_tag level, a), (level_tag level', m')]"
proof -
  let ?m = "a @ [newline_char] @ log_text t' level' m'"
  have "nul_free ?m"
    using assms(2,7) by (auto simp: plain_message_def nul_free_def) (auto simp: newline_char_def code_of_def)
  then have "precise ?m = ?m" using assms(6) by (rule precise_id)
  then have "log_line t level ?m = log_text t level a @ newline_char # log_text t' level' m' @ newline_char # []"
    using assms(2) by (simp add: log_line_def log_text_def precise_id plain_message_def)
  moreover have "lg_stderr (log_write t level ?m g) = lg_stderr g @ log_line t level ?m"
    using assms(5) by (simp add: log_write_def)
  ultimately show ?thesis
    using log_text_fields [OF assms(1,2)] log_text_fields [OF assms(3,4)]
    by (intro exI [of _ "log_line t level ?m"]) (simp add: getline_split_line)
qed

subsection \<open>Witnesses\<close>

definition noon :: log_time where
  "noon = \<lparr>lt_year = 125, lt_mon = 5, lt_mday = 7, lt_hour = 12, lt_min = 0, lt_sec = 3, lt_nsec = 45000000\<rparr>"

definition sample_calls :: "log_call list" where
  "sample_calls = [\<lparr>lc_time = noon, lc_level = Debug, lc_message = ''tick''\<rparr>,
     \<lparr>lc_time = noon, lc_level = Warn, lc_message = ''disk low''\<rparr>]"

lemma noon_line: "log_line noon Info ''ready'' = ''2025-06-07 12:00:03.045 [INFO ] ready'' @ [newline_char]"
  by code_simp

lemma noon_ok [simp]: "log_time_ok noon"
  by (simp add: log_time_ok_def noon_def)

lemma plain_words [simp]: "plain_message ''tick''" "plain_message ''disk low''" "plain_message ''x''" "plain_message ''ready''"
  by code_simp+

theorem log_reads_back_witness:
  "\<exists>new. lg_stderr (log_all sample_calls init_log) = new \<and>
     map (\<lambda>line. (read_tag line, read_message line)) (getline_split newline_char new) = [(''WARN '', ''disk low'')]"
  using log_reads_back [of sample_calls init_log]
  by (simp add: sample_calls_def init_log_def less_eq_LogLevel_def)

theorem newline_forges_entry_witness:
  "\<exists>new. lg_stderr (log_write noon Info (''x'' @ [newline_char] @ log_text noon Error ''ready'') init_log) = new \<and>
     map (\<lambda>line. (read_tag line, read_message line)) (getline_split newline_char new) =
       [(''INFO '', ''x''), (''ERROR'', ''ready'')]"
proof -
  have "nul_free (log_text noon Error ''ready'')" "int (length (''x'' @ [newline_char] @ log_text noon Error ''ready'')) \<le> INT_MAX"
    by code_simp+
  then show ?thesis
    using newline_forges_entry [of noon "''x''" noon "''ready''" Info init_log Error]
    by (simp add: init_log_def less_LogLevel_def)
qed

end
