(* ===== verification/Connection.thy ===== *)
theory Connection
  imports Database
begin

text \<open>
  The part of \<open>daemon/src/db.cpp\<close> around the statements: who owns a SQLite connection
  (constructor, destructor and the two move operations of the class \<open>Database\<close>), and the schema
  that \<open>migrate\<close> applies. SQLite is a parameter: the answers of \<open>sqlite3_open\<close> and
  \<open>sqlite3_exec\<close> are arguments, and a connection is a number that \<open>sqlite3_open\<close> hands out.
  Closing a connection that is not open is undefined behaviour.
\<close>

section \<open>Ownership of connections\<close>

text \<open>\<open>cn_open\<close>: the connections SQLite has handed out and not closed. \<open>cn_objs\<close>: the member \<open>db_\<close> of
  every live object of class \<open>Database\<close>, by address; the inner \<open>None\<close> is \<open>nullptr\<close>.\<close>

record connections =
  cn_open :: "nat list"
  cn_objs :: "nat \<Rightarrow> nat option option"

text \<open>What SQLite answers to a constructor: the connection stored by \<open>sqlite3_open\<close> (none when it
  runs out of memory), the error message unless it returned \<open>SQLITE_OK\<close>, and the outcome of the
  three \<open>PRAGMA\<close> statements.\<close>

record open_answer =
  oa_handle :: "nat option"
  oa_error :: "string option"
  oa_journal :: "string option option"
  oa_synchronous :: "string option option"
  oa_foreign_keys :: "string option option"

definition sqlite3_close :: "nat option \<Rightarrow> connections \<Rightarrow> connections cxx" where
  "sqlite3_close h s =
     (case h of
        None \<Rightarrow> Ret s
      | Some k \<Rightarrow> if k \<in> set (cn_open s) then Ret (s\<lparr>cn_open := remove1 k (cn_open s)\<rparr>) else Undefined)"

definition sqlite3_open :: "open_answer \<Rightarrow> connections \<Rightarrow> connections" where
  "sqlite3_open ans s =
     (case oa_handle ans of None \<Rightarrow> s | Some k \<Rightarrow> s\<lparr>cn_open := k # cn_open s\<rparr>)"

definition pragmas :: "open_answer \<Rightarrow> unit cxx" where
  "pragmas ans =
     cxx_bind (exec_or_throw (oa_journal ans)) (\<lambda>_.
     cxx_bind (exec_or_throw (oa_synchronous ans)) (\<lambda>_.
     exec_or_throw (oa_foreign_keys ans)))"

text \<open>The constructor. An exception that leaves its body leaves no object behind: the destructor
  does not run.\<close>

definition construct :: "nat \<Rightarrow> open_answer \<Rightarrow> connections \<Rightarrow> connections \<times> unit cxx" where
  "construct this ans s =
     (let s1 = sqlite3_open ans s in
      case oa_error ans of
        Some msg \<Rightarrow>
          (case sqlite3_close (oa_handle ans) s1 of
             Ret s2 \<Rightarrow> (s2, Throw (''cannot open database: '' @
                 (case oa_handle ans of Some _ \<Rightarrow> msg | None \<Rightarrow> ''out of memory'')))
           | _ \<Rightarrow> (s1, Undefined))
      | None \<Rightarrow>
          (case pragmas ans of
             Ret _ \<Rightarrow> (s1\<lparr>cn_objs := (cn_objs s1)(this \<mapsto> oa_handle ans)\<rparr>, Ret ())
           | r \<Rightarrow> (s1, r)))"

definition destroy :: "nat \<Rightarrow> connections \<Rightarrow> connections \<times> unit cxx" where
  "destroy this s =
     (case cn_objs s this of
        None \<Rightarrow> (s, Undefined)
      | Some h \<Rightarrow>
          (case sqlite3_close h s of
             Ret s1 \<Rightarrow> (s1\<lparr>cn_objs := (cn_objs s1)(this := None)\<rparr>, Ret ())
           | _ \<Rightarrow> (s, Undefined)))"

definition move_construct :: "nat \<Rightarrow> nat \<Rightarrow> connections \<Rightarrow> connections \<times> unit cxx" where
  "move_construct this other s =
     (case cn_objs s other of
        None \<Rightarrow> (s, Undefined)
      | Some h \<Rightarrow> (s\<lparr>cn_objs := (cn_objs s)(this \<mapsto> h, other \<mapsto> None)\<rparr>, Ret ()))"

definition move_assign :: "nat \<Rightarrow> nat \<Rightarrow> connections \<Rightarrow> connections \<times> unit cxx" where
  "move_assign this other s =
     (case (cn_objs s this, cn_objs s other) of
        (Some h, Some h') \<Rightarrow>
          if this = other then (s, Ret ())
          else (case sqlite3_close h s of
                  Ret s1 \<Rightarrow> (s1\<lparr>cn_objs := (cn_objs s1)(this \<mapsto> h', other \<mapsto> None)\<rparr>, Ret ())
                | _ \<Rightarrow> (s, Undefined))
      | _ \<Rightarrow> (s, Undefined))"

text \<open>A use of the class, and when a program may make it: an object is constructed where none
  lives and used or destroyed only while it lives, and \<open>sqlite3_open\<close> hands out a new connection,
  and hands one out when it succeeds.\<close>

datatype conn_op =
    Construct nat open_answer
  | Destroy nat
  | Move_construct nat nat
  | Move_assign nat nat

fun conn_exec :: "conn_op \<Rightarrow> connections \<Rightarrow> connections \<times> unit cxx" where
  "conn_exec (Construct a ans) s = construct a ans s"
| "conn_exec (Destroy a) s = destroy a s"
| "conn_exec (Move_construct a b) s = move_construct a b s"
| "conn_exec (Move_assign a b) s = move_assign a b s"

fun admissible :: "conn_op \<Rightarrow> connections \<Rightarrow> bool" where
  "admissible (Construct a ans) s \<longleftrightarrow> cn_objs s a = None \<and>
     (case oa_handle ans of None \<Rightarrow> oa_error ans \<noteq> None | Some k \<Rightarrow> k \<notin> set (cn_open s))"
| "admissible (Destroy a) s \<longleftrightarrow> cn_objs s a \<noteq> None"
| "admissible (Move_construct a b) s \<longleftrightarrow> cn_objs s a = None \<and> cn_objs s b \<noteq> None"
| "admissible (Move_assign a b) s \<longleftrightarrow> cn_objs s a \<noteq> None \<and> cn_objs s b \<noteq> None"

text \<open>The connection a constructor leaves open although it throws.\<close>

fun leak :: "conn_op \<Rightarrow> nat set" where
  "leak (Construct a ans) =
     (if oa_error ans = None \<and> pragmas ans \<noteq> Ret () then set_option (oa_handle ans) else {})"
| "leak _ = {}"

definition no_connections :: connections where
  "no_connections = \<lparr>cn_open = [], cn_objs = Map.empty\<rparr>"

inductive conn_run :: "conn_op list \<Rightarrow> connections \<Rightarrow> bool" where
  conn_init: "conn_run [] no_connections"
| conn_next: "conn_run ops s \<Longrightarrow> admissible op s \<Longrightarrow> conn_exec op s = (s', r) \<Longrightarrow> conn_run (ops @ [op]) s'"

inductive_cases conn_run_snocE: "conn_run (ops @ [op]) s'"

subsection \<open>The invariant\<close>

definition held :: "(nat \<Rightarrow> nat option option) \<Rightarrow> nat set" where
  "held m = {k. \<exists>a. m a = Some (Some k)}"

definition held_once :: "(nat \<Rightarrow> nat option option) \<Rightarrow> bool" where
  "held_once m \<longleftrightarrow> (\<forall>a b k. m a = Some (Some k) \<longrightarrow> m b = Some (Some k) \<longrightarrow> a = b)"

abbreviation owned :: "connections \<Rightarrow> nat set" where
  "owned s \<equiv> held (cn_objs s)"

definition conn_inv :: "nat set \<Rightarrow> connections \<Rightarrow> bool" where
  "conn_inv L s \<longleftrightarrow> distinct (cn_open s) \<and> set (cn_open s) = owned s \<union> L \<and> owned s \<inter> L = {} \<and>
     held_once (cn_objs s)"

lemma held_upd: "k \<in> held (m(a := v)) \<longleftrightarrow> v = Some (Some k) \<or> (\<exists>x. x \<noteq> a \<and> m x = Some (Some k))"
  unfolding held_def mem_Collect_eq by (metis fun_upd_apply)

lemma held_new: "m a = None \<Longrightarrow> held (m(a \<mapsto> h)) = set_option h \<union> held m"
  by (rule set_eqI, simp only: held_upd) (cases h; force simp: held_def)

lemma held_once_new: "m a = None \<Longrightarrow> held_once m \<Longrightarrow> set_option h \<inter> held m = {} \<Longrightarrow> held_once (m(a \<mapsto> h))"
  by (auto simp: held_def held_once_def)

lemma held_clear: "held_once m \<Longrightarrow> m a = Some h \<Longrightarrow> held (m(a := None)) = held m - set_option h"
  by (rule set_eqI, simp only: held_upd) (force simp: held_def held_once_def)

lemma held_once_clear: "held_once m \<Longrightarrow> held_once (m(a := None))"
  by (simp add: held_once_def)

lemma held_move:
  assumes "m a = None" "m b = Some h" "held_once m"
  shows "held (m(a \<mapsto> h, b \<mapsto> None)) = held m" "held_once (m(a \<mapsto> h, b \<mapsto> None))"
proof -
  have "k \<in> held (m(a \<mapsto> h, b \<mapsto> None)) \<longleftrightarrow> k \<in> held m" for k
  proof -
    have "k \<in> held (m(a \<mapsto> h, b \<mapsto> None)) \<longleftrightarrow> h = Some k \<or> (\<exists>x. x \<noteq> b \<and> m x = Some (Some k))"
      using assms(1,2) by (simp only: held_upd) force
    also have "\<dots> \<longleftrightarrow> k \<in> held m" using assms(2) unfolding held_def mem_Collect_eq by (metis option.inject)
    finally show ?thesis .
  qed
  then show "held (m(a \<mapsto> h, b \<mapsto> None)) = held m" by blast
  show "held_once (m(a \<mapsto> h, b \<mapsto> None))" using assms by (auto simp: held_once_def)
qed

lemma pragmas_cases: "pragmas ans = Ret () \<or> (\<exists>e. pragmas ans = Throw e)"
  by (auto simp: pragmas_def exec_or_throw_def split: option.split)

text \<open>The outcome of the constructor is the one the components that open a database see.\<close>

lemma construct_outcome:
  assumes "admissible (Construct a ans) s"
  shows "snd (construct a ans s) =
    open_database (map_option (\<lambda>m. map_option (\<lambda>_. m) (oa_handle ans)) (oa_error ans))
      (oa_journal ans) (oa_synchronous ans) (oa_foreign_keys ans)"
  using assms pragmas_cases [of ans]
  by (auto simp: construct_def open_database_def sqlite3_open_def sqlite3_close_def Let_def pragmas_def
      split: option.splits)

lemma close_owned:
  assumes "conn_inv L s" "cn_objs s a = Some h"
  shows "\<exists>s1. sqlite3_close h s = Ret s1 \<and> cn_objs s1 = cn_objs s \<and> distinct (cn_open s1) \<and>
    set (cn_open s1) = held ((cn_objs s)(a := None)) \<union> L"
  using assms held_clear [of "cn_objs s" a h]
  by (cases h) (auto simp: sqlite3_close_def conn_inv_def held_def)

lemma construct_inv:
  assumes "conn_inv L s" "admissible (Construct a ans) s"
  shows "conn_inv (L \<union> leak (Construct a ans)) (fst (construct a ans s)) \<and> snd (construct a ans s) \<noteq> Undefined"
  using assms pragmas_cases [of ans]
  by (auto simp: construct_def sqlite3_open_def sqlite3_close_def conn_inv_def Let_def held_new held_once_new
      split: option.splits if_splits)

lemma destroy_inv:
  assumes "conn_inv L s" "cn_objs s a = Some h"
  shows "conn_inv L (fst (destroy a s)) \<and> snd (destroy a s) \<noteq> Undefined"
proof -
  have "held ((cn_objs s)(a := None)) \<inter> L = {}" "held_once ((cn_objs s)(a := None))"
    using assms held_clear [of "cn_objs s" a h] held_once_clear [of "cn_objs s" a] by (auto simp: conn_inv_def)
  then show ?thesis
    using close_owned [OF assms] assms(2) by (auto simp: destroy_def conn_inv_def)
qed

lemma move_construct_inv:
  assumes "conn_inv L s" "cn_objs s a = None" "cn_objs s b = Some h"
  shows "conn_inv L (fst (move_construct a b s)) \<and> snd (move_construct a b s) \<noteq> Undefined"
  using assms held_move [of "cn_objs s" a b h] by (simp add: move_construct_def conn_inv_def)

text \<open>An assignment destroys what the target holds and then moves into the empty target.\<close>

lemma move_assign_inv:
  assumes "conn_inv L s" "cn_objs s a = Some h" "cn_objs s b = Some h'"
  shows "conn_inv L (fst (move_assign a b s)) \<and> snd (move_assign a b s) \<noteq> Undefined"
proof (cases "a = b")
  case True
  then show ?thesis using assms by (simp add: move_assign_def)
next
  case False
  let ?m = "(cn_objs s)(a := None)"
  have once: "held ?m \<inter> L = {}" "held_once ?m"
    using assms held_clear [of "cn_objs s" a h] held_once_clear [of "cn_objs s" a] by (auto simp: conn_inv_def)
  with held_move [of ?m a b h'] False assms(3) show ?thesis
    using close_owned [OF assms(1,2)] assms(2,3) by (auto simp: move_assign_def conn_inv_def)
qed

lemma conn_exec_inv:
  assumes "conn_inv L s" "admissible op s"
  shows "conn_inv (L \<union> leak op) (fst (conn_exec op s)) \<and> snd (conn_exec op s) \<noteq> Undefined"
  using assms construct_inv [OF assms(1)] destroy_inv [OF assms(1)] move_construct_inv [OF assms(1)]
    move_assign_inv [OF assms(1)]
  by (cases op) auto

lemma conn_run_inv: "conn_run ops s \<Longrightarrow> conn_inv (\<Union>op \<in> set ops. leak op) s"
proof (induction rule: conn_run.induct)
  case conn_init
  then show ?case by (simp add: conn_inv_def held_def held_once_def no_connections_def)
next
  case (conn_next ops s op s' r)
  from conn_exec_inv [OF conn_next.IH conn_next.hyps(2)] conn_next.hyps(3) show ?case
    by (simp add: Un_commute)
qed

text \<open>C34: every connection is owned once. Whatever sequence of constructions, moves, self-moves and
  destructions a program makes and whatever SQLite answers, no two live objects hold the same
  connection, no operation that may follow closes a connection twice, and the open connections are
  those the live objects hold and the ones lost by constructors that threw after opening.\<close>

theorem connections_owned_once:
  assumes "conn_run ops s"
  shows "(\<forall>a b k. cn_objs s a = Some (Some k) \<longrightarrow> cn_objs s b = Some (Some k) \<longrightarrow> a = b) \<and>
    set (cn_open s) = owned s \<union> (\<Union>op \<in> set ops. leak op) \<and> owned s \<inter> (\<Union>op \<in> set ops. leak op) = {} \<and>
    (\<forall>op. admissible op s \<longrightarrow> snd (conn_exec op s) \<noteq> Undefined)"
  using conn_run_inv [OF assms] conn_exec_inv [OF conn_run_inv [OF assms]]
  by (simp add: conn_inv_def held_once_def)

text \<open>Fact: a constructor that fails after opening leaks. When \<open>sqlite3_open\<close> succeeds and one of the
  \<open>PRAGMA\<close> statements fails, the connection stays open for the rest of the process, whatever is
  done with the objects: no later operation closes it.\<close>

theorem failed_pragma_leaks:
  assumes "conn_run (ops @ Construct a ans # rest) s"
    and "oa_error ans = None" "oa_handle ans = Some k" "pragmas ans \<noteq> Ret ()"
  shows "k \<in> set (cn_open s) \<and> k \<notin> owned s"
proof -
  let ?L = "\<Union>op \<in> set (ops @ Construct a ans # rest). leak op"
  have "k \<in> ?L" using assms(2-4) by simp
  with conn_run_inv [OF assms(1)] show ?thesis unfolding conn_inv_def by blast
qed

section \<open>The schema\<close>

datatype column_type = Sql_integer | Sql_real | Sql_text

record column =
  col_name :: string
  col_type :: column_type
  col_not_null :: bool
  col_primary :: bool
  col_default :: "string option"

definition col :: "string \<Rightarrow> column_type \<Rightarrow> column" where
  "col n ty = \<lparr>col_name = n, col_type = ty, col_not_null = False, col_primary = False, col_default = None\<rparr>"

definition not_null :: "column \<Rightarrow> column" where
  "not_null c = c\<lparr>col_not_null := True\<rparr>"

definition primary_key :: "column \<Rightarrow> column" where
  "primary_key c = c\<lparr>col_primary := True\<rparr>"

definition with_default :: "string \<Rightarrow> column \<Rightarrow> column" where
  "with_default v c = c\<lparr>col_default := Some v\<rparr>"

text \<open>\<open>CREATE TABLE IF NOT EXISTS\<close> and \<open>CREATE INDEX IF NOT EXISTS\<close>.\<close>

datatype ddl = Create_table (ddl_name: string) "column list" | Create_index (ddl_name: string) string "string list"

definition migration :: "ddl list" where
  "migration =
     [Create_table ''meta''
        [primary_key (col ''key'' Sql_text), not_null (col ''value'' Sql_text)],
      Create_table ''metrics''
        [primary_key (col ''id'' Sql_integer), not_null (col ''ts'' Sql_integer),
         not_null (col ''metric'' Sql_text), not_null (col ''value'' Sql_real)],
      Create_index ''idx_metrics_metric_ts'' ''metrics'' [''metric'', ''ts''],
      Create_table ''runs''
        [primary_key (col ''id'' Sql_integer), not_null (col ''job_name'' Sql_text),
         not_null (col ''started_at'' Sql_integer), not_null (col ''ended_at'' Sql_integer),
         not_null (col ''status'' Sql_text), not_null (col ''exit_code'' Sql_integer),
         not_null (col ''duration_ms'' Sql_integer), col ''stdout'' Sql_text, col ''stderr'' Sql_text,
         not_null (col ''trigger'' Sql_text)],
      Create_index ''idx_runs_job_started'' ''runs'' [''job_name'', ''started_at''],
      Create_table ''alerts''
        [primary_key (col ''id'' Sql_integer), not_null (col ''ts'' Sql_integer),
         not_null (col ''rule_name'' Sql_text), not_null (col ''severity'' Sql_text),
         not_null (col ''metric'' Sql_text), not_null (col ''kind'' Sql_text),
         not_null (col ''value'' Sql_real), not_null (col ''threshold'' Sql_real),
         col ''message'' Sql_text, col ''attribution'' Sql_text],
      Create_index ''idx_alerts_ts'' ''alerts'' [''ts''],
      Create_table ''job_defs''
        [primary_key (col ''name'' Sql_text), not_null (col ''command'' Sql_text), col ''schedule_expr'' Sql_text,
         with_default ''none'' (not_null (col ''missed_run_policy'' Sql_text)),
         with_default ''0'' (not_null (col ''timeout_seconds'' Sql_integer)),
         with_default ''0'' (not_null (col ''retries'' Sql_integer))]]"

text \<open>A statement that succeeds: nothing changes when an object of that name exists, whatever its
  definition.\<close>

definition create :: "ddl \<Rightarrow> ddl list \<Rightarrow> ddl list" where
  "create d schema = (if ddl_name d \<in> ddl_name ` set schema then schema else schema @ [d])"

text \<open>\<open>sqlite3_exec\<close> runs the statements in order and stops at the first that fails; \<open>rcs\<close> says how
  each ends.\<close>

fun exec_script :: "(ddl \<Rightarrow> string option option) \<Rightarrow> ddl list \<Rightarrow> ddl list \<Rightarrow> ddl list \<times> unit cxx" where
  "exec_script rcs [] schema = (schema, Ret ())"
| "exec_script rcs (d # ds) schema =
     (case rcs d of
        None \<Rightarrow> exec_script rcs ds (create d schema)
      | Some err \<Rightarrow> (schema, exec_or_throw (Some err)))"

definition migrate :: "(ddl \<Rightarrow> string option option) \<Rightarrow> ddl list \<Rightarrow> ddl list \<times> unit cxx" where
  "migrate rcs schema = exec_script rcs migration schema"

subsection \<open>The statements and the schema\<close>

text \<open>A statement of \<open>db.cpp\<close>: the table, the columns an \<open>INSERT\<close> gives with the type of the value
  bound to each, the columns a \<open>SELECT\<close> returns with the type read from each, the columns compared
  with a bound value, the columns of the \<open>ORDER BY\<close>, and for an upsert its conflict column and the
  columns it updates.\<close>

datatype sql =
    Sql_insert string "(string \<times> column_type) list"
  | Sql_select string "(string \<times> column_type) list" "(string \<times> column_type) list" "string list"
  | Sql_upsert string "(string \<times> column_type) list" string "string list"
  | Sql_delete string "(string \<times> column_type) list"

definition run_columns :: "(string \<times> column_type) list" where
  "run_columns = [(''job_name'', Sql_text), (''started_at'', Sql_integer), (''ended_at'', Sql_integer),
     (''status'', Sql_text), (''exit_code'', Sql_integer), (''duration_ms'', Sql_integer), (''stdout'', Sql_text),
     (''stderr'', Sql_text), (''trigger'', Sql_text)]"

definition alert_columns :: "(string \<times> column_type) list" where
  "alert_columns = [(''ts'', Sql_integer), (''rule_name'', Sql_text), (''severity'', Sql_text), (''metric'', Sql_text),
     (''kind'', Sql_text), (''value'', Sql_real), (''threshold'', Sql_real), (''message'', Sql_text),
     (''attribution'', Sql_text)]"

definition job_def_columns :: "(string \<times> column_type) list" where
  "job_def_columns = [(''name'', Sql_text), (''command'', Sql_text), (''schedule_expr'', Sql_text),
     (''missed_run_policy'', Sql_text), (''timeout_seconds'', Sql_integer), (''retries'', Sql_integer)]"

definition statements :: "sql list" where
  "statements =
     [Sql_insert ''metrics'' [(''ts'', Sql_integer), (''metric'', Sql_text), (''value'', Sql_real)],
      Sql_select ''metrics'' [(''ts'', Sql_integer), (''value'', Sql_real)] [(''metric'', Sql_text)] [''ts'', ''id''],
      Sql_insert ''runs'' run_columns,
      Sql_select ''runs'' ((''id'', Sql_integer) # run_columns) [(''job_name'', Sql_text)] [''started_at'', ''id''],
      Sql_select ''runs'' [] [(''job_name'', Sql_text)] [],
      Sql_select ''metrics'' [(''ts'', Sql_integer), (''value'', Sql_real)]
        [(''metric'', Sql_text), (''ts'', Sql_integer)] [''ts''],
      Sql_insert ''alerts'' alert_columns,
      Sql_select ''alerts'' ((''id'', Sql_integer) # alert_columns) [] [''ts'', ''id''],
      Sql_upsert ''job_defs'' job_def_columns ''name''
        [''command'', ''schedule_expr'', ''missed_run_policy'', ''timeout_seconds'', ''retries''],
      Sql_delete ''job_defs'' [(''name'', Sql_text)],
      Sql_select ''job_defs'' job_def_columns [] [''name'']]"

fun table_columns :: "string \<Rightarrow> ddl list \<Rightarrow> column list option" where
  "table_columns t [] = None"
| "table_columns t (Create_table n cs # ds) = (if n = t then Some cs else table_columns t ds)"
| "table_columns t (Create_index _ _ _ # ds) = table_columns t ds"

definition typed_in :: "column list \<Rightarrow> string \<times> column_type \<Rightarrow> bool" where
  "typed_in cs c \<longleftrightarrow> c \<in> set (map (\<lambda>k. (col_name k, col_type k)) cs)"

text \<open>An \<open>INSERT\<close> has a value for every column that needs one; SQLite itself fills an
  \<open>INTEGER PRIMARY KEY\<close>.\<close>

definition complete_insert :: "column list \<Rightarrow> string list \<Rightarrow> bool" where
  "complete_insert cs given \<longleftrightarrow>
     (\<forall>c \<in> set cs. col_name c \<in> set given \<or> \<not> (col_not_null c \<or> (col_primary c \<and> col_type c \<noteq> Sql_integer)) \<or>
        col_default c \<noteq> None)"

fun well_typed :: "ddl list \<Rightarrow> sql \<Rightarrow> bool" where
  "well_typed schema (Sql_insert t given) \<longleftrightarrow>
     (case table_columns t schema of None \<Rightarrow> False
      | Some cs \<Rightarrow> list_all (typed_in cs) given \<and> distinct (map fst given) \<and> complete_insert cs (map fst given))"
| "well_typed schema (Sql_select t result compared order) \<longleftrightarrow>
     (case table_columns t schema of None \<Rightarrow> False
      | Some cs \<Rightarrow> list_all (typed_in cs) (result @ compared) \<and> set order \<subseteq> col_name ` set cs)"
| "well_typed schema (Sql_upsert t given target updated) \<longleftrightarrow>
     (case table_columns t schema of None \<Rightarrow> False
      | Some cs \<Rightarrow> list_all (typed_in cs) given \<and> distinct (map fst given) \<and> complete_insert cs (map fst given) \<and>
          (\<exists>c \<in> set cs. col_name c = target \<and> col_primary c) \<and> set (map fst given) = insert target (set updated) \<and>
          target \<notin> set updated)"
| "well_typed schema (Sql_delete t compared) \<longleftrightarrow>
     (case table_columns t schema of None \<Rightarrow> False | Some cs \<Rightarrow> list_all (typed_in cs) compared)"

fun well_formed_ddl :: "ddl list \<Rightarrow> ddl \<Rightarrow> bool" where
  "well_formed_ddl schema (Create_table n cs) \<longleftrightarrow>
     distinct (map col_name cs) \<and> length (filter col_primary cs) = 1"
| "well_formed_ddl schema (Create_index n t on) \<longleftrightarrow>
     (case table_columns t schema of None \<Rightarrow> False | Some cs \<Rightarrow> set on \<subseteq> col_name ` set cs)"

lemma exec_script_ok: "exec_script (\<lambda>_. None) ds schema = (fold create ds schema, Ret ())"
  by (induction ds arbitrary: schema) simp_all

lemma fold_create_id: "ddl_name ` set ds \<subseteq> ddl_name ` set schema \<Longrightarrow> fold create ds schema = schema"
  by (induction ds) (simp_all add: create_def)

lemma fold_create_names: "ddl_name ` set (fold create ds schema) = ddl_name ` set ds \<union> ddl_name ` set schema"
  by (induction ds arbitrary: schema) (auto simp: create_def)

lemma fold_create_extends: "\<exists>new. fold create ds schema = schema @ new"
proof (induction ds arbitrary: schema)
  case (Cons d ds)
  from Cons.IH [of "create d schema"] show ?case by (auto simp: create_def)
qed simp

lemma exec_script_prefix: "\<exists>n. fst (exec_script rcs ds schema) = fold create (take n ds) schema"
proof (induction ds arbitrary: schema)
  case (Cons d ds)
  show ?case
  proof (cases "rcs d")
    case None
    from Cons.IH [of "create d schema"] obtain n where
      "fst (exec_script rcs ds (create d schema)) = fold create (take n ds) (create d schema)" ..
    with None show ?thesis by (intro exI [of _ "Suc n"]) simp
  qed (auto intro: exI [of _ 0])
qed simp

lemma fold_create_restart: "fold create ds (fold create (take n ds) schema) = fold create ds schema"
proof -
  have "fold create (take n ds) (fold create (take n ds) schema) = fold create (take n ds) schema"
    by (rule fold_create_id) (simp add: fold_create_names)
  then show ?thesis
    using fold_append [of create "take n ds" "drop n ds"] by (simp add: fun_eq_iff)
qed

text \<open>Fact: the migration can be repeated and resumed. Without errors it leaves every object of the
  schema in place and never changes one that exists; repeating it changes nothing; and a migration
  that stopped at any statement, followed by one without errors, ends like the latter alone.\<close>

theorem migrate_restartable:
  defines "ok \<equiv> (\<lambda>_. None)"
  shows "snd (migrate ok schema) = Ret () \<and>
    (\<exists>new. fst (migrate ok schema) = schema @ new \<and> set new \<subseteq> set migration) \<and>
    ddl_name ` set migration \<subseteq> ddl_name ` set (fst (migrate ok schema)) \<and>
    migrate ok (fst (migrate ok schema)) = migrate ok schema \<and>
    migrate ok (fst (migrate rcs schema)) = migrate ok schema"
proof -
  have m: "migrate ok sch = (fold create migration sch, Ret ())" for sch
    by (simp add: migrate_def ok_def exec_script_ok)
  obtain n where n: "fst (migrate rcs schema) = fold create (take n migration) schema"
    using exec_script_prefix [of rcs migration schema] by (auto simp: migrate_def)
  have new: "\<exists>new. fold create ds schema = schema @ new \<and> set new \<subseteq> set ds" for ds
  proof (induction ds arbitrary: schema)
    case (Cons d ds)
    from Cons.IH [of "create d schema"] show ?case by (auto simp: create_def)
  qed simp
  show ?thesis
    using new [of migration] fold_create_names [of migration schema] fold_create_restart [of migration n schema]
      fold_create_id [of migration "fold create migration schema"]
    by (simp add: m n)
qed


section \<open>Concrete inputs\<close>

definition good_open :: "nat \<Rightarrow> open_answer" where
  "good_open k = \<lparr>oa_handle = Some k, oa_error = None, oa_journal = None, oa_synchronous = None, oa_foreign_keys = None\<rparr>"

definition busy_open :: "nat \<Rightarrow> open_answer" where
  "busy_open k = (good_open k)\<lparr>oa_journal := Some (Some ''database is locked'')\<rparr>"

lemma sample_run_of_connections:
  "conn_run [Construct 0 (good_open 7), Construct 1 (busy_open 8), Move_construct 2 0, Move_assign 2 2, Destroy 0, Destroy 2]
     \<lparr>cn_open = [8], cn_objs = Map.empty\<rparr>"
proof -
  note eval = good_open_def busy_open_def construct_def move_construct_def move_assign_def destroy_def
    sqlite3_open_def sqlite3_close_def pragmas_def exec_or_throw_def no_connections_def
  have "conn_run ([] @ [Construct 0 (good_open 7)]) \<lparr>cn_open = [7], cn_objs = [0 \<mapsto> Some 7]\<rparr>"
    by (rule conn_next [OF conn_init]) (simp_all add: eval)
  then have "conn_run (([] @ [Construct 0 (good_open 7)]) @ [Construct 1 (busy_open 8)])
      \<lparr>cn_open = [8, 7], cn_objs = [0 \<mapsto> Some 7]\<rparr>"
    by (rule conn_next) (simp_all add: eval)
  then have "conn_run ((([] @ [Construct 0 (good_open 7)]) @ [Construct 1 (busy_open 8)]) @ [Move_construct 2 0])
      \<lparr>cn_open = [8, 7], cn_objs = [0 \<mapsto> None, 2 \<mapsto> Some 7]\<rparr>"
    by (rule conn_next) (simp_all add: eval fun_eq_iff)
  then have "conn_run (((([] @ [Construct 0 (good_open 7)]) @ [Construct 1 (busy_open 8)]) @ [Move_construct 2 0]) @
      [Move_assign 2 2]) \<lparr>cn_open = [8, 7], cn_objs = [0 \<mapsto> None, 2 \<mapsto> Some 7]\<rparr>"
    by (rule conn_next) (simp_all add: eval)
  then have "conn_run ((((([] @ [Construct 0 (good_open 7)]) @ [Construct 1 (busy_open 8)]) @ [Move_construct 2 0]) @
      [Move_assign 2 2]) @ [Destroy 0]) \<lparr>cn_open = [8, 7], cn_objs = [2 \<mapsto> Some 7]\<rparr>"
    by (rule conn_next) (simp_all add: eval fun_eq_iff)
  then have "conn_run (((((([] @ [Construct 0 (good_open 7)]) @ [Construct 1 (busy_open 8)]) @ [Move_construct 2 0]) @
      [Move_assign 2 2]) @ [Destroy 0]) @ [Destroy 2]) \<lparr>cn_open = [8], cn_objs = Map.empty\<rparr>"
    by (rule conn_next) (simp_all add: eval fun_eq_iff)
  then show ?thesis by simp
qed

theorem connections_owned_once_witness:
  "\<exists>s. conn_run [Construct 0 (good_open 7), Construct 1 (busy_open 8), Move_construct 2 0, Move_assign 2 2,
      Destroy 0, Destroy 2] s \<and> set (cn_open s) = {8}"
  using sample_run_of_connections connections_owned_once [OF sample_run_of_connections] by force

theorem failed_pragma_leaks_witness:
  "\<exists>s. conn_run ([Construct 0 (good_open 7)] @ Construct 1 (busy_open 8) #
      [Move_construct 2 0, Move_assign 2 2, Destroy 0, Destroy 2]) s \<and> 8 \<in> set (cn_open s) \<and> 8 \<notin> owned s"
proof -
  have r: "conn_run ([Construct 0 (good_open 7)] @ Construct 1 (busy_open 8) #
      [Move_construct 2 0, Move_assign 2 2, Destroy 0, Destroy 2]) \<lparr>cn_open = [8], cn_objs = Map.empty\<rparr>"
    using sample_run_of_connections by simp
  from r failed_pragma_leaks [OF r, of 8] show ?thesis
    by (auto simp: busy_open_def good_open_def pragmas_def exec_or_throw_def)
qed

end
