(* ===== verification/Signals.thy ===== *)
theory Signals
  imports Sampler
begin

text \<open>
  The signals of \<open>daemon/src/main.cpp\<close>: the flags \<open>g_stop\<close> and \<open>g_reload\<close>, the handler, the dispositions
  \<open>install_signal_handlers\<close> sets, and the head of \<open>sampler_loop\<close>, which reads the flags. A signal may
  arrive at any time; what matters is whether it comes before the test of \<open>g_stop\<close> at the head of a
  round or between that test and the test of \<open>g_reload\<close>: one that comes later is first seen at the
  next head.
\<close>

section \<open>Signals\<close>

text \<open>The numbers POSIX systems give the signals the daemon handles.\<close>

definition SIGHUP :: int where "SIGHUP = 1"
definition SIGINT :: int where "SIGINT = 2"
definition SIGPIPE :: int where "SIGPIPE = 13"
definition SIGTERM :: int where "SIGTERM = 15"

lemmas signal_numbers = SIGHUP_def SIGINT_def SIGPIPE_def SIGTERM_def

datatype disposition = Default_action | Ignored | Handled

definition install_signal_handlers :: "(int \<Rightarrow> disposition) \<Rightarrow> int \<Rightarrow> disposition" where
  "install_signal_handlers sa = sa(SIGTERM := Handled, SIGINT := Handled, SIGHUP := Handled, SIGPIPE := Ignored)"

text \<open>The process while \<open>sampler_loop\<close> runs; \<open>g_reload\<close> is \<open>sm_reload\<close> of the sampler.\<close>

record process =
  pr_stop :: int
  pr_sampler :: Sampler

definition handle_signal :: "int \<Rightarrow> process \<Rightarrow> process" where
  "handle_signal signum p =
     (if signum = SIGHUP then p\<lparr>pr_sampler := handle_sighup (pr_sampler p)\<rparr>
      else p\<lparr>pr_stop := signum\<rparr>)"

text \<open>The delivery of a signal; the default action of the signals concerned ends the process.\<close>

definition deliver :: "(int \<Rightarrow> disposition) \<Rightarrow> int \<Rightarrow> process \<Rightarrow> process option" where
  "deliver sa signum p =
     (case sa signum of
        Default_action \<Rightarrow> None
      | Ignored \<Rightarrow> Some p
      | Handled \<Rightarrow> Some (handle_signal signum p))"

section \<open>The loop\<close>

text \<open>One turn of the loop: the signals handled before its head, those handled between the two tests, and
  what the round meets.\<close>

record turn =
  tu_before :: "int list"
  tu_during :: "int list"
  tu_round :: round

text \<open>The result: the process, the notifications posted, and whether the loop has ended.\<close>

fun main_loop :: "surroundings \<Rightarrow> turn list \<Rightarrow> process \<Rightarrow> (process \<times> (string \<times> string) list \<times> bool) cxx" where
  "main_loop su [] p = Ret (p, [], False)"
| "main_loop su (t # ts) p =
     (let p1 = fold handle_signal (tu_before t) p
      in if pr_stop p1 \<noteq> 0 then Ret (p1, [], True)
         else let p2 = fold handle_signal (tu_during t) p1
              in cxx_bind (sampler_step su (tu_round t) (pr_sampler p2)) (\<lambda>(s, posted).
                 cxx_bind (main_loop su ts (p2\<lparr>pr_sampler := s\<rparr>)) (\<lambda>(p3, posted', ended).
                 Ret (p3, posted @ posted', ended))))"

section \<open>Lemmas\<close>

definition is_stop :: "int \<Rightarrow> bool" where
  "is_stop signum \<longleftrightarrow> signum \<noteq> SIGHUP"

lemma handle_signals_stop:
  "pr_stop (fold handle_signal sigs p) = (if filter is_stop sigs = [] then pr_stop p else last (filter is_stop sigs))"
  by (induction sigs arbitrary: p) (auto simp: handle_signal_def is_stop_def)

lemma handle_signals_sampler:
  "pr_sampler (fold handle_signal sigs p) = (if SIGHUP \<in> set sigs then handle_sighup (pr_sampler p) else pr_sampler p)"
  by (induction sigs arbitrary: p) (auto simp: handle_signal_def handle_sighup_def)

definition no_stop :: "turn \<Rightarrow> bool" where
  "no_stop t \<longleftrightarrow> filter is_stop (tu_before t @ tu_during t) = []"

lemma main_loop_append:
  assumes "pr_stop p = 0" "\<forall>t \<in> set ts. no_stop t"
  shows "main_loop su (ts @ rest) p =
    cxx_bind (main_loop su ts p) (\<lambda>(p1, posted, _).
    cxx_bind (main_loop su rest p1) (\<lambda>(p2, posted', ended). Ret (p2, posted @ posted', ended)))"
  using assms
proof (induction ts arbitrary: p)
  case Nil
  then show ?case by (cases "main_loop su rest p") (auto simp: split_beta)
next
  case (Cons t ts)
  let ?p1 = "fold handle_signal (tu_before t) p"
  let ?p2 = "fold handle_signal (tu_during t) ?p1"
  have z: "pr_stop ?p1 = 0" "pr_stop ?p2 = 0"
    using Cons.prems by (simp_all add: handle_signals_stop no_stop_def)
  show ?case
  proof (cases "sampler_step su (tu_round t) (pr_sampler ?p2)")
    case (Ret r)
    obtain s posted where r: "r = (s, posted)" by (cases r)
    have "main_loop su (ts @ rest) (?p2\<lparr>pr_sampler := s\<rparr>) =
        cxx_bind (main_loop su ts (?p2\<lparr>pr_sampler := s\<rparr>)) (\<lambda>(p1, posted, _).
        cxx_bind (main_loop su rest p1) (\<lambda>(p2, posted', ended). Ret (p2, posted @ posted', ended)))"
      using Cons.IH [of "?p2\<lparr>pr_sampler := s\<rparr>"] Cons.prems(2) z by simp
    then show ?thesis
      using z Ret r by (simp add: Let_def cxx_bind_assoc split_beta)
  qed (use z in \<open>simp_all add: Let_def\<close>)
qed

lemma main_loop_stop:
  assumes "pr_stop p = 0" "\<forall>t \<in> set ts. no_stop t" "main_loop su ts p = Ret (p1, posted, ended)"
  shows "pr_stop p1 = 0 \<and> \<not> ended"
  using assms
proof (induction ts arbitrary: p posted)
  case (Cons t ts)
  let ?p2 = "fold handle_signal (tu_during t) (fold handle_signal (tu_before t) p)"
  have z: "pr_stop (fold handle_signal (tu_before t) p) = 0" "pr_stop ?p2 = 0"
    using Cons.prems by (simp_all add: handle_signals_stop no_stop_def)
  with Cons.prems(3) obtain s posted1 posted2 where "main_loop su ts (?p2\<lparr>pr_sampler := s\<rparr>) = Ret (p1, posted2, ended)"
    by (auto simp: Let_def cxx_simps split_beta)
  with Cons.IH [of "?p2\<lparr>pr_sampler := s\<rparr>"] Cons.prems(2) z(2) show ?case by auto
qed simp

lemma main_loop_quiet:
  assumes "pr_stop p = 0" "\<forall>t \<in> set ts. tu_before t = [] \<and> tu_during t = []"
  shows "main_loop su ts p =
    cxx_bind (sampler_loop su (map tu_round ts) (pr_sampler p)) (\<lambda>(s, posted). Ret (p\<lparr>pr_sampler := s\<rparr>, posted, False))"
  using assms
proof (induction ts arbitrary: p)
  case (Cons t ts)
  have t: "tu_before t = []" "tu_during t = []" and rest: "\<forall>t \<in> set ts. tu_before t = [] \<and> tu_during t = []"
    using Cons.prems(2) by simp_all
  show ?case
  proof (cases "sampler_step su (tu_round t) (pr_sampler p)")
    case (Ret r)
    obtain s posted where r: "r = (s, posted)" by (cases r)
    have "main_loop su ts (p\<lparr>pr_sampler := s\<rparr>) =
        cxx_bind (sampler_loop su (map tu_round ts) s) (\<lambda>(s', posted). Ret (p\<lparr>pr_sampler := s'\<rparr>, posted, False))"
      using Cons.prems(1) rest by (subst Cons.IH) simp_all
    then show ?thesis
      using Cons.prems(1) t Ret r
      by (simp add: sampler_loop.simps(2) cxx_bind_assoc split_beta)
  qed (use t Cons.prems(1) in \<open>simp_all add: sampler_loop.simps(2)\<close>)
qed simp

section \<open>Properties\<close>

text \<open>C20: a stop signal ends the loop. If \<open>SIGTERM\<close> or \<open>SIGINT\<close> is handled before the head of some turn
  and not earlier, exactly the turns before it run, the loop ends whatever would follow, nothing more is
  posted, and \<open>g_stop\<close>, which \<open>main\<close> then logs, is the last such signal; with the handlers installed none of
  the four signals ends the process by itself, and \<open>SIGHUP\<close> alone never ends the loop.\<close>

theorem stop_signal_ends_loop:
  assumes "pr_stop p = 0" "\<forall>t \<in> set ts. no_stop t" "filter is_stop (tu_before t) \<noteq> []" "0 \<notin> set (tu_before t)"
  shows "main_loop su (ts @ t # rest) p =
      cxx_bind (main_loop su ts p) (\<lambda>(p1, posted, _). Ret (fold handle_signal (tu_before t) p1, posted, True)) \<and>
    (\<forall>p1 posted ended. main_loop su ts p = Ret (p1, posted, ended) \<longrightarrow> \<not> ended \<and>
       pr_stop (fold handle_signal (tu_before t) p1) = last (filter is_stop (tu_before t))) \<and>
    (\<forall>sa. \<forall>n \<in> {SIGTERM, SIGINT, SIGHUP, SIGPIPE}. deliver (install_signal_handlers sa) n p \<noteq> None)"
proof -
  have last: "last (filter is_stop (tu_before t)) \<noteq> 0"
    using assms(3,4) last_in_set [of "filter is_stop (tu_before t)"] by auto
  then have "pr_stop (fold handle_signal (tu_before t) p1) \<noteq> 0" for p1
    using assms(3) by (simp add: handle_signals_stop)
  then have "main_loop su (t # rest) p1 = Ret (fold handle_signal (tu_before t) p1, [], True)" for p1
    by (simp add: Let_def)
  then have "main_loop su (ts @ t # rest) p =
      cxx_bind (main_loop su ts p) (\<lambda>(p1, posted, _). Ret (fold handle_signal (tu_before t) p1, posted, True))"
    by (simp only: main_loop_append [OF assms(1,2)] cxx_bind.simps prod.case append_Nil2)
  moreover have "\<not> ended \<and> pr_stop (fold handle_signal (tu_before t) p1) = last (filter is_stop (tu_before t))"
    if "main_loop su ts p = Ret (p1, posted, ended)" for p1 posted ended
    using main_loop_stop [OF assms(1,2) that] assms(3) by (simp add: handle_signals_stop)
  moreover have "deliver (install_signal_handlers sa) n p \<noteq> None" if "n \<in> {SIGTERM, SIGINT, SIGHUP, SIGPIPE}" for sa n
    using that by (auto simp: deliver_def install_signal_handlers_def signal_numbers)
  ultimately show ?thesis by blast
qed

text \<open>Fact: \<open>SIGHUP\<close> reloads in the turn that sees it. However many arrive before the test of \<open>g_reload\<close>, the
  turn reloads once, before it samples, and a broken configuration keeps the engine and its timers.\<close>

theorem sighup_reloads_once:
  assumes "set (tu_before t @ tu_during t) = {SIGHUP}" "pr_stop p = 0" "ro_config (tu_round t) = cfg"
    "cfg = Ret c \<or> cfg = Throw e"
  shows "\<exists>s1. s1 = (pr_sampler p)\<lparr>sm_reload := False,
        sm_engine := (if cfg = Throw e then sm_engine (pr_sampler p) else new_engine (cfg_rules c) (cfg_quiet_hours c))\<rparr> \<and>
    main_loop su [t] p =
      (let (s, posted) = (if sm_next s1 \<le> ro_steady (tu_round t) then sample_once su (tu_round t) s1 else (s1, []))
       in Ret (p\<lparr>pr_sampler := s\<rparr>, posted, False))"
proof -
  let ?p1 = "fold handle_signal (tu_before t) p"
  let ?p2 = "fold handle_signal (tu_during t) ?p1"
  have none: "filter is_stop (tu_before t) = []" "filter is_stop (tu_during t) = []"
    using assms(1) by (auto simp: filter_empty_conv is_stop_def)
  have s: "pr_sampler ?p2 = handle_sighup (pr_sampler p)"
    using assms(1) by (auto simp: handle_signals_sampler handle_sighup_def)
  have z: "pr_stop ?p1 = 0" "?p2 = p\<lparr>pr_sampler := handle_sighup (pr_sampler p)\<rparr>"
    using none assms(2) s by (simp_all add: handle_signals_stop)
  then show ?thesis
    using assms(3,4) s by (auto simp: sampler_step_def reload_config_def handle_sighup_def split_beta)
qed

subsection \<open>Witnesses\<close>

definition quiet_turn :: "int \<Rightarrow> turn" where
  "quiet_turn t = \<lparr>tu_before = [], tu_during = [], tu_round = hot_round t\<rparr>"

definition running :: process where
  "running = \<lparr>pr_stop = 0, pr_sampler = idle_sampler\<rparr>"

theorem stop_signal_ends_loop_witness:
  "\<exists>p posted. main_loop plain [quiet_turn 0, (quiet_turn 7)\<lparr>tu_before := [SIGHUP, SIGTERM]\<rparr>, quiet_turn 9] running =
     Ret (p, posted, True) \<and> pr_stop p = SIGTERM"
proof -
  have stop: "filter is_stop [SIGHUP, SIGTERM] = [SIGTERM]" by (simp add: is_stop_def signal_numbers)
  obtain p1 posted where one: "main_loop plain [quiet_turn 0] running = Ret (p1, posted, False)"
    by (simp add: quiet_turn_def running_def sampler_step_def reload_config_def idle_fields(1) split_beta)
  define t where "t = (quiet_turn 7)\<lparr>tu_before := [SIGHUP, SIGTERM]\<rparr>"
  have t: "tu_before t = [SIGHUP, SIGTERM]" by (simp add: t_def)
  have pre: "pr_stop running = 0" "\<forall>t \<in> set [quiet_turn 0]. no_stop t" "0 \<notin> set (tu_before t)"
    by (simp_all add: running_def no_stop_def quiet_turn_def t signal_numbers)
  note ends = stop_signal_ends_loop [OF pre(1,2) _ pre(3), unfolded t stop, of plain "[quiet_turn 9]"]
  have "main_loop plain ([quiet_turn 0] @ t # [quiet_turn 9]) running =
      Ret (fold handle_signal [SIGHUP, SIGTERM] p1, posted, True)"
    using ends one by (simp del: main_loop.simps)
  moreover have "pr_stop (fold handle_signal [SIGHUP, SIGTERM] p1) = SIGTERM"
    using ends [OF list.distinct(2), THEN conjunct2, THEN conjunct1, rule_format, OF one] by simp
  ultimately show ?thesis unfolding t_def by (metis append_Cons append_Nil)
qed

theorem sighup_reloads_once_witness:
  "\<exists>p posted. main_loop plain [(quiet_turn 0)\<lparr>tu_before := [SIGHUP, SIGHUP]\<rparr>] running = Ret (p, posted, False)"
  using sighup_reloads_once [of "(quiet_turn 0)\<lparr>tu_before := [SIGHUP, SIGHUP]\<rparr>" running "Throw ''no file''" undefined
      "''no file''" plain]
  by (auto simp: quiet_turn_def hot_round_def running_def split_beta Let_def)

end
