(* ===== verification/Threads.thy ===== *)
theory Threads
  imports Scheduler_Loop
begin

text \<open>
  The threads that use the scheduler, at the grain of its locks. \<open>publish_status\<close> of
  \<open>daemon/src/jobs/scheduler.cpp\<close> collects the statuses under \<open>mutex_\<close> and stores them in the shared
  state after releasing it; the loop thread and the socket thread both call it. Here an iteration of
  the loop, \<open>add_job\<close> and \<open>remove_job\<close> are split there: the change, the snapshot and the store are
  three steps, and the steps of the two threads interleave. The jobs themselves are changed by the
  socket thread alone.
\<close>

section \<open>History\<close>

text \<open>Rows are only ever appended to the tables of metrics, runs and alerts.\<close>

definition grows :: "Database \<Rightarrow> Database \<Rightarrow> bool" where
  "grows db db' \<longleftrightarrow> (\<exists>m r a. db_metrics db' = db_metrics db @ m \<and> db_runs db' = db_runs db @ r \<and>
     db_alerts db' = db_alerts db @ a)"

lemma grows_refl [simp]: "grows db db"
  by (simp add: grows_def)

lemma grows_trans: "grows a b \<Longrightarrow> grows b c \<Longrightarrow> grows a c"
  by (auto simp: grows_def)

lemma grows_writes [simp]:
  "grows db (fst (insert_run rc r db))" "grows db (fst (insert_alert rc al db))"
  "grows db (fst (insert_metric rc ts m v db))" "grows db (fst (upsert_job_def rc d db))"
  "grows db (fst (delete_job_def rc n db))"
  by (auto simp: grows_def insert_run_def insert_alert_def insert_metric_def upsert_job_def_def delete_job_def_def
      write_stmt_def split: write_rc.split)

text \<open>The ring of recent alerts: what it shows later is the newest part of what came and what was there.\<close>

definition ring_moves :: "AlertInfo list \<Rightarrow> AlertInfo list \<Rightarrow> bool" where
  "ring_moves as as' \<longleftrightarrow> as' = as \<or> (\<exists>new. as' = take kRecentAlerts (new @ as))"

lemma ring_moves_refl [simp]: "ring_moves as as"
  by (simp add: ring_moves_def)

lemma ring_moves_trans:
  assumes "ring_moves a b" "ring_moves b c"
  shows "ring_moves a c"
proof -
  have cut: "take n (x @ take n y) = take n (x @ y)" for n and x y :: "AlertInfo list"
    by (simp add: take_append min_def)
  have "\<exists>new. take kRecentAlerts (n2 @ take kRecentAlerts (n1 @ a)) = take kRecentAlerts (new @ a)" for n1 n2
    by (intro exI [of _ "n2 @ n1"]) (simp only: cut append_assoc)
  then show ?thesis using assms unfolding ring_moves_def by blast
qed

lemma ring_moves_add [simp]: "ring_moves (ss_alerts st) (ss_alerts (add_alert kRecentAlerts a st))"
  unfolding ring_moves_def ring.view_push by (intro disjI2 exI [of _ "[a]"]) simp

lemma ring_moves_bounded: "ring_moves as as' \<Longrightarrow> length as \<le> kRecentAlerts \<Longrightarrow> length as' \<le> kRecentAlerts"
  by (auto simp: ring_moves_def)

text \<open>Both at once: what a state shares with the other threads only moves on.\<close>

definition moves_on :: "Database \<times> SharedState \<Rightarrow> Database \<times> SharedState \<Rightarrow> bool" where
  "moves_on x y \<longleftrightarrow> grows (fst x) (fst y) \<and> ring_moves (ss_alerts (snd x)) (ss_alerts (snd y))"

definition shared :: "Scheduler \<Rightarrow> Database \<times> SharedState" where
  "shared s = (sc_db s, sc_state s)"

lemma moves_on_refl [simp]: "moves_on x x"
  by (simp add: moves_on_def)

lemma moves_on_trans: "moves_on x y \<Longrightarrow> moves_on y z \<Longrightarrow> moves_on x z"
  unfolding moves_on_def by (blast intro: grows_trans ring_moves_trans)

lemma moves_on_same: "sc_db s' = sc_db s \<Longrightarrow> ss_alerts (sc_state s') = ss_alerts (sc_state s) \<Longrightarrow> moves_on (shared s) (shared s')"
  by (simp add: moves_on_def shared_def)

lemma moves_on_db: "grows (sc_db s) db \<Longrightarrow> moves_on (shared s) (shared (s\<lparr>sc_db := db\<rparr>))"
  by (simp add: moves_on_def shared_def)

lemma run_steps_moves_on:
  assumes "\<And>x s. moves_on (shared s) (shared (fst (f x s)))"
  shows "moves_on (shared s) (shared (fst (run_steps f xs s)))"
  by (induction xs arbitrary: s) (auto intro: moves_on_trans assms)

lemma publish_moves_on [simp]: "moves_on (shared s) (shared (publish_status s))"
  by (rule moves_on_same) (simp_all add: publish_status_def)

lemma emit_moves_on: "moves_on (shared s) (shared (fst (emit_alert env n sv m detail v s)))"
  by (simp add: emit_alert_def Let_def moves_on_def shared_def)

lemma scan_job_moves_on: "moves_on (shared s) (shared (fst (scan_job lt now env j s)))"
proof -
  have "moves_on (shared s) (shared (enqueue n t (fst (emit_alert e n' sv m detail v (s\<lparr>sc_missed_handled := h\<rparr>)))))"
    for n t e n' sv m detail v h
    using emit_moves_on [of "s\<lparr>sc_missed_handled := h\<rparr>" e n' sv m detail v] by (simp add: shared_def enqueue_def)
  then show ?thesis
    by (auto simp: scan_job_def Let_def split_beta moves_on_same split: option.split)
qed

lemma scan_moves_on: "moves_on (shared s) (shared (fst (scan_missed lt now env s)))"
  unfolding scan_missed_def by (rule run_steps_moves_on) (rule scan_job_moves_on)

lemma tick_moves_on:
  assumes "tick lt env s = Ret (s', launches, ns)"
  shows "moves_on (shared s) (shared s')"
proof -
  let ?b = "before_launch lt env s"
  have wake: "moves_on (shared s) (shared (fst (check_wake lt wall now e s)))" for wall now e s
    using scan_moves_on [of "s\<lparr>sc_last_wall := wall\<rparr>" lt now e]
      scan_moves_on [of "s\<lparr>sc_last_wall := wall, sc_wake_pending := False\<rparr>" lt now e]
    by (simp add: check_wake_def Let_def shared_def)
  have "shared (finish_tasks ns s) = shared s" "shared (reap_finished s) = shared s" for ns s
    by (simp_all add: shared_def finish_tasks_def reap_finished_def)
  then have b: "moves_on (shared s) (shared ?b)" using wake [of "reap_finished s"] by (simp add: before_launch_def)
  have due: "shared (fst (run_steps (collect_due_job lt now) js s)) = shared s" for now js s
    by (induction js arbitrary: s) (simp_all add: shared_def collect_due_job_eq)
  then have "shared (fst (collect lt (te_wall env) ?b)) = shared ?b"
    by (simp add: collect_def Let_def split_beta shared_def)
  moreover obtain s3 where "launch_all (snd (collect lt (te_wall env) ?b)) (fst (collect lt (te_wall env) ?b)) = Ret s3"
    "s' = publish_status s3"
    using assms by (auto simp: tick_eq cxx_simps)
  moreover from this(1) have "shared s3 = shared (fst (collect lt (te_wall env) ?b))"
    by (auto simp: launch_all_eq shared_def split: if_splits)
  ultimately show ?thesis using b publish_moves_on [of s3] by (metis moves_on_trans)
qed

lemma add_job_moves_on: "moves_on (shared s) (shared (fst (add_job lt now rc job s)))"
proof -
  have "moves_on (shared s) (shared (publish_status s1))" if "grows (sc_db s) (sc_db s1)" "sc_state s1 = sc_state s" for s1
    using that by (simp add: moves_on_def shared_def publish_status_def)
  then show ?thesis
    using grows_writes(4) [of "sc_db s" rc "def_from_job (job\<lparr>job_source := ''ui''\<rparr>)"]
    by (auto simp: add_job_def Let_def split_beta moves_on_db split: cxx.split option.split)
qed

lemma remove_job_moves_on: "moves_on (shared s) (shared (fst (remove_job rc n s)))"
proof -
  have "moves_on (shared s) (shared (publish_status s1))" if "grows (sc_db s) (sc_db s1)" "sc_state s1 = sc_state s" for s1
    using that by (simp add: moves_on_def shared_def publish_status_def)
  then show ?thesis
    using grows_writes(5) [of "sc_db s" rc n]
    by (auto simp: remove_job_def Let_def split_beta moves_on_db split: cxx.split option.split)
qed

lemma sched_step_moves_on: "sched_step lt s s' \<Longrightarrow> moves_on (shared s) (shared s')"
proof (induction rule: sched_step.induct)
  case (step_add job s now rc)
  show ?case by (rule add_job_moves_on)
next
  case (step_remove s rc n)
  show ?case by (rule remove_job_moves_on)
next
  case (step_start s wall now env)
  show ?case
    using scan_moves_on [of "s\<lparr>sc_active := True, sc_last_wall := wall\<rparr>" lt now env] by (simp add: start_def shared_def)
next
  case (step_tick env s s' launches ns)
  then show ?case by (rule tick_moves_on)
next
  case (step_attempt s rc job trigger res)
  show ?case by (simp add: record_attempt_def Let_def moves_on_def shared_def)
next
  case (step_alert s env n sv m detail v)
  show ?case by (rule emit_moves_on)
qed (simp_all add: request_run_def enqueue_def notify_wake_def stop_def mark_done_def finish_tasks_def moves_on_same)

section \<open>A worker is a sequence of steps\<close>

lemma attempts_are_steps:
  "worker_attempts job trigger N k tries res s = Some (s', res') \<Longrightarrow> (sched_step lt)\<^sup>*\<^sup>* s s'"
proof (induction job trigger N k tries res s rule: worker_attempts.induct)
  case (2 job trigger N k e es res s)
  show ?case
  proof (cases "k \<le> N \<and> at_active e")
    case True
    then obtain r effs where r: "run_command (at_run e) (job_command job) (job_timeout_seconds job) = Some (r, effs)"
      using "2.prems" by (auto split: option.splits)
    let ?s1 = "record_attempt (at_rc e) job trigger r s"
    have one: "sched_step lt s ?s1" by (rule step_attempt)
    show ?thesis
    proof (cases "rr_status r = Success")
      case True
      then show ?thesis using "2.prems" r one \<open>k \<le> N \<and> at_active e\<close> by auto
    next
      case False
      then have "worker_attempts job trigger N (k + 1) es r ?s1 = Some (s', res')"
        using "2.prems" r \<open>k \<le> N \<and> at_active e\<close> by simp
      from "2.IH" [OF \<open>k \<le> N \<and> at_active e\<close> r refl refl False this] show ?thesis
        using one by (rule converse_rtranclp_into_rtranclp [rotated])
    qed
  qed (use "2.prems" in auto)
qed (auto split: if_splits)

text \<open>Fact: the step relation covers the workers: a worker that ends has done nothing but record attempts,
  raise at most one alert and signal its end, each of which is a step.\<close>

theorem worker_is_steps:
  assumes "worker tries active env job trigger s = Ret (Some (s', ns))"
  shows "(sched_step lt)\<^sup>*\<^sup>* s s'"
proof -
  obtain s1 res where run: "worker_attempts job trigger (job_retries job + 1) 1 tries default_RunResult s = Some (s1, res)"
    using assms by (auto simp: worker_def Let_def split: if_splits option.splits)
  define s2 where "s2 = fst (if active \<and> rr_status res \<noteq> Success
    then emit_alert env (job_name job) ''serious'' (failure_message res (job_retries job + 1))
      (stderr_detail (rr_stderr_text res)) (Fin (real_of_int (rr_exit_code res))) s1
    else (s1, []))"
  have "s' = mark_done (job_name job) s2"
    using assms run by (auto simp: worker_def Let_def split_beta s2_def split: if_split_asm)
  moreover have "(sched_step lt)\<^sup>*\<^sup>* s1 s2" by (auto simp: s2_def intro: step_alert)
  ultimately show ?thesis
    using attempts_are_steps [OF run] by (meson rtranclp.rtrancl_into_rtrancl rtranclp_trans step_done)
qed

section \<open>Publication\<close>

text \<open>The two halves of \<open>publish_status\<close>: the statuses collected under \<open>mutex_\<close>, and their store.\<close>

definition snapshot :: "Scheduler \<Rightarrow> JobStatus list" where
  "snapshot s = map (job_status s) (sc_jobs s)"

definition put_jobs :: "JobStatus list \<Rightarrow> Scheduler \<Rightarrow> Scheduler" where
  "put_jobs js s = s\<lparr>sc_state := set_jobs js (sc_state s)\<rparr>"

lemma publish_is_snapshot_then_put: "publish_status s = put_jobs (snapshot s) s"
  by (simp add: publish_status_def put_jobs_def snapshot_def)

text \<open>An operation up to its final \<open>publish_status\<close>: that call changes nothing but the published list, so
  the state before it is the result with the old list.\<close>

definition unpublished :: "Scheduler \<Rightarrow> Scheduler \<Rightarrow> Scheduler" where
  "unpublished s s' = put_jobs (ss_jobs (sc_state s)) s'"

lemma unpublished_publish: "ss_jobs (sc_state s1) = ss_jobs (sc_state s) \<Longrightarrow> unpublished s (publish_status s1) = s1"
  by (simp add: unpublished_def put_jobs_def publish_status_def set_jobs_def)

lemma publish_unpublished: "publish_status (unpublished s (publish_status s1)) = publish_status s1"
  by (simp add: unpublished_def put_jobs_def publish_status_def set_jobs_def job_status_def cong: map_cong)

text \<open>Where a thread stands in \<open>publish_status\<close>.\<close>

datatype pub = Idle | To_snapshot | To_put "JobStatus list"

record Threads =
  th_sched :: Scheduler
  th_loop :: pub
  th_socket :: pub

inductive th_step :: "(int \<Rightarrow> tm) \<Rightarrow> Threads \<Rightarrow> Threads \<Rightarrow> bool" for lt where
  th_tick: "th_loop y = Idle \<Longrightarrow> tick lt env (th_sched y) = Ret (s', launches, ns) \<Longrightarrow>
    th_step lt y (y\<lparr>th_sched := unpublished (th_sched y) s', th_loop := To_snapshot\<rparr>)"
| th_loop_snapshot: "th_loop y = To_snapshot \<Longrightarrow> th_step lt y (y\<lparr>th_loop := To_put (snapshot (th_sched y))\<rparr>)"
| th_loop_put: "th_loop y = To_put js \<Longrightarrow> th_step lt y (y\<lparr>th_sched := put_jobs js (th_sched y), th_loop := Idle\<rparr>)"
| th_add: "th_socket y = Idle \<Longrightarrow> ui_job_ok job \<Longrightarrow> add_job lt now rc job (th_sched y) = (s', []) \<Longrightarrow>
    th_step lt y (y\<lparr>th_sched := unpublished (th_sched y) s', th_socket := To_snapshot\<rparr>)"
| th_remove: "th_socket y = Idle \<Longrightarrow> remove_job rc n (th_sched y) = (s', []) \<Longrightarrow>
    th_step lt y (y\<lparr>th_sched := unpublished (th_sched y) s', th_socket := To_snapshot\<rparr>)"
| th_socket_snapshot: "th_socket y = To_snapshot \<Longrightarrow> th_step lt y (y\<lparr>th_socket := To_put (snapshot (th_sched y))\<rparr>)"
| th_socket_put: "th_socket y = To_put js \<Longrightarrow> th_step lt y (y\<lparr>th_sched := put_jobs js (th_sched y), th_socket := Idle\<rparr>)"
| th_request: "th_socket y = Idle \<Longrightarrow> th_step lt y (y\<lparr>th_sched := fst (request_run n (th_sched y))\<rparr>)"
| th_wake: "th_step lt y (y\<lparr>th_sched := notify_wake (th_sched y)\<rparr>)"
| th_scan: "th_step lt y (y\<lparr>th_sched := fst (scan_missed lt now env (th_sched y))\<rparr>)"
| th_stop: "th_loop y = Idle \<Longrightarrow> th_step lt y (y\<lparr>th_sched := stop (th_sched y)\<rparr>)"
| th_attempt: "th_step lt y (y\<lparr>th_sched := record_attempt rc job trigger res (th_sched y)\<rparr>)"
| th_alert: "th_step lt y (y\<lparr>th_sched := fst (emit_alert ae n severity message detail v (th_sched y))\<rparr>)"
| th_done: "th_step lt y (y\<lparr>th_sched := mark_done n (th_sched y)\<rparr>)"

inductive_cases th_stepE: "th_step lt y y'"

text \<open>The steps of every thread but the socket thread.\<close>

definition without_socket :: "(int \<Rightarrow> tm) \<Rightarrow> Threads \<Rightarrow> Threads \<Rightarrow> bool" where
  "without_socket lt y y' \<longleftrightarrow> th_step lt y y' \<and> th_socket y = Idle \<and> th_socket y' = Idle"

subsection \<open>The invariant that does not depend on publication\<close>

definition core_ok :: "Job list \<Rightarrow> Scheduler \<Rightarrow> bool" where
  "core_ok cfg s \<longleftrightarrow> sched_ok cfg (publish_status s)"

lemma publish_fields [simp]:
  "sc_jobs (publish_status s) = sc_jobs s" "sc_next_run (publish_status s) = sc_next_run s"
  "sc_db (publish_status s) = sc_db s" "map js_name (ss_jobs (sc_state (publish_status s))) = map job_name (sc_jobs s)"
  by (simp_all add: publish_status_def comp_def job_status_def default_JobStatus_def Let_def split: option.split)

lemma put_fields [simp]:
  "sc_jobs (put_jobs js s) = sc_jobs s" "sc_next_run (put_jobs js s) = sc_next_run s" "sc_db (put_jobs js s) = sc_db s"
  "ss_jobs (sc_state (put_jobs js s)) = js" "ss_alerts (sc_state (put_jobs js s)) = ss_alerts (sc_state s)"
  "sc_queue (put_jobs js s) = sc_queue s" "sc_running (put_jobs js s) = sc_running s"
  by (simp_all add: put_jobs_def)

lemma core_ok_cong:
  assumes "core_ok cfg s" "sc_jobs s' = sc_jobs s" "dom (sc_next_run s') \<subseteq> dom (sc_next_run s)"
    "db_job_defs (sc_db s') = db_job_defs (sc_db s)"
  shows "core_ok cfg s'"
  unfolding core_ok_def by (rule sched_ok_cong [OF assms(1) [unfolded core_ok_def]]) (simp_all add: assms)

lemma sched_ok_core: "sched_ok cfg s \<Longrightarrow> core_ok cfg s"
  unfolding core_ok_def
  by (rule sched_ok_cong) (simp_all add: sched_ok_def sched_inv_def)

lemma core_ok_published:
  assumes "core_ok cfg s" "map js_name (ss_jobs (sc_state s)) = map job_name (sc_jobs s)"
  shows "sched_ok cfg s"
  by (rule sched_ok_cong [OF assms(1) [unfolded core_ok_def]]) (simp_all add: assms(2))

lemma core_ok_unpublished [simp]: "core_ok cfg (unpublished s s') \<longleftrightarrow> core_ok cfg s'"
  by (auto simp: unpublished_def intro: core_ok_cong)

lemma core_ok_put [simp]: "core_ok cfg (put_jobs js s) \<longleftrightarrow> core_ok cfg s"
  by (auto intro: core_ok_cong)

lemma add_job_core:
  assumes "core_ok cfg s" "ui_job_ok job" "add_job lt now rc job s = (s', [])"
  shows "core_ok cfg s'"
proof -
  let ?p = "publish_status s"
  have p: "sched_ok cfg (fst (add_job lt now rc job ?p))"
    using add_job_ok [OF _ assms(2)] assms(1) by (simp add: core_ok_def)
  show ?thesis
  proof (cases lt now rc job s rule: add_job_cases)
    case (rejected err)
    then show ?thesis using assms(1,3) by simp
  next
    case s1: (added s1)
    have "snd (add_job lt now rc job ?p) = snd (add_job lt now rc job s)"
      by (simp add: add_job_def Let_def split_beta split: cxx.split option.split)
    then have ok: "snd (add_job lt now rc job ?p) = []" using assms(3) by simp
    show ?thesis
    proof (cases lt now rc job ?p rule: add_job_cases)
      case (rejected err)
      then show ?thesis using ok by simp
    next
      case (added s2)
      have "sc_jobs s1 = sc_jobs s2" "db_job_defs (sc_db s1) = db_job_defs (sc_db s2)" "sc_next_run s1 = sc_next_run s2"
        using s1(5-7) added(5-7) by (simp_all cong: option.case_cong)
      moreover have "s' = publish_status s1" using assms(3) s1(1) by simp
      ultimately show ?thesis
        using added(1) by (intro core_ok_cong [OF sched_ok_core [OF p]]) simp_all
    qed
  qed
qed

lemma remove_job_core:
  assumes "core_ok cfg s" "remove_job rc n s = (s', [])"
  shows "core_ok cfg s'"
proof -
  let ?p = "publish_status s"
  have p: "sched_ok cfg (fst (remove_job rc n ?p))"
    using remove_job_ok assms(1) by (simp add: core_ok_def)
  show ?thesis
  proof (cases rc n s rule: remove_job_cases)
    case (rejected err)
    then show ?thesis using assms by simp
  next
    case s1: (removed s1 j)
    have "snd (remove_job rc n ?p) = snd (remove_job rc n s)"
      by (simp add: remove_job_def Let_def split_beta split: cxx.split option.split)
    then have ok: "snd (remove_job rc n ?p) = []" using assms(2) by simp
    show ?thesis
    proof (cases rc n ?p rule: remove_job_cases)
      case (rejected err)
      then show ?thesis using ok by simp
    next
      case (removed s2 k)
      moreover have "s' = publish_status s1" using assms(2) s1(1) by simp
      ultimately show ?thesis
        using s1(5-7) by (intro core_ok_cong [OF sched_ok_core [OF p]]) simp_all
    qed
  qed
qed

lemma tick_next_run_dom:
  assumes "distinct (map job_name (sc_jobs s))" "tick lt env s = Ret (s', launches, ns)"
  shows "dom (sc_next_run s') \<subseteq> dom (sc_next_run s)"
proof -
  have d: "distinct (map job_name (sc_jobs (before_launch lt env s)))" using assms(1) by (simp add: sched_frame)
  show ?thesis
    by (auto simp: tick_RetD(3) [OF assms(2)] collect_eq(3) [OF d] sched_frame due_def dest!: find_job_name
        split: option.splits if_splits)
qed

lemma tick_core:
  assumes "core_ok cfg s" "tick lt env s = Ret (s', launches, ns)"
  shows "core_ok cfg s'"
proof -
  have "distinct (map job_name (sc_jobs s))"
    using assms(1) by (simp add: core_ok_def sched_ok_def sched_inv_def)
  then show ?thesis
    using tick_RetD(2,6) [OF assms(2)] tick_next_run_dom [OF _ assms(2)]
    by (intro core_ok_cong [OF assms(1)]) simp_all
qed

lemma th_step_core:
  assumes "th_step lt y y'" "core_ok cfg (th_sched y)"
  shows "core_ok cfg (th_sched y')"
  using assms(1)
proof cases
  case (th_tick env s' launches ns)
  then show ?thesis using tick_core [OF assms(2)] by simp
next
  case (th_add job now rc s')
  then show ?thesis using add_job_core [OF assms(2)] by simp
next
  case (th_remove rc n s')
  then show ?thesis using remove_job_core [OF assms(2)] by simp
next
  case (th_scan now env)
  then show ?thesis by (auto intro!: core_ok_cong [OF assms(2)] simp: scan_missed_def sched_frame)
qed (auto intro!: core_ok_cong [OF assms(2)] simp: assms(2) request_run_def enqueue_def notify_wake_def stop_def
    record_attempt_def write_frame sched_frame mark_done_def Let_def)

lemma unpublished_moves_on: "moves_on (shared s) (shared s') \<Longrightarrow> moves_on (shared s) (shared (unpublished s s'))"
  by (simp add: moves_on_def shared_def unpublished_def)

lemma th_step_moves_on: "th_step lt y y' \<Longrightarrow> moves_on (shared (th_sched y)) (shared (th_sched y'))"
proof (induction rule: th_step.induct)
  case (th_tick y env s' launches ns)
  then show ?case by (simp add: unpublished_moves_on tick_moves_on)
next
  case (th_add y job now rc s')
  then show ?case using add_job_moves_on [of "th_sched y" lt now rc job] by (simp add: unpublished_moves_on)
next
  case (th_remove y rc n s')
  then show ?case using remove_job_moves_on [of "th_sched y" rc n] by (simp add: unpublished_moves_on)
next
  case (th_scan y now env)
  show ?case by (simp add: scan_moves_on)
next
  case (th_alert y ae n sv m detail v)
  show ?case by (simp add: emit_moves_on)
next
  case (th_attempt y rc job trigger res)
  show ?case by (simp add: record_attempt_def Let_def moves_on_def shared_def)
qed (simp_all add: request_run_def enqueue_def notify_wake_def stop_def mark_done_def finish_tasks_def moves_on_same)

subsection \<open>Staleness and convergence\<close>

abbreviation job_names :: "Threads \<Rightarrow> string list" where
  "job_names y \<equiv> map job_name (sc_jobs (th_sched y))"

abbreviation published_names :: "Threads \<Rightarrow> string list" where
  "published_names y \<equiv> map js_name (ss_jobs (sc_state (th_sched y)))"

lemma snapshot_names [simp]: "map js_name (snapshot s) = map job_name (sc_jobs s)"
  using publish_fields(4) [of s] by (simp add: publish_is_snapshot_then_put)

lemma unpublished_fields [simp]:
  "ss_jobs (sc_state (unpublished s s')) = ss_jobs (sc_state s)" "sc_jobs (unpublished s s') = sc_jobs s'"
  by (simp_all add: unpublished_def)

text \<open>Without the socket thread the jobs stay, and only the loop's own store changes the published list.\<close>

lemma without_socket_names:
  assumes "without_socket lt y y'"
  shows "sc_jobs (th_sched y') = sc_jobs (th_sched y)"
    "published_names y' = (case th_loop y of To_put js \<Rightarrow> if th_loop y' = Idle then map js_name js else published_names y
       | _ \<Rightarrow> published_names y)"
    "th_loop y' = th_loop y \<or> (th_loop y = Idle \<and> th_loop y' = To_snapshot) \<or>
       (th_loop y = To_snapshot \<and> th_loop y' = To_put (snapshot (th_sched y))) \<or>
       (\<exists>js. th_loop y = To_put js \<and> th_loop y' = Idle)"
proof -
  have st: "th_step lt y y'" "th_socket y = Idle" "th_socket y' = Idle"
    using assms by (simp_all add: without_socket_def)
  note frame = request_run_def enqueue_def notify_wake_def stop_def record_attempt_def sched_frame mark_done_def
    scan_missed_def Let_def
  show "sc_jobs (th_sched y') = sc_jobs (th_sched y)"
    using st(1) by cases (use st in \<open>auto simp: frame tick_RetD(2)\<close>)
  show "published_names y' = (case th_loop y of To_put js \<Rightarrow> if th_loop y' = Idle then map js_name js else published_names y
       | _ \<Rightarrow> published_names y)"
    using st(1) by cases (use st in \<open>auto simp: frame split: pub.split\<close>)
  show "th_loop y' = th_loop y \<or> (th_loop y = Idle \<and> th_loop y' = To_snapshot) \<or>
       (th_loop y = To_snapshot \<and> th_loop y' = To_put (snapshot (th_sched y))) \<or>
       (\<exists>js. th_loop y = To_put js \<and> th_loop y' = Idle)"
    using st(1) by cases auto
qed

definition converging :: "Threads \<Rightarrow> bool" where
  "converging y \<longleftrightarrow> (\<forall>js. th_loop y = To_put js \<longrightarrow> map js_name js = job_names y) \<and>
     (th_loop y = Idle \<longrightarrow> published_names y = job_names y)"

lemma converging_step:
  assumes "without_socket lt y y'" "converging y"
  shows "converging y'"
  using without_socket_names [OF assms(1)] assms(2)
  by (cases "th_loop y") (auto simp: converging_def split: if_splits)

text \<open>C18: the published list of jobs converges. Once the socket thread has finished and the loop thread has
  an iteration's publication still before it, then whatever the loop, the workers and the power
  monitor do, at every later moment at which the loop thread is not publishing the list shows exactly the
  jobs.\<close>

theorem publication_converges:
  assumes "(without_socket lt)\<^sup>*\<^sup>* y y'" "th_loop y = To_snapshot" "th_loop y' = Idle"
  shows "published_names y' = job_names y' \<and> sc_jobs (th_sched y') = sc_jobs (th_sched y)"
proof -
  have "converging y' \<and> sc_jobs (th_sched y') = sc_jobs (th_sched y)"
    using assms(1)
  proof (induction rule: rtranclp_induct)
    case base
    then show ?case using assms(2) by (simp add: converging_def)
  next
    case (step b c)
    then show ?case using converging_step [OF step.hyps(2)] without_socket_names(1) [OF step.hyps(2)] by simp
  qed
  then show ?thesis using assms(3) by (simp add: converging_def)
qed

text \<open>C19: until then an accepted job can be missing from the list. If the loop thread has taken its snapshot
  when the socket thread adds a job and publishes, the loop's later store puts the old list back: the
  request has been answered, no thread is publishing, the job is there, and the list does not show it.\<close>

theorem stale_publication_hides_job:
  assumes "th_loop y = To_snapshot" "th_socket y = Idle" "ui_job_ok job"
    and "add_job lt now rc job (th_sched y) = (s', [])"
  shows "\<exists>y'. (th_step lt)\<^sup>*\<^sup>* y y' \<and> th_loop y' = Idle \<and> th_socket y' = Idle \<and>
    job_names y' = job_names y @ [job_name job] \<and> published_names y' = job_names y \<and>
    job_name job \<notin> set (published_names y')"
proof -
  let ?s = "th_sched y"
  let ?u = "unpublished ?s s'"
  define y1 where "y1 = y\<lparr>th_loop := To_put (snapshot ?s)\<rparr>"
  define y2 where "y2 = y1\<lparr>th_sched := ?u, th_socket := To_snapshot\<rparr>"
  define y3 where "y3 = y2\<lparr>th_socket := To_put (snapshot ?u)\<rparr>"
  define y4 where "y4 = y3\<lparr>th_sched := put_jobs (snapshot ?u) ?u, th_socket := Idle\<rparr>"
  define y5 where "y5 = y4\<lparr>th_sched := put_jobs (snapshot ?s) (th_sched y4), th_loop := Idle\<rparr>"
  have "th_step lt y y1" unfolding y1_def using assms(1) by (rule th_loop_snapshot)
  moreover have "th_step lt y1 y2"
    using th_add [of y1 job lt now rc s'] assms by (simp add: y2_def y1_def)
  moreover have "th_step lt y2 y3" using th_socket_snapshot [of y2] by (simp add: y3_def y2_def)
  moreover have "th_step lt y3 y4" using th_socket_put [of y3 "snapshot ?u"] by (simp add: y4_def y3_def y2_def)
  moreover have "th_step lt y4 y5"
    using th_loop_put [of y4 "snapshot ?s"] by (simp add: y5_def y4_def y3_def y2_def y1_def)
  ultimately have run: "(th_step lt)\<^sup>*\<^sup>* y y5" by (metis (no_types) converse_rtranclp_into_rtranclp rtranclp.rtrancl_refl)
  have names: "map job_name (sc_jobs s') = map job_name (sc_jobs ?s) @ [job_name job]" "job_name job \<notin> job_name ` set (sc_jobs ?s)"
    by (cases lt now rc job ?s rule: add_job_cases; use assms(4) in auto)+
  show ?thesis
    using run names by (intro exI [of _ y5]) (simp add: y5_def y4_def y3_def y2_def)
qed

subsection \<open>Witnesses\<close>

definition publishing :: Threads where
  "publishing = \<lparr>th_sched = fresh_state, th_loop = To_snapshot, th_socket = Idle\<rparr>"

lemma backup_accepted: "\<exists>s'. add_job utc_day 1000 (Write_done 1) backup_job fresh_state = (s', [])"
  by (simp add: add_job_def find_job_def fresh_state_def config_job_def backup_job_def default_Job_def upsert_job_def_def
      write_stmt_def Let_def)

theorem stale_publication_hides_job_witness:
  "\<exists>y'. (th_step utc_day)\<^sup>*\<^sup>* publishing y' \<and> ''backup'' \<in> set (job_names y') \<and> ''backup'' \<notin> set (published_names y')"
proof -
  obtain s' where "add_job utc_day 1000 (Write_done 1) backup_job (th_sched publishing) = (s', [])"
    using backup_accepted by (auto simp: publishing_def)
  moreover have "th_loop publishing = To_snapshot" "th_socket publishing = Idle" "ui_job_ok backup_job" "job_name backup_job = ''backup''"
    by (simp_all add: publishing_def backup_job_def default_Job_def ui_job_ok_def nul_free_def code_of_def)
  ultimately obtain y' where y': "(th_step utc_day)\<^sup>*\<^sup>* publishing y'" "job_names y' = job_names publishing @ [''backup'']"
    "''backup'' \<notin> set (published_names y')"
    using stale_publication_hides_job [of publishing backup_job utc_day 1000 "Write_done 1" s'] by metis
  have "''backup'' \<in> set (job_names y')" by (simp only: y'(2) set_append) simp
  with y'(1,3) show ?thesis by blast
qed

theorem publication_converges_witness:
  "\<exists>y'. (without_socket utc_day)\<^sup>*\<^sup>* publishing y' \<and> th_loop y' = Idle \<and> published_names y' = job_names y'"
proof -
  define y1 where "y1 = publishing\<lparr>th_loop := To_put (snapshot fresh_state)\<rparr>"
  define y2 where "y2 = y1\<lparr>th_sched := put_jobs (snapshot fresh_state) fresh_state, th_loop := Idle\<rparr>"
  have "without_socket utc_day publishing y1"
    using th_loop_snapshot [of publishing utc_day] by (simp add: without_socket_def y1_def publishing_def)
  moreover have "without_socket utc_day y1 y2"
    using th_loop_put [of y1 "snapshot fresh_state" utc_day] by (simp add: without_socket_def y2_def y1_def publishing_def)
  ultimately have "(without_socket utc_day)\<^sup>*\<^sup>* publishing y2" by (metis (no_types) converse_rtranclp_into_rtranclp rtranclp.rtrancl_refl)
  from publication_converges [OF this] this show ?thesis by (auto simp: y2_def publishing_def)
qed

theorem worker_is_steps_witness:
  "\<exists>s' ns. worker [one_try] True (5, Write_done 1) quarter_job ''manual'' quarter_state = Ret (Some (s', ns)) \<and>
     (sched_step utc_day)\<^sup>*\<^sup>* quarter_state s'"
proof -
  obtain s' where run: "worker [one_try] True (5, Write_done 1) quarter_job ''manual'' quarter_state = Ret (Some (s', []))"
    by (simp add: worker_def quarter_job_def default_Job_def INT_MAX_def one_try_def sample_run_defs)
  with worker_is_steps [OF run] show ?thesis by blast
qed

end
