(* ===== verification/System.thy ===== *)
theory System
  imports Threads Signals Lifecycle
begin

text \<open>
  The running daemon: the scheduler with its threads (the theory \<open>Threads\<close>) and the sampler on the main
  thread, over one database file and one \<open>SharedState\<close>, as \<open>main\<close> of \<open>daemon/src/main.cpp\<close> wires them.
  A round of the sampler is the list of the writes it makes to what is shared, each an atomic step (a
  call of \<open>SharedState\<close> holds its mutex, an insertion is a transaction), so the writes of a round and the
  steps of the other threads interleave freely.
\<close>

section \<open>The writes of a round\<close>

datatype shared_op =
    Put_cpu double int
  | Put_self nat double
  | Put_system SystemSnapshot
  | Put_metric write_rc int string double
  | Put_alert_row write_rc AlertRecord
  | Put_alert AlertInfo

fun apply_op :: "shared_op \<Rightarrow> Database \<times> SharedState \<Rightarrow> Database \<times> SharedState" where
  "apply_op (Put_cpu p ts) (db, st) = (db, set_cpu p ts st)"
| "apply_op (Put_self rss p) (db, st) = (db, set_self rss p st)"
| "apply_op (Put_system sys) (db, st) = (db, set_system sys st)"
| "apply_op (Put_metric rc ts m v) (db, st) = (fst (insert_metric rc ts m v db), st)"
| "apply_op (Put_alert_row rc a) (db, st) = (fst (insert_alert rc a db), st)"
| "apply_op (Put_alert a) (db, st) = (db, add_alert kRecentAlerts a st)"

text \<open>The insertions of the \<open>try\<close> block: the first that fails is the last.\<close>

fun metric_ops :: "(nat \<Rightarrow> write_rc) \<Rightarrow> nat \<Rightarrow> int \<Rightarrow> (string \<times> double) list \<Rightarrow> shared_op list" where
  "metric_ops rc i ts [] = []"
| "metric_ops rc i ts ((m, v) # ms) =
     Put_metric (rc i) ts m v # (case rc i of Write_done _ \<Rightarrow> metric_ops rc (Suc i) ts ms | _ \<Rightarrow> [])"

fun alert_ops :: "(nat \<Rightarrow> write_rc) \<Rightarrow> nat \<Rightarrow> AlertEvent list \<Rightarrow> shared_op list" where
  "alert_ops rc i [] = []"
| "alert_ops rc i (e # es) =
     Put_alert_row (rc i) (alert_record e) # Put_alert (alert_info e) # alert_ops rc (Suc i) es"

definition round_ops :: "surroundings \<Rightarrow> round \<Rightarrow> Sampler \<Rightarrow> shared_op list" where
  "round_ops su r s =
     (let (s1, rd) = take_readings su r s;
          events = snd (evaluate (su_lt su) (su_double su) (metric_map rd) (ro_ts r)
                          (attribution (su_round su) (rd_top rd)) (sm_engine s1));
          self = rd_self rd
      in [Put_cpu (rd_cpu rd) (ro_ts r)] @
         (if sf_valid self then [Put_self (unat (sf_rss_bytes self)) (sf_cpu_percent self)] else []) @
         [Put_system (system_snapshot (ro_ts r) rd)] @
         metric_ops (ro_metric_rc r) 0 (ro_ts r) (metric_rows rd) @
         alert_ops (ro_alert_rc r) 0 events)"

lemma metric_ops_eq:
  "fold apply_op (metric_ops rc i ts ms) (db, st) = (insert_metrics rc i ts ms db, st)"
proof (induction ms arbitrary: i db)
  case (Cons m ms)
  obtain n v where "m = (n, v)" by (cases m)
  then show ?case
    using Cons.IH by (cases "rc i") (simp_all add: insert_metric_def write_stmt_def)
qed simp

lemma alert_ops_eq: "fold apply_op (alert_ops rc i es) (db, st) = fst (handle_events rc i es (db, st))"
  by (induction es arbitrary: i db st) (simp_all add: Let_def split_beta)

lemma round_ops_eq:
  "fold apply_op (round_ops su r s) (db, st) =
     (sm_db (fst (sample_once su r (s\<lparr>sm_db := db, sm_state := st\<rparr>))),
      sm_state (fst (sample_once su r (s\<lparr>sm_db := db, sm_state := st\<rparr>))))"
  by (simp add: round_ops_def sample_once_def take_readings_def publish_readings_def Let_def split_beta
      metric_ops_eq alert_ops_eq)

text \<open>Fact: a round is its writes. Whatever the other threads have left in the database and in the shared
  state, making the writes of a round one after the other has the effect of the round, and which writes
  it makes, what its alert engine becomes and what it posts do not depend on what is shared.\<close>

theorem round_is_its_writes:
  "let s' = s\<lparr>sm_db := db, sm_state := st\<rparr>
   in fold apply_op (round_ops su r s) (db, st) =
        (sm_db (fst (sample_once su r s')), sm_state (fst (sample_once su r s'))) \<and>
      round_ops su r s' = round_ops su r s \<and>
      sm_engine (fst (sample_once su r s')) = sm_engine (fst (sample_once su r s)) \<and>
      sm_next (fst (sample_once su r s')) = sm_next (fst (sample_once su r s)) \<and>
      snd (sample_once su r s') = snd (sample_once su r s)"
  unfolding Let_def
  by (intro conjI round_ops_eq)
     (simp_all add: round_ops_def sample_once_def take_readings_def Let_def split_beta handle_events_eq)

section \<open>The system\<close>

record System =
  sy_threads :: Threads
  sy_sampler :: Sampler
  sy_pending :: "shared_op list"

abbreviation sy_sched :: "System \<Rightarrow> Scheduler" where
  "sy_sched y \<equiv> th_sched (sy_threads y)"

definition put_shared :: "Database \<times> SharedState \<Rightarrow> Scheduler \<Rightarrow> Scheduler" where
  "put_shared x s = s\<lparr>sc_db := fst x, sc_state := snd x\<rparr>"

inductive system_step :: "(int \<Rightarrow> tm) \<Rightarrow> surroundings \<Rightarrow> System \<Rightarrow> System \<Rightarrow> bool" for lt su where
  sys_thread: "th_step lt (sy_threads y) t \<Longrightarrow> system_step lt su y (y\<lparr>sy_threads := t\<rparr>)"
| sys_hangup: "system_step lt su y (y\<lparr>sy_sampler := handle_sighup (sy_sampler y)\<rparr>)"
| sys_round: "sy_pending y = [] \<Longrightarrow> reload_config (ro_config (r :: round)) (sy_sampler y) = Ret s \<Longrightarrow> sm_next s \<le> ro_steady r \<Longrightarrow>
    system_step lt su y (y\<lparr>sy_sampler := fst (sample_once su r s), sy_pending := round_ops su r s\<rparr>)"
| sys_wait: "sy_pending y = [] \<Longrightarrow> reload_config (ro_config (r :: round)) (sy_sampler y) = Ret s \<Longrightarrow> ro_steady r < sm_next s \<Longrightarrow>
    system_step lt su y (y\<lparr>sy_sampler := s\<rparr>)"
| sys_write: "sy_pending y = op # ops \<Longrightarrow>
    system_step lt su y (y\<lparr>sy_threads := (sy_threads y)\<lparr>th_sched := put_shared (apply_op op (shared (sy_sched y))) (sy_sched y)\<rparr>,
      sy_pending := ops\<rparr>)"

inductive_cases system_stepE: "system_step lt su y y'"

text \<open>The daemon when \<open>main\<close> enters its sampler loop.\<close>

definition boot_system :: "surroundings \<Rightarrow> round \<Rightarrow> daemon \<Rightarrow> System" where
  "boot_system su r d =
     \<lparr>sy_threads = \<lparr>th_sched = dm_scheduler d, th_loop = Idle, th_socket = Idle\<rparr>,
      sy_sampler = start_sampler su r (dm_rules d) (dm_quiet d) (sc_db (dm_scheduler d)) (sc_state (dm_scheduler d)),
      sy_pending = []\<rparr>"

section \<open>Requests\<close>

text \<open>A request handed to the API asks the scheduler for a run, adds a job that can be stored, removes one, or
  changes nothing.\<close>

lemma request_cases:
  assumes "daemon_handler e req s = (s', r)" "clean_body (de_lib e) req"
  obtains (same) "s' = s"
  | (run) n where "s' = fst (request_run n s)"
  | (add) job where "add_job (de_lt e) (de_now e) (de_rc e) job s = (s', [])" "ui_job_ok job"
  | (remove) n where "remove_job (de_rc e) n s = (s', [])"
proof -
  let ?api = "daemon_api e" and ?q = "parse_request (de_lib e) req"
  have s': "s' = fst (respond (de_lib e) ?api (de_request e) req s)"
    using assms(1) by (auto simp: daemon_handler_def handle_def split_beta)
  show thesis
  proof (cases rule: respond_cases [where lib = "de_lib e" and api = ?api and env = "de_request e"
      and request = req and s = s])
    case read_only
    then show ?thesis using s' same by simp
  next
    case add
    then show ?thesis
    proof (cases rule: add_job_reply_cases [where lib = "de_lib e" and api = ?api and request = req and s = s])
      case (handled h body job s1 err)
      then have ok: "ui_job_ok job" using assms(2) by (simp add: clean_body_def ui_job_ok_def)
      have h: "add_job (de_lt e) (de_now e) (de_rc e) job s = (s', err)" using handled add s' by simp
      show ?thesis
      proof (cases "err = []")
        case True
        then show ?thesis using that(3) [OF _ ok] h by simp
      next
        case False
        then show ?thesis using add_job_contract(1) [OF h] same by simp
      qed
    qed (use s' add same in auto)
  next
    case remove
    then show ?thesis
    proof (cases ?api ?q s rule: remove_job_reply_cases)
      case (handled h s1 err)
      then have h: "remove_job (de_rc e) (rq_arg ?q) s = (s', err)" using remove s' by simp
      then show ?thesis using remove_job_contract(1) [OF h] same that(4) by (cases "err = []") auto
    qed (use s' remove same in auto)
  next
    case run
    then show ?thesis
    proof (cases ?api ?q s rule: run_reply_cases)
      case (handled h s1 queued)
      then show ?thesis using run s' that(2) [of "rq_arg ?q"] by simp
    qed (use s' run same in auto)
  qed
qed

text \<open>A change followed by the two halves of its publication.\<close>

lemma published_by_steps:
  assumes "th_step lt y (y\<lparr>th_sched := unpublished (th_sched y) (publish_status s1), th_socket := To_snapshot\<rparr>)"
    "th_socket y = Idle"
  shows "(th_step lt)\<^sup>*\<^sup>* y (y\<lparr>th_sched := publish_status s1\<rparr>)"
proof -
  let ?u = "unpublished (th_sched y) (publish_status s1)"
  define y1 where "y1 = y\<lparr>th_sched := ?u, th_socket := To_snapshot\<rparr>"
  define y2 where "y2 = y1\<lparr>th_socket := To_put (snapshot ?u)\<rparr>"
  have one: "th_step lt y y1" using assms(1) by (simp add: y1_def)
  have two: "th_step lt y1 y2" using th_socket_snapshot [of y1 lt] by (simp add: y2_def y1_def)
  have "put_jobs (snapshot ?u) ?u = publish_status s1"
    by (simp add: publish_is_snapshot_then_put [symmetric] publish_unpublished)
  moreover have "y\<lparr>th_sched := publish_status s1, th_socket := Idle\<rparr> = y\<lparr>th_sched := publish_status s1\<rparr>"
    using assms(2) by (cases y) simp
  ultimately have "th_step lt y2 (y\<lparr>th_sched := publish_status s1\<rparr>)"
    using th_socket_put [of y2 "snapshot ?u" lt] by (simp add: y2_def y1_def)
  with one two show ?thesis by (metis (no_types) converse_rtranclp_into_rtranclp rtranclp.rtrancl_refl)
qed

text \<open>Fact: serving a request is a sequence of the socket thread's steps. Whatever the request says, as long as
  the strings it would store have no NUL byte, the handler that \<open>main\<close> installs changes the scheduler only by
  steps of the thread system, publication included, so what is proved of every interleaving of those
  steps holds of the daemon serving requests.\<close>

theorem request_is_thread_steps:
  assumes "daemon_handler e req (th_sched y) = (s', r)" "clean_body (de_lib e) req" "th_socket y = Idle"
  shows "(th_step (de_lt e))\<^sup>*\<^sup>* y (y\<lparr>th_sched := s'\<rparr>)"
  using assms(1,2)
proof (cases rule: request_cases)
  case same
  then show ?thesis by simp
next
  case (run n)
  then show ?thesis using th_request [OF assms(3)] by auto
next
  case (add job)
  note step = th_add [OF assms(3) add(2,1)]
  show ?thesis
  proof (cases "de_lt e" "de_now e" "de_rc e" job "th_sched y" rule: add_job_cases)
    case (added s1)
    then have "s' = publish_status s1" using add(1) by simp
    then show ?thesis using published_by_steps [of "de_lt e" y s1] step assms(3) by simp
  qed (use add(1) in simp)
next
  case (remove n)
  note step = th_remove [OF assms(3) remove, of "de_lt e"]
  show ?thesis
  proof (cases "de_rc e" n "th_sched y" rule: remove_job_cases)
    case (removed s1 j)
    then have "s' = publish_status s1" using remove by simp
    then show ?thesis using published_by_steps [of "de_lt e" y s1] step assms(3) by simp
  qed (use remove in simp)
qed

section \<open>The invariant\<close>

definition sys_ok :: "Job list \<Rightarrow> System \<Rightarrow> bool" where
  "sys_ok cfg y \<longleftrightarrow> core_ok cfg (sy_sched y) \<and> length (ss_alerts (sc_state (sy_sched y))) \<le> kRecentAlerts"

lemma apply_op_moves_on: "moves_on x (apply_op op x)"
  by (cases op; cases x) (simp_all add: moves_on_def set_cpu_def set_self_def set_system_def)

lemma apply_op_defs: "db_job_defs (fst (apply_op op x)) = db_job_defs (fst x)"
  by (cases op; cases x) (simp_all add: write_frame insert_metric_def write_stmt_def split: write_rc.split)

lemma shared_put [simp]: "shared (put_shared x s) = x"
  by (simp add: shared_def put_shared_def)

lemma system_step_moves_on: "system_step lt su y y' \<Longrightarrow> moves_on (shared (sy_sched y)) (shared (sy_sched y'))"
  by (induction rule: system_step.induct) (simp_all add: th_step_moves_on apply_op_moves_on)

lemma put_shared_core:
  "core_ok cfg s \<Longrightarrow> db_job_defs (fst x) = db_job_defs (sc_db s) \<Longrightarrow> core_ok cfg (put_shared x s)"
  by (erule core_ok_cong) (simp_all add: put_shared_def)

lemma system_step_ok:
  assumes "system_step lt su y y'" "sys_ok cfg y"
  shows "sys_ok cfg y'"
proof -
  have "core_ok cfg (sy_sched y')"
    using assms(1)
  proof cases
    case (sys_thread t)
    then show ?thesis using th_step_core [of lt "sy_threads y" t cfg] assms(2) by (simp add: sys_ok_def)
  next
    case (sys_write op ops)
    have "db_job_defs (fst (apply_op op (shared (sy_sched y)))) = db_job_defs (sc_db (sy_sched y))"
      by (simp add: apply_op_defs) (simp add: shared_def)
    then show ?thesis using assms(2) sys_write by (simp add: sys_ok_def put_shared_core)
  qed (use assms(2) in \<open>simp_all add: sys_ok_def\<close>)
  moreover have "ring_moves (ss_alerts (sc_state (sy_sched y))) (ss_alerts (sc_state (sy_sched y')))"
    using system_step_moves_on [OF assms(1)] by (simp add: moves_on_def shared_def)
  ultimately show ?thesis using assms(2) ring_moves_bounded by (auto simp: sys_ok_def)
qed

text \<open>What is shared only moves on along any sequence of steps.\<close>

locale monotone_steps =
  fixes step :: "'s \<Rightarrow> 's \<Rightarrow> bool"
    and view :: "'s \<Rightarrow> 'v"
    and le :: "'v \<Rightarrow> 'v \<Rightarrow> bool"
    and good :: "'s \<Rightarrow> bool"
  assumes le_refl: "le v v"
    and le_trans: "le u v \<Longrightarrow> le v w \<Longrightarrow> le u w"
    and step_le: "step s s' \<Longrightarrow> le (view s) (view s')"
    and step_good: "step s s' \<Longrightarrow> good s \<Longrightarrow> good s'"
begin

lemma steps_le: "step\<^sup>*\<^sup>* s s' \<Longrightarrow> le (view s) (view s')"
  by (induction rule: rtranclp_induct) (auto intro: le_refl le_trans step_le)

lemma steps_good: "step\<^sup>*\<^sup>* s s' \<Longrightarrow> good s \<Longrightarrow> good s'"
  by (induction rule: rtranclp_induct) (auto intro: step_good)

lemma steps_le_between: "step\<^sup>*\<^sup>* s s' \<Longrightarrow> step\<^sup>*\<^sup>* s' s'' \<Longrightarrow> le (view s) (view s') \<and> le (view s') (view s'')"
  by (auto intro: steps_le)

end

interpretation sys: monotone_steps "system_step lt su" "\<lambda>y. shared (sy_sched y)" moves_on "sys_ok cfg" for lt su cfg
  by unfold_locales (auto intro: moves_on_trans system_step_moves_on system_step_ok)

lemma new_Scheduler_alerts:
  "new_Scheduler lt opened rc rcs now cfg db st = Ret s \<Longrightarrow> ss_alerts (sc_state s) = ss_alerts st"
  by (auto simp: new_Scheduler_def cxx_simps publish_status_def dest!: load_runs_RetD)

lemma boot_system_ok:
  assumes "boot lt env db = Ret (Up d)" "be_load env = load_config y file_exists load_file"
    and "be_defs_rc env = Read_complete" "distinct (map def_name (db_job_defs db))"
    "\<forall>def \<in> set (db_job_defs db). saved_def def"
  shows "\<exists>config. load_config y file_exists load_file (config_file (dm_paths d)) = Ret config \<and> wf_config config \<and>
    sys_ok (cfg_jobs config) (boot_system su r d)"
proof -
  obtain config sch where c: "be_load env (config_file (dm_paths d)) = Ret config"
    "new_Scheduler lt (be_sched_opened env) (be_defs_rc env) (be_runs_rc env) (be_now env)
       (cfg_jobs config) db init_SharedState = Ret sch"
    "dm_scheduler d = fst (start lt (be_wall env) (be_scan_now env) (be_alerts env) sch)"
    using assms(1) by (rule boot_UpE)
  have load: "load_config y file_exists load_file (config_file (dm_paths d)) = Ret config" using c(1) assms(2) by simp
  then have wf: "wf_config config" by (rule load_config_wf)
  then have jobs: "distinct (map job_name (cfg_jobs config))" "\<forall>j \<in> set (cfg_jobs config). job_source j \<noteq> ''ui''"
    by (auto simp: wf_config_def)
  have st: "sched_step lt sch (dm_scheduler d)" unfolding c(3) by (rule step_start)
  have "reachable lt (cfg_jobs config) sch" using c(2) assms(3-5) by (auto intro: reach_init)
  then have "sched_ok (cfg_jobs config) (dm_scheduler d)"
    using reachable_ok [OF reach_step [OF _ st] jobs] by simp
  moreover have "length (ss_alerts (sc_state (dm_scheduler d))) \<le> kRecentAlerts"
  proof (rule ring_moves_bounded)
    show "ring_moves (ss_alerts (sc_state sch)) (ss_alerts (sc_state (dm_scheduler d)))"
      using sched_step_moves_on [OF st] by (simp add: moves_on_def shared_def)
    show "length (ss_alerts (sc_state sch)) \<le> kRecentAlerts"
      by (simp add: new_Scheduler_alerts [OF c(2)] init_SharedState_def)
  qed
  ultimately show ?thesis using load wf by (auto simp: sys_ok_def boot_system_def sched_ok_core)
qed

section \<open>Properties\<close>



text \<open>Fact: a crash loses no job. If the process dies between any two steps of a run of the daemon, also
  between a change and its publication, a scheduler constructed on the same configuration and the
  database left behind has exactly the jobs the daemon had, with all their fields.\<close>

theorem crash_restart_preserves_jobs:
  assumes "boot lt env db = Ret (Up d)" "be_load env = load_config yl file_exists load_file"
    and "be_defs_rc env = Read_complete" "distinct (map def_name (db_job_defs db))"
    "\<forall>def \<in> set (db_job_defs db). saved_def def"
    and "(system_step lt su)\<^sup>*\<^sup>* (boot_system su r d) y" "\<forall>n e. rcs n \<noteq> Read_prepare_error e"
  shows "\<exists>config s'. load_config yl file_exists load_file (config_file (dm_paths d)) = Ret config \<and>
    new_Scheduler lt (Ret ()) Read_complete rcs now (cfg_jobs config) (sc_db (sy_sched y)) st = Ret s' \<and>
    set (sc_jobs s') = set (sc_jobs (sy_sched y))"
proof -
  obtain config where c: "load_config yl file_exists load_file (config_file (dm_paths d)) = Ret config"
    "wf_config config" "sys_ok (cfg_jobs config) (boot_system su r d)"
    using boot_system_ok [OF assms(1-5)] by blast
  have "sched_ok (cfg_jobs config) (publish_status (sy_sched y))"
    using sys.steps_good [OF assms(6) c(3)] by (simp add: sys_ok_def core_ok_def)
  from restart_ok [OF this _ _ assms(7), of lt now st] c(1,2) show ?thesis
    by (auto simp: wf_config_def)
qed

subsection \<open>Witnesses\<close>

text \<open>The first start of the daemon, its first round, and the first write of it while a wake-up arrives.\<close>

lemma first_boot_loads: "be_load first_boot = load_config sample_yaml (\<lambda>_. False) (\<lambda>_. Throw ''unreadable'')"
  "be_defs_rc first_boot = Read_complete" "db_job_defs empty_Database = []"
  by (simp_all add: first_boot_def empty_Database_def)

lemma first_steps:
  "\<exists>y. (system_step utc_day plain)\<^sup>*\<^sup>* (boot_system plain (hot_round 0) d) y \<and> sc_wake_pending (sy_sched y) \<and>
     cpu_sampled_at (ss_cpu (sc_state (sy_sched y))) = 100"
proof -
  define y0 where "y0 = boot_system plain (hot_round 0) d"
  let ?r = "hot_round 0"
  have s0: "\<not> sm_reload (sy_sampler y0)" "sm_next (sy_sampler y0) = 0" "sy_pending y0 = []"
    by (simp_all add: y0_def boot_system_def start_sampler_def hot_round_def)
  then have "reload_config (ro_config ?r) (sy_sampler y0) = Ret (sy_sampler y0)" by (simp add: reload_config_def)
  from sys_round [OF s0(3) this, of utc_day plain] s0(2)
  obtain y1 where y1: "system_step utc_day plain y0 y1" "sy_threads y1 = sy_threads y0"
    "sy_pending y1 = round_ops plain ?r (sy_sampler y0)"
    by (auto simp: hot_round_def)
  define y2 where "y2 = y1\<lparr>sy_threads := (sy_threads y1)\<lparr>th_sched := notify_wake (sy_sched y1)\<rparr>\<rparr>"
  have y2: "system_step utc_day plain y1 y2" unfolding y2_def by (rule sys_thread) (rule th_wake)
  obtain cpu ops where "sy_pending y2 = Put_cpu cpu 100 # ops"
    by (simp add: y2_def y1(3) round_ops_def Let_def split_beta) (simp add: hot_round_def)
  from sys_write [OF this, of utc_day plain] obtain y3 where "system_step utc_day plain y2 y3"
    "sc_wake_pending (sy_sched y3)" "cpu_sampled_at (ss_cpu (sc_state (sy_sched y3))) = 100"
    by (simp add: put_shared_def shared_def y2_def notify_wake_def set_cpu_def)
  with y1(1) y2 show ?thesis
    unfolding y0_def by (metis (no_types) converse_rtranclp_into_rtranclp rtranclp.rtrancl_refl)
qed


theorem crash_restart_preserves_jobs_witness:
  "\<exists>d y s' (config :: Config). boot utc_day first_boot empty_Database = Ret (Up d) \<and>
     (system_step utc_day plain)\<^sup>*\<^sup>* (boot_system plain (hot_round 0) d) y \<and> sc_wake_pending (sy_sched y) \<and>
     new_Scheduler utc_day (Ret ()) Read_complete (\<lambda>_. Read_complete) 2000 (cfg_jobs config) (sc_db (sy_sched y))
       init_SharedState = Ret s' \<and> set (sc_jobs s') = set (sc_jobs (sy_sched y))"
proof -
  obtain d y where up: "boot utc_day first_boot empty_Database = Ret (Up d)"
    "(system_step utc_day plain)\<^sup>*\<^sup>* (boot_system plain (hot_round 0) d) y" "sc_wake_pending (sy_sched y)"
    using first_boot_up first_steps by blast
  obtain config s' where "new_Scheduler utc_day (Ret ()) Read_complete (\<lambda>_. Read_complete) 2000 (cfg_jobs (config :: Config))
      (sc_db (sy_sched y)) init_SharedState = Ret s'" "set (sc_jobs s') = set (sc_jobs (sy_sched y))"
    using crash_restart_preserves_jobs [OF up(1) first_boot_loads(1,2) _ _ up(2), of "\<lambda>_. Read_complete" 2000 init_SharedState]
    by (auto simp: first_boot_loads(3))
  with up show ?thesis by blast
qed


theorem request_is_thread_steps_witness:
  "\<exists>s'. (th_step utc_day)\<^sup>*\<^sup>* publishing (publishing\<lparr>th_sched := s'\<rparr>) \<and> sc_queue s' = [(''report'', ''manual'')]"
proof -
  have q: "parse_request doc_lib ''run report'' = \<lparr>rq_cmd = ''run'', rq_arg = ''report'', rq_arg2 = []\<rparr>" by code_simp
  have j: "find_job ''report'' (sc_jobs fresh_state) = Some config_job"
    by (simp add: find_job_def fresh_state_def config_job_def default_Job_def)
  obtain r where r: "daemon_handler doc_env ''run report'' (th_sched publishing) = (enqueue ''report'' ''manual'' fresh_state, r)"
    by (simp add: daemon_handler_def handle_def respond_def q run_reply_def request_run_def publishing_def j)
  have "clean_body doc_lib ''run report''" by (simp add: clean_body_def doc_lib_def)
  from request_is_thread_steps [OF r] this show ?thesis
    by (intro exI [of _ "enqueue ''report'' ''manual'' fresh_state"])
       (simp add: publishing_def enqueue_def, simp add: fresh_state_def publish_status_def)
qed

end
