(* ===== verification/Sections.thy ===== *)
theory Sections
  imports System
begin

text \<open>
  The scheduler at the grain of its critical sections. The other theories take an operation of
  \<open>daemon/src/jobs/scheduler.cpp\<close> as one step, or as two with its publication apart. Here every
  \<open>lock_guard\<close> block of \<open>mutex_\<close> and of \<open>db_mutex_\<close>, every call of \<open>SharedState\<close> and every access to an atomic
  is a step of its own, the loop thread, the main thread, the socket thread and the workers each stand
  at a position in the code, and their steps interleave. The loop holds \<open>mutex_\<close> while it collects what
  to launch; a worker signals its end in an atomic, also while the loop collects.

  The whole operations are shown to be their sections run in a row.
\<close>

section \<open>Sections of the requests\<close>

definition add_check :: "Job \<Rightarrow> Scheduler \<Rightarrow> string" where
  "add_check job s =
     (if job_name job = [] then ''job name is required''
      else if job_command job = [] then ''job command is required''
      else if find_job (job_name job) (sc_jobs s) \<noteq> None
        then ''a job named '' @ quoted (job_name job) @ '' already exists''
      else [])"

definition add_store :: "write_rc \<Rightarrow> Job \<Rightarrow> Scheduler \<Rightarrow> Scheduler \<times> string" where
  "add_store rc stored s =
     (let (db, res) = upsert_job_def rc (def_from_job stored) (sc_db s)
      in (s\<lparr>sc_db := db\<rparr>, case res of Throw e \<Rightarrow> ''could not persist job: '' @ e | _ \<Rightarrow> []))"

definition add_push :: "(int \<Rightarrow> tm) \<Rightarrow> int \<Rightarrow> Job \<Rightarrow> Scheduler \<Rightarrow> Scheduler" where
  "add_push lt now stored s =
     (let s1 = s\<lparr>sc_jobs := sc_jobs s @ [stored]\<rparr>
      in case job_schedule stored of
           None \<Rightarrow> s1
         | Some sched \<Rightarrow>
             (case next_after lt sched now of
                None \<Rightarrow> s1
              | Some t \<Rightarrow> s1\<lparr>sc_next_run := (sc_next_run s1)(job_name stored \<mapsto> t)\<rparr>))"

definition remove_check :: "string \<Rightarrow> Scheduler \<Rightarrow> string" where
  "remove_check n s =
     (case find_job n (sc_jobs s) of
        None \<Rightarrow> ''no such job: '' @ quoted n
      | Some job \<Rightarrow>
          if job_source job \<noteq> ''ui'' then ''job '' @ quoted n @ '' is defined in config.yaml'' else [])"

definition remove_delete :: "write_rc \<Rightarrow> string \<Rightarrow> Scheduler \<Rightarrow> Scheduler \<times> string" where
  "remove_delete rc n s =
     (let (db, res) = delete_job_def rc n (sc_db s)
      in (s\<lparr>sc_db := db\<rparr>, case res of Throw e \<Rightarrow> ''could not delete job: '' @ e | _ \<Rightarrow> []))"

definition remove_erase :: "string \<Rightarrow> Scheduler \<Rightarrow> Scheduler" where
  "remove_erase n s =
     s\<lparr>sc_jobs := filter (\<lambda>j. job_name j \<noteq> n) (sc_jobs s), sc_next_run := (sc_next_run s)(n := None),
       sc_last_runs := (sc_last_runs s)(n := None), sc_missed_handled := (sc_missed_handled s)(n := None)\<rparr>"

section \<open>Sections of an alert and of a scan\<close>

definition alert_row :: "alert_env \<Rightarrow> string \<Rightarrow> string \<Rightarrow> string \<Rightarrow> string \<Rightarrow> double \<Rightarrow> Scheduler \<Rightarrow> Scheduler" where
  "alert_row env jobname severity message detail v s =
     s\<lparr>sc_db := fst (insert_alert (snd env)
         \<lparr>al_id = 0, al_ts = fst env, al_rule_name = jobname, al_severity = severity,
          al_metric = ''job'', al_kind = ''firing'', al_value = v, al_threshold = Fin 0,
          al_message = message, al_attribution = detail\<rparr> (sc_db s))\<rparr>"

definition alert_post :: "int \<Rightarrow> string \<Rightarrow> string \<Rightarrow> string \<Rightarrow> string \<Rightarrow> double \<Rightarrow> Scheduler \<Rightarrow> Scheduler" where
  "alert_post ts jobname severity message detail v s =
     s\<lparr>sc_state := add_alert kRecentAlerts
         \<lparr>ai_ts = ts, ai_rule_name = jobname, ai_severity = severity, ai_metric = ''job'',
          ai_kind = ''firing'', ai_value = v, ai_threshold = Fin 0, ai_message = message,
          ai_attribution = detail, ai_notify = True\<rparr> (sc_state s)\<rparr>"

text \<open>The last run of a candidate is read, and compared outside the lock.\<close>

definition scan_read :: "(int \<Rightarrow> tm) \<Rightarrow> int \<Rightarrow> Job \<Rightarrow> Scheduler \<Rightarrow> int option" where
  "scan_read lt now job s =
     (case job_schedule job of
        None \<Rightarrow> None
      | Some sched \<Rightarrow>
          detect_missed_run lt sched
            (case sc_last_runs s (job_name job) of None \<Rightarrow> 0 | Some r \<Rightarrow> run_started_at r) now)"

text \<open>The occurrence is marked as handled, unless it or a later one already is.\<close>

definition scan_mark :: "Job \<Rightarrow> int \<Rightarrow> Scheduler \<Rightarrow> Scheduler \<times> bool" where
  "scan_mark job missed s =
     (let handled = (case sc_missed_handled s (job_name job) of None \<Rightarrow> 0 | Some h \<Rightarrow> h)
      in if handled \<ge> missed
         then (s\<lparr>sc_missed_handled := (sc_missed_handled s)(job_name job \<mapsto> handled)\<rparr>, False)
         else (s\<lparr>sc_missed_handled := (sc_missed_handled s)(job_name job \<mapsto> missed)\<rparr>, True))"

definition missed_policy :: "Job \<Rightarrow> string" where
  "missed_policy job = ''policy: '' @ policy_to_string (job_missed_run_policy job)"

section \<open>Sections of the loop\<close>

text \<open>\<open>gap_wake || wake_pending_.exchange(false)\<close>: whether to scan.\<close>

definition wake_check :: "int \<Rightarrow> Scheduler \<Rightarrow> Scheduler \<times> bool" where
  "wake_check wall s =
     (let gap_wake = (wall - sc_last_wall s > kWakeGapSeconds);
          s1 = s\<lparr>sc_last_wall := wall\<rparr>
      in if gap_wake then (s1, True)
         else if sc_wake_pending s1 then (s1\<lparr>sc_wake_pending := False\<rparr>, True)
         else (s1, False))"

text \<open>One queued request: to launch, or to defer; it is dropped when its job is gone.\<close>

definition queue_entry :: "Scheduler \<Rightarrow> string \<times> string \<Rightarrow> (Job \<times> string) list \<times> (string \<times> string) list" where
  "queue_entry s e =
     (case find_job (fst e) (sc_jobs s) of
        None \<Rightarrow> ([], [])
      | Some job \<Rightarrow> if is_running s (fst e) then ([], [e]) else ([(job, snd e)], []))"

section \<open>The operations are their sections in a row\<close>

lemma add_job_sections:
  "add_job lt now rc job s =
     (if add_check job s \<noteq> [] then (s, add_check job s)
      else
        let stored = job\<lparr>job_source := ''ui''\<rparr>;
            (s1, err) = add_store rc stored s
        in if err \<noteq> [] then (s1, err)
           else let s2 = add_push lt now stored s1 in (put_jobs (snapshot s2) s2, []))"
  by (cases rc)
     (auto simp: add_job_def add_check_def add_store_def add_push_def quoted_def Let_def upsert_job_def_def write_stmt_def
       publish_is_snapshot_then_put split: option.split cong: option.case_cong)

lemma remove_job_sections:
  "remove_job rc n s =
     (if remove_check n s \<noteq> [] then (s, remove_check n s)
      else
        let (s1, err) = remove_delete rc n s
        in if err \<noteq> [] then (s1, err)
           else let s2 = remove_erase n s1 in (put_jobs (snapshot s2) s2, []))"
  by (cases rc)
     (auto simp: remove_job_def remove_check_def remove_delete_def remove_erase_def quoted_def Let_def delete_job_def_def
       write_stmt_def publish_is_snapshot_then_put split: option.split)

lemma emit_alert_sections:
  "fst (emit_alert env n sv m a v s) = alert_post (fst env) n sv m a v (alert_row env n sv m a v s)"
  by (simp add: emit_alert_def alert_post_def alert_row_def Let_def)

lemma scan_job_sections:
  "fst (scan_job lt now env job s) =
     (case scan_read lt now job s of
        None \<Rightarrow> s
      | Some missed \<Rightarrow>
          let (s1, new) = scan_mark job missed s
          in if new
             then enqueue (job_name job) ''missed''
               (fst (emit_alert (env (job_name job)) (job_name job) ''warning'' missed_message (missed_policy job)
                  (Fin (real_of_int missed)) s1))
             else s1)"
  by (simp add: scan_job_def scan_read_def scan_mark_def missed_policy_def Let_def split_beta split: option.split)

lemma check_wake_sections:
  "check_wake lt wall now env s =
     (let (s1, scan) = wake_check wall s in if scan then scan_missed lt now env s1 else (s1, []))"
  by (simp add: check_wake_def wake_check_def Let_def)

lemma collect_queue_sections:
  "collect_queue s q = (concat (map (fst \<circ> queue_entry s) q), concat (map (snd \<circ> queue_entry s) q))"
  by (induction s q rule: collect_queue.induct) (auto simp: queue_entry_def split: option.split)

section \<open>Positions\<close>

text \<open>Where a thread stands in \<open>scan_missed\<close>: \<open>Scan_read []\<close> is its end.\<close>

datatype scan_at =
    Scan_begin
  | Scan_read "Job list"
  | Scan_mark Job int "Job list"
  | Scan_row Job int "Job list"
  | Scan_ring Job int int "Job list"
  | Scan_queue Job "Job list"

inductive scan_step :: "(int \<Rightarrow> tm) \<Rightarrow> int \<Rightarrow> scan_at \<Rightarrow> Scheduler \<Rightarrow> scan_at \<Rightarrow> Scheduler \<Rightarrow> bool" for lt now where
  sc_begin: "scan_step lt now Scan_begin s (Scan_read (candidates (sc_jobs s))) s"
| sc_none: "scan_read lt now job s = None \<Longrightarrow> scan_step lt now (Scan_read (job # js)) s (Scan_read js) s"
| sc_some: "scan_read lt now job s = Some m \<Longrightarrow> scan_step lt now (Scan_read (job # js)) s (Scan_mark job m js) s"
| sc_old: "scan_mark job m s = (s', False) \<Longrightarrow> scan_step lt now (Scan_mark job m js) s (Scan_read js) s'"
| sc_new: "scan_mark job m s = (s', True) \<Longrightarrow> scan_step lt now (Scan_mark job m js) s (Scan_row job m js) s'"
| sc_row: "scan_step lt now (Scan_row job m js) s (Scan_ring job m (fst env) js)
    (alert_row env (job_name job) ''warning'' missed_message (missed_policy job) (Fin (real_of_int m)) s)"
| sc_ring: "scan_step lt now (Scan_ring job m ts js) s (Scan_queue job js)
    (alert_post ts (job_name job) ''warning'' missed_message (missed_policy job) (Fin (real_of_int m)) s)"
| sc_queue: "scan_step lt now (Scan_queue job js) s (Scan_read js) (enqueue (job_name job) ''missed'' s)"

inductive_cases scan_stepE: "scan_step lt now p s p' s'"

text \<open>The steps of a scan that take \<open>mutex_\<close>.\<close>

fun scan_locks :: "scan_at \<Rightarrow> bool" where
  "scan_locks (Scan_row job m js) = False"
| "scan_locks (Scan_ring job m ts js) = False"
| "scan_locks p = True"

text \<open>Where a worker stands: the number of its attempt and the last result.\<close>

datatype work_at =
    Work_start
  | Work_try int RunResult
  | Work_run int
  | Work_insert int RunResult
  | Work_last int RunResult
  | Work_judge RunResult
  | Work_row RunResult
  | Work_ring int RunResult
  | Work_done

record Worker =
  wk_job :: Job
  wk_trigger :: string
  wk_at :: work_at

text \<open>\<open>retries + 1\<close> must not overflow; the pauses between attempts change nothing.\<close>

inductive work_step :: "Job \<Rightarrow> string \<Rightarrow> work_at \<Rightarrow> Scheduler \<Rightarrow> work_at \<Rightarrow> Scheduler \<Rightarrow> bool" for job trigger where
  wk_start: "job_retries job \<noteq> INT_MAX \<Longrightarrow> work_step job trigger Work_start s (Work_try 1 default_RunResult) s"
| wk_more: "k \<le> job_retries job + 1 \<Longrightarrow> sc_active s \<Longrightarrow> work_step job trigger (Work_try k res) s (Work_run k) s"
| wk_over: "\<not> (k \<le> job_retries job + 1 \<and> sc_active s) \<Longrightarrow>
    work_step job trigger (Work_try k res) s (Work_judge res) s"
| wk_run: "run_command env (job_command job) (job_timeout_seconds job) = Some (res, effs) \<Longrightarrow>
    work_step job trigger (Work_run k) s (Work_insert k res) s"
| wk_insert: "work_step job trigger (Work_insert k res) s (Work_last k res)
    (s\<lparr>sc_db := fst (insert_run rc (run_record job trigger res) (sc_db s))\<rparr>)"
| wk_last: "work_step job trigger (Work_last k res) s
    (if rr_status res = Success then Work_judge res else Work_try (k + 1) res)
    (s\<lparr>sc_last_runs := (sc_last_runs s)(job_name job \<mapsto> run_record job trigger res)\<rparr>)"
| wk_alert: "sc_active s \<Longrightarrow> rr_status res \<noteq> Success \<Longrightarrow> work_step job trigger (Work_judge res) s (Work_row res) s"
| wk_quiet: "\<not> (sc_active s \<and> rr_status res \<noteq> Success) \<Longrightarrow> work_step job trigger (Work_judge res) s Work_done s"
| wk_row: "work_step job trigger (Work_row res) s (Work_ring (fst env) res)
    (alert_row env (job_name job) ''serious'' (failure_message res (job_retries job + 1))
      (stderr_detail (rr_stderr_text res)) (Fin (real_of_int (rr_exit_code res))) s)"
| wk_ring: "work_step job trigger (Work_ring ts res) s Work_done
    (alert_post ts (job_name job) ''serious'' (failure_message res (job_retries job + 1))
      (stderr_detail (rr_stderr_text res)) (Fin (real_of_int (rr_exit_code res))) s)"

inductive_cases work_stepE: "work_step job trigger p s p' s'"

fun work_locks :: "work_at \<Rightarrow> bool" where
  "work_locks (Work_last k res) = True"
| "work_locks p = False"

text \<open>The loop thread, the main thread and the socket thread.\<close>

datatype loop_at =
    Loop_head
  | Loop_reap
  | Loop_wake
  | Loop_scan int int scan_at
  | Loop_lock int
  | Loop_queue int "(string \<times> string) list" "(Job \<times> string) list" "(string \<times> string) list"
  | Loop_due int "Job list" "(Job \<times> string) list"
  | Loop_launch "(Job \<times> string) list"
  | Loop_snapshot
  | Loop_put "JobStatus list"
  | Loop_ended

datatype main_at =
    Main_scan int scan_at
  | Main_sampling
  | Main_stop
  | Main_join_loop
  | Main_clear
  | Main_join_workers
  | Main_stopped

datatype socket_at =
    Sock_off
  | Sock_ready
  | Sock_add_store Job
  | Sock_add_push Job
  | Sock_delete string
  | Sock_erase string
  | Sock_enqueue string
  | Sock_snapshot
  | Sock_put "JobStatus list"

text \<open>\<open>fi_recovered\<close> is a history variable: the occurrences scans have marked, in order, since the job was added.\<close>

record Fine =
  fi_sched :: Scheduler
  fi_loop :: loop_at
  fi_main :: main_at
  fi_socket :: socket_at
  fi_workers :: "Worker list"
  fi_recovered :: "(string \<times> int) list"

text \<open>The loop holds \<open>mutex_\<close> while it collects.\<close>

fun collecting :: "loop_at \<Rightarrow> bool" where
  "collecting (Loop_queue wall q ls ds) = True"
| "collecting (Loop_due wall js ls) = True"
| "collecting p = False"

fun marked :: "scan_at \<Rightarrow> scan_at \<Rightarrow> (string \<times> int) list" where
  "marked (Scan_mark job m js) (Scan_row job' m' js') = [(job_name job, m)]"
| "marked p p' = []"

section \<open>Steps\<close>

inductive fine_step :: "(int \<Rightarrow> tm) \<Rightarrow> Fine \<Rightarrow> Fine \<Rightarrow> bool" for lt where
  fl_head: "fi_loop y = Loop_head \<Longrightarrow>
    fine_step lt y (y\<lparr>fi_loop := if sc_active (fi_sched y) then Loop_reap else Loop_ended\<rparr>)"
| fl_reap: "fi_loop y = Loop_reap \<Longrightarrow>
    fine_step lt y (y\<lparr>fi_sched := reap_finished (fi_sched y), fi_loop := Loop_wake\<rparr>)"
| fl_wake: "fi_loop y = Loop_wake \<Longrightarrow> wake_check wall (fi_sched y) = (s', scan) \<Longrightarrow>
    fine_step lt y (y\<lparr>fi_sched := s', fi_loop := if scan then Loop_scan wall now Scan_begin else Loop_lock wall\<rparr>)"
| fl_scan: "fi_loop y = Loop_scan wall now p \<Longrightarrow> scan_step lt now p (fi_sched y) p' s' \<Longrightarrow>
    fine_step lt y (y\<lparr>fi_sched := s', fi_loop := Loop_scan wall now p', fi_recovered := fi_recovered y @ marked p p'\<rparr>)"
| fl_scanned: "fi_loop y = Loop_scan wall now (Scan_read []) \<Longrightarrow> fine_step lt y (y\<lparr>fi_loop := Loop_lock wall\<rparr>)"
| fl_lock: "fi_loop y = Loop_lock wall \<Longrightarrow>
    fine_step lt y (y\<lparr>fi_loop := Loop_queue wall (sc_queue (fi_sched y)) [] []\<rparr>)"
| fl_queue: "fi_loop y = Loop_queue wall (e # q) ls ds \<Longrightarrow> queue_entry (fi_sched y) e = (ls', ds') \<Longrightarrow>
    fine_step lt y (y\<lparr>fi_loop := Loop_queue wall q (ls @ ls') (ds @ ds')\<rparr>)"
| fl_queued: "fi_loop y = Loop_queue wall [] ls ds \<Longrightarrow>
    fine_step lt y (y\<lparr>fi_sched := (fi_sched y)\<lparr>sc_queue := ds\<rparr>, fi_loop := Loop_due wall (sc_jobs (fi_sched y)) ls\<rparr>)"
| fl_due: "fi_loop y = Loop_due wall (job # js) ls \<Longrightarrow> collect_due_job lt wall job (fi_sched y) = (s', ls') \<Longrightarrow>
    fine_step lt y (y\<lparr>fi_sched := s', fi_loop := Loop_due wall js (ls @ ls')\<rparr>)"
| fl_unlock: "fi_loop y = Loop_due wall [] ls \<Longrightarrow> fine_step lt y (y\<lparr>fi_loop := Loop_launch ls\<rparr>)"
| fl_launch: "fi_loop y = Loop_launch ((job, trigger) # ls) \<Longrightarrow> launch job trigger (fi_sched y) = Ret s' \<Longrightarrow>
    fine_step lt y (y\<lparr>fi_sched := s', fi_loop := Loop_launch ls,
      fi_workers := fi_workers y @ [\<lparr>wk_job = job, wk_trigger = trigger, wk_at = Work_start\<rparr>]\<rparr>)"
| fl_launched: "fi_loop y = Loop_launch [] \<Longrightarrow> fine_step lt y (y\<lparr>fi_loop := Loop_snapshot\<rparr>)"
| fl_snapshot: "fi_loop y = Loop_snapshot \<Longrightarrow> fine_step lt y (y\<lparr>fi_loop := Loop_put (snapshot (fi_sched y))\<rparr>)"
| fl_put: "fi_loop y = Loop_put js \<Longrightarrow>
    fine_step lt y (y\<lparr>fi_sched := put_jobs js (fi_sched y), fi_loop := Loop_head\<rparr>)"
| fm_scan: "fi_main y = Main_scan now p \<Longrightarrow> scan_locks p \<longrightarrow> \<not> collecting (fi_loop y) \<Longrightarrow>
    scan_step lt now p (fi_sched y) p' s' \<Longrightarrow>
    fine_step lt y (y\<lparr>fi_sched := s', fi_main := Main_scan now p', fi_recovered := fi_recovered y @ marked p p'\<rparr>)"
| fm_scanned: "fi_main y = Main_scan now (Scan_read []) \<Longrightarrow>
    fine_step lt y (y\<lparr>fi_main := Main_sampling, fi_socket := if listening then Sock_ready else Sock_off\<rparr>)"
| fm_write: "fi_main y = Main_sampling \<Longrightarrow>
    fine_step lt y (y\<lparr>fi_sched := put_shared (apply_op op (shared (fi_sched y))) (fi_sched y)\<rparr>)"
| fm_server: "fi_main y = Main_sampling \<Longrightarrow> fi_socket y \<in> {Sock_ready, Sock_off} \<Longrightarrow>
    fine_step lt y (y\<lparr>fi_main := Main_stop, fi_socket := Sock_off\<rparr>)"
| fm_stop: "fi_main y = Main_stop \<Longrightarrow>
    fine_step lt y (y\<lparr>fi_sched := (fi_sched y)\<lparr>sc_active := False\<rparr>, fi_main := Main_join_loop\<rparr>)"
| fm_joined: "fi_main y = Main_join_loop \<Longrightarrow> fi_loop y = Loop_ended \<Longrightarrow> fine_step lt y (y\<lparr>fi_main := Main_clear\<rparr>)"
| fm_clear: "fi_main y = Main_clear \<Longrightarrow>
    fine_step lt y (y\<lparr>fi_sched := (fi_sched y)\<lparr>sc_running := Map.empty\<rparr>, fi_main := Main_join_workers\<rparr>)"
| fm_ended: "fi_main y = Main_join_workers \<Longrightarrow> fi_workers y = [] \<Longrightarrow> fine_step lt y (y\<lparr>fi_main := Main_stopped\<rparr>)"
| fs_add: "fi_socket y = Sock_ready \<Longrightarrow> \<not> collecting (fi_loop y) \<Longrightarrow> ui_job_ok job \<Longrightarrow> add_check job (fi_sched y) = [] \<Longrightarrow>
    fine_step lt y (y\<lparr>fi_socket := Sock_add_store (job\<lparr>job_source := ''ui''\<rparr>)\<rparr>)"
| fs_store: "fi_socket y = Sock_add_store job \<Longrightarrow> add_store rc job (fi_sched y) = (s', err) \<Longrightarrow>
    fine_step lt y (y\<lparr>fi_sched := s', fi_socket := if err = [] then Sock_add_push job else Sock_ready\<rparr>)"
| fs_push: "fi_socket y = Sock_add_push job \<Longrightarrow> \<not> collecting (fi_loop y) \<Longrightarrow>
    fine_step lt y (y\<lparr>fi_sched := add_push lt now job (fi_sched y), fi_socket := Sock_snapshot\<rparr>)"
| fs_remove: "fi_socket y = Sock_ready \<Longrightarrow> \<not> collecting (fi_loop y) \<Longrightarrow> remove_check n (fi_sched y) = [] \<Longrightarrow>
    fine_step lt y (y\<lparr>fi_socket := Sock_delete n\<rparr>)"
| fs_delete: "fi_socket y = Sock_delete n \<Longrightarrow> remove_delete rc n (fi_sched y) = (s', err) \<Longrightarrow>
    fine_step lt y (y\<lparr>fi_sched := s', fi_socket := if err = [] then Sock_erase n else Sock_ready\<rparr>)"
| fs_erase: "fi_socket y = Sock_erase n \<Longrightarrow> \<not> collecting (fi_loop y) \<Longrightarrow>
    fine_step lt y (y\<lparr>fi_sched := remove_erase n (fi_sched y), fi_socket := Sock_snapshot,
      fi_recovered := filter (\<lambda>r. fst r \<noteq> n) (fi_recovered y)\<rparr>)"
| fs_snapshot: "fi_socket y = Sock_snapshot \<Longrightarrow> \<not> collecting (fi_loop y) \<Longrightarrow>
    fine_step lt y (y\<lparr>fi_socket := Sock_put (snapshot (fi_sched y))\<rparr>)"
| fs_put: "fi_socket y = Sock_put js \<Longrightarrow>
    fine_step lt y (y\<lparr>fi_sched := put_jobs js (fi_sched y), fi_socket := Sock_ready\<rparr>)"
| fs_request: "fi_socket y = Sock_ready \<Longrightarrow> \<not> collecting (fi_loop y) \<Longrightarrow> find_job n (sc_jobs (fi_sched y)) \<noteq> None \<Longrightarrow>
    fine_step lt y (y\<lparr>fi_socket := Sock_enqueue n\<rparr>)"
| fs_enqueue: "fi_socket y = Sock_enqueue n \<Longrightarrow> \<not> collecting (fi_loop y) \<Longrightarrow>
    fine_step lt y (y\<lparr>fi_sched := enqueue n ''manual'' (fi_sched y), fi_socket := Sock_ready\<rparr>)"
| fp_wake: "fi_main y = Main_sampling \<Longrightarrow> fine_step lt y (y\<lparr>fi_sched := notify_wake (fi_sched y)\<rparr>)"
| fk_step: "fi_workers y = us @ w # vs \<Longrightarrow> work_locks (wk_at w) \<longrightarrow> \<not> collecting (fi_loop y) \<Longrightarrow>
    work_step (wk_job w) (wk_trigger w) (wk_at w) (fi_sched y) p s' \<Longrightarrow>
    fine_step lt y (y\<lparr>fi_sched := s', fi_workers := us @ w\<lparr>wk_at := p\<rparr> # vs\<rparr>)"
| fk_done: "fi_workers y = us @ w # vs \<Longrightarrow> wk_at w = Work_done \<Longrightarrow>
    fine_step lt y (y\<lparr>fi_sched := mark_done (job_name (wk_job w)) (fi_sched y), fi_workers := us @ vs\<rparr>)"

inductive_cases fine_stepE: "fine_step lt y y'"

text \<open>A launch over a task that has not been reaped destroys a joinable thread: the process terminates.\<close>

definition dies :: "Fine \<Rightarrow> bool" where
  "dies y = (case fi_loop y of Loop_launch ((job, trigger) # ls) \<Rightarrow> launch job trigger (fi_sched y) = Terminate | _ \<Rightarrow> False)"

text \<open>\<open>start\<close> up to the creation of the loop thread; the scan that follows runs on the main thread.\<close>

definition fine_start :: "int \<Rightarrow> int \<Rightarrow> Scheduler \<Rightarrow> Fine" where
  "fine_start wall now s =
     \<lparr>fi_sched = s\<lparr>sc_active := True, sc_last_wall := wall\<rparr>, fi_loop = Loop_head, fi_main = Main_scan now Scan_begin,
      fi_socket = Sock_off, fi_workers = [], fi_recovered = []\<rparr>"

section \<open>What the steps leave alone\<close>

lemma alert_frame [simp]:
  "sc_jobs (alert_row env n sv m d v s) = sc_jobs s" "sc_next_run (alert_row env n sv m d v s) = sc_next_run s"
  "sc_running (alert_row env n sv m d v s) = sc_running s"
  "sc_missed_handled (alert_row env n sv m d v s) = sc_missed_handled s"
  "db_job_defs (sc_db (alert_row env n sv m d v s)) = db_job_defs (sc_db s)"
  "sc_jobs (alert_post ts n sv m d v s) = sc_jobs s" "sc_next_run (alert_post ts n sv m d v s) = sc_next_run s"
  "sc_running (alert_post ts n sv m d v s) = sc_running s"
  "sc_missed_handled (alert_post ts n sv m d v s) = sc_missed_handled s" "sc_db (alert_post ts n sv m d v s) = sc_db s"
  by (simp_all add: alert_row_def alert_post_def write_frame)

lemma scan_mark_frame:
  assumes "scan_mark job m s = (s', new)"
  shows "sc_jobs s' = sc_jobs s" "sc_next_run s' = sc_next_run s" "sc_running s' = sc_running s" "sc_db s' = sc_db s"
    "sc_state s' = sc_state s" "sc_active s' = sc_active s"
  using assms by (auto simp: scan_mark_def Let_def split: if_splits)

lemma scan_step_frame:
  assumes "scan_step lt now p s p' s'"
  shows "sc_jobs s' = sc_jobs s" "sc_next_run s' = sc_next_run s" "sc_running s' = sc_running s"
    "db_job_defs (sc_db s') = db_job_defs (sc_db s)"
  using assms by (induction rule: scan_step.induct) (auto simp: enqueue_def scan_mark_frame)

lemma work_step_frame:
  assumes "work_step job trigger p s p' s'"
  shows "sc_jobs s' = sc_jobs s" "sc_next_run s' = sc_next_run s" "sc_running s' = sc_running s"
    "sc_missed_handled s' = sc_missed_handled s" "db_job_defs (sc_db s') = db_job_defs (sc_db s)"
  using assms by (induction rule: work_step.induct) (auto simp: write_frame)

lemma put_shared_frame [simp]:
  "sc_jobs (put_shared x s) = sc_jobs s" "sc_next_run (put_shared x s) = sc_next_run s"
  "sc_running (put_shared x s) = sc_running s" "sc_missed_handled (put_shared x s) = sc_missed_handled s"
  by (simp_all add: put_shared_def)

lemma apply_op_shared_defs: "db_job_defs (sc_db (put_shared (apply_op op (shared s)) s)) = db_job_defs (sc_db s)"
proof -
  have "sc_db (put_shared (apply_op op (shared s)) s) = fst (apply_op op (shared s))" by (simp add: put_shared_def)
  then show ?thesis by (simp add: apply_op_defs) (simp add: shared_def)
qed

lemma collect_due_dom: "dom (sc_next_run (fst (collect_due_job lt now job s))) \<subseteq> dom (sc_next_run s)"
  by (auto simp: collect_due_job_eq due_def split: option.splits if_splits)

lemma wake_check_frame:
  assumes "wake_check wall s = (s', scan)"
  shows "sc_jobs s' = sc_jobs s" "sc_next_run s' = sc_next_run s" "sc_running s' = sc_running s" "sc_db s' = sc_db s"
    "sc_missed_handled s' = sc_missed_handled s" "sc_state s' = sc_state s"
  using assms by (auto simp: wake_check_def Let_def split: if_splits)

lemma add_store_frame:
  assumes "add_store rc job s = (s', err)"
  shows "sc_jobs s' = sc_jobs s" "sc_next_run s' = sc_next_run s" "sc_running s' = sc_running s"
    "sc_missed_handled s' = sc_missed_handled s" "sc_state s' = sc_state s"
    "err \<noteq> [] \<Longrightarrow> sc_db s' = sc_db s"
  using assms by (auto simp: add_store_def upsert_job_def_def write_stmt_def split: write_rc.splits)

lemma remove_delete_frame:
  assumes "remove_delete rc n s = (s', err)"
  shows "sc_jobs s' = sc_jobs s" "sc_next_run s' = sc_next_run s" "sc_running s' = sc_running s"
    "sc_missed_handled s' = sc_missed_handled s" "sc_state s' = sc_state s"
    "err \<noteq> [] \<Longrightarrow> sc_db s' = sc_db s"
  using assms by (auto simp: remove_delete_def delete_job_def_def write_stmt_def split: write_rc.splits)

section \<open>Jobs and their definitions\<close>

text \<open>
  The jobs as the database has them: a request between its write to the database and its change of
  \<open>jobs_\<close> counts as done.
\<close>

definition settled :: "Fine \<Rightarrow> Scheduler" where
  "settled y =
     (case fi_socket y of
        Sock_add_push job \<Rightarrow> (fi_sched y)\<lparr>sc_jobs := sc_jobs (fi_sched y) @ [job]\<rparr>
      | Sock_erase n \<Rightarrow> remove_erase n (fi_sched y)
      | _ \<Rightarrow> fi_sched y)"

definition mem_ok :: "Job list \<Rightarrow> Scheduler \<Rightarrow> bool" where
  "mem_ok cfg s \<longleftrightarrow> distinct (map job_name (sc_jobs s)) \<and> filter (\<lambda>j. job_source j \<noteq> ''ui'') (sc_jobs s) = cfg \<and>
     dom (sc_next_run s) \<subseteq> job_name ` {j \<in> set (sc_jobs s). job_schedule j \<noteq> None}"

text \<open>What a request has checked.\<close>

fun checked :: "socket_at \<Rightarrow> Scheduler \<Rightarrow> bool" where
  "checked (Sock_add_store job) s = (ui_job_ok job \<and> job_source job = ''ui'' \<and> add_check job s = [])"
| "checked (Sock_delete n) s = (remove_check n s = [])"
| "checked p s = True"

definition jobs_ok :: "Job list \<Rightarrow> Fine \<Rightarrow> bool" where
  "jobs_ok cfg y \<longleftrightarrow> core_ok cfg (settled y) \<and> mem_ok cfg (fi_sched y) \<and> checked (fi_socket y) (fi_sched y)"

lemma add_check_source [simp]: "add_check (job\<lparr>job_source := x\<rparr>) s = add_check job s"
  by (simp add: add_check_def)

lemma checked_cong: "sc_jobs s' = sc_jobs s \<Longrightarrow> checked p s' = checked p s"
  by (cases p) (simp_all add: add_check_def remove_check_def)

lemma core_mem: "core_ok cfg s \<Longrightarrow> mem_ok cfg s"
  by (simp add: core_ok_def sched_ok_def sched_inv_def mem_ok_def)

lemma mem_ok_cong:
  "mem_ok cfg s \<Longrightarrow> sc_jobs s' = sc_jobs s \<Longrightarrow> dom (sc_next_run s') \<subseteq> dom (sc_next_run s) \<Longrightarrow> mem_ok cfg s'"
  unfolding mem_ok_def by (metis order_trans)

text \<open>A step that changes neither the jobs nor their definitions and adds no next run.\<close>

lemma jobs_ok_frame:
  assumes "jobs_ok cfg y" "fi_socket y' = fi_socket y" "sc_jobs (fi_sched y') = sc_jobs (fi_sched y)"
    "dom (sc_next_run (fi_sched y')) \<subseteq> dom (sc_next_run (fi_sched y))"
    "db_job_defs (sc_db (fi_sched y')) = db_job_defs (sc_db (fi_sched y))"
  shows "jobs_ok cfg y'"
proof -
  have "sc_jobs (settled y') = sc_jobs (settled y)" "dom (sc_next_run (settled y')) \<subseteq> dom (sc_next_run (settled y))"
    "db_job_defs (sc_db (settled y')) = db_job_defs (sc_db (settled y))"
    using assms(2-5) by (auto simp: settled_def remove_erase_def split: socket_at.split)
  then have "core_ok cfg (settled y')"
    using assms(1) core_ok_cong unfolding jobs_ok_def by blast
  moreover have "mem_ok cfg (fi_sched y')" using mem_ok_cong [OF _ assms(3,4)] assms(1) by (simp add: jobs_ok_def)
  moreover have "checked (fi_socket y') (fi_sched y')"
    using checked_cong [OF assms(3)] assms(1,2) by (simp add: jobs_ok_def)
  ultimately show ?thesis by (simp add: jobs_ok_def)
qed

text \<open>A state in which no request is between its two writes.\<close>

lemma jobs_okI:
  assumes "core_ok cfg (fi_sched y)" "settled y = fi_sched y" "checked (fi_socket y) (fi_sched y)"
  shows "jobs_ok cfg y"
  using assms core_mem by (simp add: jobs_ok_def)

lemma core_ok_next:
  assumes "core_ok cfg s" "job \<in> set (sc_jobs s)" "job_schedule job \<noteq> None"
  shows "core_ok cfg (s\<lparr>sc_next_run := (sc_next_run s)(job_name job \<mapsto> t)\<rparr>)"
  using assms by (auto simp: core_ok_def sched_ok_def sched_inv_def)

lemma add_push_core:
  assumes "core_ok cfg (s\<lparr>sc_jobs := sc_jobs s @ [job]\<rparr>)"
  shows "core_ok cfg (add_push lt now job s)"
  using assms core_ok_next [OF assms, of job] by (simp add: add_push_def Let_def split: option.split)

lemma add_store_core:
  assumes "core_ok cfg s" "checked (Sock_add_store job) s" "add_store rc job s = (s1, [])"
  shows "core_ok cfg (s1\<lparr>sc_jobs := sc_jobs s @ [job]\<rparr>)"
proof -
  let ?s2 = "add_push (\<lambda>_. undefined) 0 job s1"
  have same: "job\<lparr>job_source := ''ui''\<rparr> = job" using assms(2) by (cases job) simp
  have "add_job (\<lambda>_. undefined) 0 rc job s = (put_jobs (snapshot ?s2) ?s2, [])"
    using assms(2,3) unfolding add_job_sections same by (simp add: Let_def)
  from add_job_core [OF assms(1) _ this] have "core_ok cfg ?s2" using assms(2) by simp
  then show ?thesis
    by (rule core_ok_cong) (auto simp: add_push_def Let_def add_store_frame [OF assms(3)] split: option.split)
qed

lemma remove_delete_core:
  assumes "core_ok cfg s" "checked (Sock_delete n) s" "remove_delete rc n s = (s1, [])"
  shows "core_ok cfg (remove_erase n s1)"
proof -
  have "remove_job rc n s = (put_jobs (snapshot (remove_erase n s1)) (remove_erase n s1), [])"
    using assms(2,3) by (simp add: remove_job_sections Let_def)
  from remove_job_core [OF assms(1) this] show ?thesis by simp
qed

lemma jobs_ok_core:
  assumes "jobs_ok cfg y" "\<And>job. fi_socket y \<noteq> Sock_add_push job" "\<And>n. fi_socket y \<noteq> Sock_erase n"
  shows "settled y = fi_sched y" "core_ok cfg (fi_sched y)"
proof -
  show *: "settled y = fi_sched y" using assms(2,3) by (simp add: settled_def split: socket_at.split)
  show "core_ok cfg (fi_sched y)" using assms(1) unfolding jobs_ok_def * by simp
qed
lemma jobs_ok_store:
  assumes "jobs_ok cfg y" "fi_socket y = Sock_add_store job" "add_store rc job (fi_sched y) = (s', err)"
  shows "jobs_ok cfg (y\<lparr>fi_sched := s', fi_socket := if err = [] then Sock_add_push job else Sock_ready\<rparr>)"
proof -
  note frame = add_store_frame [OF assms(3)]
  have ok: "core_ok cfg (fi_sched y)" using jobs_ok_core(2) [OF assms(1)] assms(2) by simp
  show ?thesis
  proof (cases "err = []")
    case True
    then have "core_ok cfg (s'\<lparr>sc_jobs := sc_jobs (fi_sched y) @ [job]\<rparr>)"
      using add_store_core [OF ok _ assms(3) [unfolded True]] assms(1,2) by (simp add: jobs_ok_def)
    moreover have "mem_ok cfg s'" using mem_ok_cong [OF core_mem [OF ok]] frame by simp
    ultimately show ?thesis using True frame(1) by (simp add: jobs_ok_def settled_def)
  next
    case False
    then show ?thesis using core_ok_cong [OF ok] frame by (intro jobs_okI) (simp_all add: settled_def)
  qed
qed

lemma jobs_ok_delete:
  assumes "jobs_ok cfg y" "fi_socket y = Sock_delete n" "remove_delete rc n (fi_sched y) = (s', err)"
  shows "jobs_ok cfg (y\<lparr>fi_sched := s', fi_socket := if err = [] then Sock_erase n else Sock_ready\<rparr>)"
proof -
  note frame = remove_delete_frame [OF assms(3)]
  have ok: "core_ok cfg (fi_sched y)" using jobs_ok_core(2) [OF assms(1)] assms(2) by simp
  show ?thesis
  proof (cases "err = []")
    case True
    then have "core_ok cfg (remove_erase n s')"
      using remove_delete_core [OF ok _ assms(3) [unfolded True]] assms(1,2) by (simp add: jobs_ok_def)
    moreover have "mem_ok cfg s'" using mem_ok_cong [OF core_mem [OF ok]] frame by simp
    ultimately show ?thesis using True frame(1) by (simp add: jobs_ok_def settled_def)
  next
    case False
    then show ?thesis using core_ok_cong [OF ok] frame by (intro jobs_okI) (simp_all add: settled_def)
  qed
qed

lemma jobs_ok_step:
  assumes "fine_step lt y y'" "jobs_ok cfg y" "fi_main y \<noteq> Main_sampling \<longrightarrow> fi_socket y = Sock_off"
  shows "jobs_ok cfg y'"
  using assms(1)
proof cases
  case (fl_wake wall s' scan now)
  then show ?thesis using wake_check_frame [OF fl_wake(3)] by (intro jobs_ok_frame [OF assms(2)]) simp_all
next
  case (fl_scan wall now p p' s')
  then show ?thesis using scan_step_frame [OF fl_scan(3)] by (intro jobs_ok_frame [OF assms(2)]) simp_all
next
  case (fl_due wall job js ls s' ls')
  have "s' = fst (collect_due_job lt wall job (fi_sched y))" using fl_due(3) by simp
  then show ?thesis
    using fl_due(1) collect_due_dom [of lt wall job "fi_sched y"]
    by (intro jobs_ok_frame [OF assms(2)]) (simp_all add: sched_frame)
next
  case (fl_launch job trigger ls s')
  then show ?thesis by (intro jobs_ok_frame [OF assms(2)]) (auto simp: launch_def split: if_splits)
next
  case (fm_scan now p p' s')
  then show ?thesis using scan_step_frame [OF fm_scan(4)] by (intro jobs_ok_frame [OF assms(2)]) simp_all
next
  case (fm_scanned now listening)
  then show ?thesis using jobs_ok_core [OF assms(2)] assms(3) by (intro jobs_okI) (auto simp: settled_def)
next
  case (fm_write op)
  then show ?thesis
    by (intro jobs_ok_frame [OF assms(2)]) (simp_all add: apply_op_shared_defs)
next
  case fm_server
  then show ?thesis using jobs_ok_core [OF assms(2)] by (intro jobs_okI) (auto simp: settled_def)
next
  case (fs_add job)
  then show ?thesis
    using jobs_ok_core [OF assms(2)] by (intro jobs_okI) (auto simp: settled_def ui_job_ok_def)
next
  case (fs_store job rc s' err)
  then show ?thesis using jobs_ok_store [OF assms(2) fs_store(2,3)] by simp
next
  case (fs_push job now)
  then show ?thesis
    using assms(2) add_push_core [of cfg "fi_sched y" job lt now]
    by (intro jobs_okI) (simp_all add: jobs_ok_def settled_def)
next
  case (fs_remove n)
  then show ?thesis using jobs_ok_core [OF assms(2)] by (intro jobs_okI) (auto simp: settled_def)
next
  case (fs_delete n rc s' err)
  then show ?thesis using jobs_ok_delete [OF assms(2) fs_delete(2,3)] by simp
next
  case (fs_erase n)
  then show ?thesis using assms(2) by (intro jobs_okI) (simp_all add: jobs_ok_def settled_def)
next
  case fs_snapshot
  then show ?thesis using jobs_ok_core [OF assms(2)] by (intro jobs_okI) (auto simp: settled_def)
next
  case (fs_put js)
  then show ?thesis using jobs_ok_core [OF assms(2)] by (intro jobs_okI) (auto simp: settled_def)
next
  case (fs_request n)
  then show ?thesis using jobs_ok_core [OF assms(2)] by (intro jobs_okI) (auto simp: settled_def)
next
  case (fs_enqueue n)
  then show ?thesis
    using jobs_ok_core [OF assms(2)] core_ok_cong [of cfg "fi_sched y" "enqueue n ''manual'' (fi_sched y)"]
    by (intro jobs_okI) (auto simp: settled_def enqueue_def)
next
  case (fk_step us w vs p s')
  then show ?thesis using work_step_frame [OF fk_step(4)] by (intro jobs_ok_frame [OF assms(2)]) simp_all
qed (auto intro!: jobs_ok_frame [OF assms(2)] simp: sched_frame notify_wake_def mark_done_def)

section \<open>Threads and their positions\<close>

abbreviation worker_names :: "Fine \<Rightarrow> string list" where
  "worker_names y \<equiv> map (job_name \<circ> wk_job) (fi_workers y)"

text \<open>
  The server serves only while the main thread samples; \<open>stop\<close> goes on only after the loop has ended
  and returns only after the workers have.
\<close>

definition phases_ok :: "Fine \<Rightarrow> bool" where
  "phases_ok y \<longleftrightarrow> (fi_main y \<noteq> Main_sampling \<longrightarrow> fi_socket y = Sock_off) \<and>
     (fi_main y \<in> {Main_clear, Main_join_workers, Main_stopped} \<longrightarrow> fi_loop y = Loop_ended) \<and>
     (fi_main y = Main_stopped \<longrightarrow> fi_workers y = [])"

lemma phases_ok_step: "fine_step lt y y' \<Longrightarrow> phases_ok y \<Longrightarrow> phases_ok y'"
  by (induction rule: fine_step.induct) (auto simp: phases_ok_def)

text \<open>Until \<open>stop\<close> takes the tasks over, the entries of \<open>running_\<close> that are not done are those of the live workers.\<close>

definition workers_ok :: "Fine \<Rightarrow> bool" where
  "workers_ok y \<longleftrightarrow> distinct (worker_names y) \<and>
     (fi_main y \<in> {Main_join_workers, Main_stopped} \<or> (\<forall>n. is_running (fi_sched y) n \<longleftrightarrow> n \<in> set (worker_names y)))"

lemma is_running_cong: "sc_running s' = sc_running s \<Longrightarrow> is_running s' = is_running s"
  by (simp add: is_running_def fun_eq_iff)

lemma is_running_reap [simp]: "is_running (reap_finished s) n = is_running s n"
  by (simp add: is_running_def reap_finished_def split: option.split)

lemma is_running_done [simp]: "is_running (mark_done n s) m \<longleftrightarrow> is_running s m \<and> m \<noteq> n"
  by (simp add: is_running_def mark_done_def finish_tasks_def split: option.split)

lemma workers_ok_frame:
  "workers_ok y \<Longrightarrow> worker_names y' = worker_names y \<Longrightarrow> sc_running (fi_sched y') = sc_running (fi_sched y) \<Longrightarrow>
    (fi_main y \<in> {Main_join_workers, Main_stopped} \<longrightarrow> fi_main y' \<in> {Main_join_workers, Main_stopped}) \<Longrightarrow> workers_ok y'"
  using is_running_cong [of "fi_sched y'" "fi_sched y"] by (auto simp: workers_ok_def simp del: map_map)

lemma workers_ok_step:
  assumes "fine_step lt y y'" "workers_ok y" "phases_ok y"
  shows "workers_ok y'"
  using assms(1)
proof cases
  case fl_reap
  then show ?thesis using assms(2) by (auto simp: workers_ok_def)
next
  case (fl_wake wall s' scan now)
  then show ?thesis using wake_check_frame [OF fl_wake(3)] by (intro workers_ok_frame [OF assms(2)]) simp_all
next
  case (fl_scan wall now p p' s')
  then show ?thesis using scan_step_frame [OF fl_scan(3)] by (intro workers_ok_frame [OF assms(2)]) simp_all
next
  case (fl_due wall job js ls s' ls')
  have "s' = fst (collect_due_job lt wall job (fi_sched y))" using fl_due(3) by simp
  then show ?thesis using fl_due(1) by (intro workers_ok_frame [OF assms(2)]) (simp_all add: sched_frame)
next
  case (fl_launch job trigger ls s')
  then have s': "sc_running (fi_sched y) (job_name job) = None"
    "sc_running s' = (sc_running (fi_sched y))(job_name job \<mapsto> \<lparr>rt_done = False\<rparr>)"
    by (auto simp: launch_def split: if_splits)
  have main: "fi_main y \<notin> {Main_join_workers, Main_stopped}" using assms(3) fl_launch(2) by (auto simp: phases_ok_def)
  moreover have "\<not> is_running (fi_sched y) (job_name job)" using s'(1) by (simp add: is_running_def)
  ultimately have "job_name job \<notin> set (worker_names y)" using assms(2) by (simp add: workers_ok_def)
  with main show ?thesis using assms(2) s'(2) fl_launch(1) by (auto simp: workers_ok_def is_running_def)
next
  case (fm_scan now p p' s')
  then show ?thesis using scan_step_frame [OF fm_scan(4)] by (intro workers_ok_frame [OF assms(2)]) simp_all
next
  case fm_clear
  then show ?thesis using assms(2) by (simp add: workers_ok_def)
next
  case (fs_store job rc s' err)
  then show ?thesis using add_store_frame [OF fs_store(3)] by (intro workers_ok_frame [OF assms(2)]) simp_all
next
  case (fs_delete n rc s' err)
  then show ?thesis using remove_delete_frame [OF fs_delete(3)] by (intro workers_ok_frame [OF assms(2)]) simp_all
next
  case (fk_step us w vs p s')
  then show ?thesis using work_step_frame [OF fk_step(4)] by (intro workers_ok_frame [OF assms(2)]) simp_all
next
  case (fk_done us w vs)
  then show ?thesis using assms(2) by (auto simp: workers_ok_def image_iff)
qed (auto intro!: workers_ok_frame [OF assms(2)] simp: notify_wake_def enqueue_def remove_erase_def add_push_def Let_def
    split: option.split)

section \<open>Missed runs are recovered once\<close>

definition recovered_of :: "Fine \<Rightarrow> string \<Rightarrow> int list" where
  "recovered_of y n = map snd (filter (\<lambda>r. fst r = n) (fi_recovered y))"

text \<open>The marked occurrences of a job increase, and the last is no later than the one \<open>missed_handled_\<close> holds.\<close>

definition recovered_ok :: "Fine \<Rightarrow> bool" where
  "recovered_ok y \<longleftrightarrow> (\<forall>n. sorted_wrt (<) (recovered_of y n) \<and>
     (\<forall>t \<in> set (recovered_of y n). \<exists>h. sc_missed_handled (fi_sched y) n = Some h \<and> t \<le> h))"

lemma recovered_ok_frame:
  "recovered_ok y \<Longrightarrow> fi_recovered y' = fi_recovered y \<Longrightarrow>
    sc_missed_handled (fi_sched y') = sc_missed_handled (fi_sched y) \<Longrightarrow> recovered_ok y'"
  by (simp add: recovered_ok_def recovered_of_def)

lemma scan_mark_handled:
  assumes "scan_mark job m s = (s', new)"
  shows "new \<longleftrightarrow> (case sc_missed_handled s (job_name job) of None \<Rightarrow> 0 | Some h \<Rightarrow> h) < m"
    "sc_missed_handled s' = (sc_missed_handled s)(job_name job \<mapsto>
       (if new then m else case sc_missed_handled s (job_name job) of None \<Rightarrow> 0 | Some h \<Rightarrow> h))"
  using assms by (auto simp: scan_mark_def Let_def split: if_splits)

text \<open>A scan, on either thread.\<close>

lemma recovered_ok_scan:
  assumes "recovered_ok y" "scan_step lt now p (fi_sched y) p' (fi_sched y')"
    "fi_recovered y' = fi_recovered y @ marked p p'"
  shows "recovered_ok y'"
  using assms(2)
proof cases
  case (sc_old job m js)
  have "sc_missed_handled (fi_sched y') n = sc_missed_handled (fi_sched y) n \<or>
      sc_missed_handled (fi_sched y) n = None" for n
    using scan_mark_handled(2) [OF sc_old(3)] by (simp split: option.split)
  moreover have "fi_recovered y' = fi_recovered y" using assms(3) sc_old(1,2) by simp
  ultimately show ?thesis
    using assms(1) unfolding recovered_ok_def recovered_of_def by (metis option.distinct(1))
next
  case (sc_new job m js)
  have h: "sc_missed_handled (fi_sched y') = (sc_missed_handled (fi_sched y))(job_name job \<mapsto> m)"
    "\<And>h. sc_missed_handled (fi_sched y) (job_name job) = Some h \<Longrightarrow> h < m"
    using scan_mark_handled [OF sc_new(3)] by simp_all
  have "recovered_of y' n = recovered_of y n @ (if n = job_name job then [m] else [])" for n
    using assms(3) sc_new(1,2) by (simp add: recovered_of_def)
  moreover have "t < m" if "t \<in> set (recovered_of y (job_name job))" for t
    using that assms(1) h(2) unfolding recovered_ok_def by (metis le_less_trans)
  ultimately show ?thesis using assms(1) h(1) by (auto simp: recovered_ok_def sorted_wrt_append less_imp_le)
qed (use assms in \<open>auto intro: recovered_ok_frame simp: enqueue_def\<close>)

lemma recovered_ok_step:
  assumes "fine_step lt y y'" "recovered_ok y"
  shows "recovered_ok y'"
  using assms(1)
proof cases
  case (fl_wake wall s' scan now)
  then show ?thesis using wake_check_frame [OF fl_wake(3)] by (intro recovered_ok_frame [OF assms(2)]) simp_all
next
  case (fl_scan wall now p p' s')
  then show ?thesis by (intro recovered_ok_scan [OF assms(2), of lt now p p']) simp_all
next
  case (fl_due wall job js ls s' ls')
  then show ?thesis
    by (intro recovered_ok_frame [OF assms(2)]) (auto simp: collect_due_job_eq split: if_splits)
next
  case (fl_launch job trigger ls s')
  then show ?thesis by (intro recovered_ok_frame [OF assms(2)]) (auto simp: launch_def split: if_splits)
next
  case (fm_scan now p p' s')
  then show ?thesis by (intro recovered_ok_scan [OF assms(2), of lt now p p']) simp_all
next
  case (fs_store job rc s' err)
  then show ?thesis using add_store_frame [OF fs_store(3)] by (intro recovered_ok_frame [OF assms(2)]) simp_all
next
  case (fs_delete n rc s' err)
  then show ?thesis using remove_delete_frame [OF fs_delete(3)] by (intro recovered_ok_frame [OF assms(2)]) simp_all
next
  case (fs_erase n)
  then have "recovered_of y' m = (if m = n then [] else recovered_of y m)" for m
    by (auto simp: recovered_of_def filter_empty_conv intro: arg_cong [of _ _ "map snd"] filter_cong)
  with fs_erase(1) show ?thesis using assms(2) by (simp add: recovered_ok_def remove_erase_def)
next
  case (fk_step us w vs p s')
  then show ?thesis using work_step_frame [OF fk_step(4)] by (intro recovered_ok_frame [OF assms(2)]) simp_all
qed (auto intro!: recovered_ok_frame [OF assms(2)] simp: reap_finished_def put_jobs_def notify_wake_def enqueue_def
    add_push_def mark_done_def finish_tasks_def Let_def split: option.split)

section \<open>Every reachable state\<close>

definition fine_ok :: "Job list \<Rightarrow> Fine \<Rightarrow> bool" where
  "fine_ok cfg y \<longleftrightarrow> jobs_ok cfg y \<and> phases_ok y \<and> workers_ok y \<and> recovered_ok y"

lemma fine_ok_step: "fine_step lt y y' \<Longrightarrow> fine_ok cfg y \<Longrightarrow> fine_ok cfg y'"
  unfolding fine_ok_def
  using jobs_ok_step phases_ok_step workers_ok_step recovered_ok_step by (metis phases_ok_def)

lemma alert_moves_on [simp]:
  "moves_on (shared s) (shared (alert_row env n sv m d v s))" "moves_on (shared s) (shared (alert_post ts n sv m d v s))"
  by (simp_all add: moves_on_def shared_def alert_row_def alert_post_def)

lemma scan_step_moves_on: "scan_step lt now p s p' s' \<Longrightarrow> moves_on (shared s) (shared s')"
  by (induction rule: scan_step.induct) (auto simp: enqueue_def scan_mark_frame moves_on_same)

lemma work_step_moves_on: "work_step job trigger p s p' s' \<Longrightarrow> moves_on (shared s) (shared s')"
  by (induction rule: work_step.induct) (auto simp: moves_on_db moves_on_same)

lemma fine_step_moves_on: "fine_step lt y y' \<Longrightarrow> moves_on (shared (fi_sched y)) (shared (fi_sched y'))"
proof (induction rule: fine_step.induct)
  case (fl_wake y wall s' scan now)
  then show ?case using wake_check_frame [OF fl_wake(2)] by (simp add: moves_on_same)
next
  case (fl_scan y wall now p p' s')
  then show ?case by (simp add: scan_step_moves_on)
next
  case (fl_due y wall job js ls s' ls')
  then have "s' = fst (collect_due_job lt wall job (fi_sched y))" by simp
  then show ?case by (simp add: moves_on_same sched_frame)
next
  case (fl_launch y job trigger ls s')
  then show ?case by (auto simp: launch_def moves_on_same split: if_splits)
next
  case (fm_scan y now p p' s')
  then show ?case by (simp add: scan_step_moves_on)
next
  case (fm_write y op)
  show ?case by (simp add: apply_op_moves_on)
next
  case (fs_store y job rc s' err)
  then have "s' = (fi_sched y)\<lparr>sc_db := fst (upsert_job_def rc (def_from_job job) (sc_db (fi_sched y)))\<rparr>"
    by (auto simp: add_store_def split_beta)
  then show ?case by (simp add: moves_on_db)
next
  case (fs_delete y n rc s' err)
  then have "s' = (fi_sched y)\<lparr>sc_db := fst (delete_job_def rc n (sc_db (fi_sched y)))\<rparr>"
    by (auto simp: remove_delete_def split_beta)
  then show ?case by (simp add: moves_on_db)
next
  case (fk_step y us w vs p s')
  then show ?case by (simp add: work_step_moves_on)
qed (simp_all add: moves_on_same reap_finished_def enqueue_def notify_wake_def mark_done_def finish_tasks_def remove_erase_def
    add_push_def Let_def split: option.split)

interpretation fine: monotone_steps "fine_step lt" "\<lambda>y. shared (fi_sched y)" moves_on "fine_ok cfg" for lt cfg
  by unfold_locales (auto intro: moves_on_trans fine_step_moves_on fine_ok_step)

text \<open>The states reached from a scheduler constructed on the configured jobs and a database of saved jobs.\<close>

inductive fine_reachable :: "(int \<Rightarrow> tm) \<Rightarrow> Job list \<Rightarrow> Fine \<Rightarrow> bool" for lt cfg where
  fine_init: "new_Scheduler lt opened Read_complete rcs now cfg db st = Ret s \<Longrightarrow>
    distinct (map def_name (db_job_defs db)) \<Longrightarrow> \<forall>d \<in> set (db_job_defs db). saved_def d \<Longrightarrow>
    fine_reachable lt cfg (fine_start wall scan_now s)"
| fine_next: "fine_reachable lt cfg y \<Longrightarrow> fine_step lt y y' \<Longrightarrow> fine_reachable lt cfg y'"

lemma fine_reachable_steps: "(fine_step lt)\<^sup>*\<^sup>* y y' \<Longrightarrow> fine_reachable lt cfg y \<Longrightarrow> fine_reachable lt cfg y'"
  by (induction rule: rtranclp_induct) (auto intro: fine_next)

lemma load_runs_running: "load_runs lt now rcs js s = Ret s' \<Longrightarrow> sc_running s' = sc_running s"
proof (induction js arbitrary: s)
  case (Cons j js)
  then show ?case by (fastforce simp: Let_def cxx_simps split: option.splits)
qed simp

lemma new_Scheduler_running: "new_Scheduler lt opened rc rcs now cfg db st = Ret s \<Longrightarrow> sc_running s = Map.empty"
  by (auto simp: new_Scheduler_def cxx_simps dest!: load_runs_running)

lemma fine_start_ok:
  assumes "sched_ok cfg s" "sc_running s = Map.empty"
  shows "fine_ok cfg (fine_start wall now s)"
proof -
  have "core_ok cfg (s\<lparr>sc_active := True, sc_last_wall := wall\<rparr>)"
    by (rule core_ok_cong [OF sched_ok_core [OF assms(1)]]) simp_all
  then have "jobs_ok cfg (fine_start wall now s)" by (intro jobs_okI) (simp_all add: fine_start_def settled_def)
  then show ?thesis
    using assms(2)
    by (simp add: fine_ok_def fine_start_def phases_ok_def workers_ok_def recovered_ok_def recovered_of_def is_running_def)
qed

lemma fine_reachable_ok:
  assumes "fine_reachable lt cfg y" "distinct (map job_name cfg)" "\<forall>j \<in> set cfg. job_source j \<noteq> ''ui''"
  shows "fine_ok cfg y"
  using assms(1)
proof induction
  case (fine_init opened rcs now db st s wall scan_now)
  then show ?case
    using new_Scheduler_ok [OF fine_init(1) assms(2,3)] new_Scheduler_running [OF fine_init(1)] by (intro fine_start_ok) simp_all
next
  case (fine_next y y')
  then show ?case by (blast intro: fine_ok_step)
qed

end
