(* ===== verification/Section_Runs.thy ===== *)
theory Section_Runs
  imports Sections
begin

text \<open>
  The whole operations inside the system of the theory \<open>Sections\<close>: a thread that is not disturbed takes its
  sections one after the other and does what the operation does as one step in the theory \<open>Scheduler\<close>.
  So the theorems on whole operations describe runs of the system with the sections, and what is proved of all runs
  of that system holds of them.
\<close>

section \<open>Scans\<close>

definition scan_next :: "(int \<Rightarrow> tm) \<Rightarrow> int \<Rightarrow> scan_at \<times> Scheduler \<Rightarrow> scan_at \<times> Scheduler \<Rightarrow> bool" where
  "scan_next lt now x x' = scan_step lt now (fst x) (snd x) (fst x') (snd x')"

lemma scan_nextI: "scan_step lt now p s p' s' \<Longrightarrow> (scan_next lt now)\<^sup>*\<^sup>* (p', s') x \<Longrightarrow> (scan_next lt now)\<^sup>*\<^sup>* (p, s) x"
  by (rule converse_rtranclp_into_rtranclp [where b = "(p', s')"]) (simp_all add: scan_next_def)

lemma scan_job_run:
  "(scan_next lt now)\<^sup>*\<^sup>* (Scan_read (job # js), s) (Scan_read js, fst (scan_job lt now env job s))"
proof (cases "scan_read lt now job s")
  case None
  then show ?thesis
    by (intro scan_nextI [OF sc_none]) (simp_all add: scan_job_sections)
next
  case (Some m)
  obtain s1 new where mark: "scan_mark job m s = (s1, new)" by fastforce
  let ?e = "env (job_name job)"
  show ?thesis
  proof (cases new)
    case True
    then have eq: "fst (scan_job lt now env job s) = enqueue (job_name job) ''missed''
        (alert_post (fst ?e) (job_name job) ''warning'' missed_message (missed_policy job) (Fin (real_of_int m))
          (alert_row ?e (job_name job) ''warning'' missed_message (missed_policy job) (Fin (real_of_int m)) s1))"
      using Some mark by (simp add: scan_job_sections emit_alert_sections)
    have new: "scan_mark job m s = (s1, True)" using mark True by simp
    show ?thesis
      unfolding eq
      by (rule scan_nextI [OF sc_some [OF Some]], rule scan_nextI [OF sc_new [OF new]], rule scan_nextI [OF sc_row [where env = ?e]],
          rule scan_nextI [OF sc_ring], rule scan_nextI [OF sc_queue], rule rtranclp.rtrancl_refl)
  next
    case False
    then have eq: "fst (scan_job lt now env job s) = s1" and old: "scan_mark job m s = (s1, False)"
      using Some mark by (simp_all add: scan_job_sections)
    show ?thesis
      unfolding eq
      by (rule scan_nextI [OF sc_some [OF Some]], rule scan_nextI [OF sc_old [OF old]], rule rtranclp.rtrancl_refl)
  qed
qed

lemma scan_run:
  "(scan_next lt now)\<^sup>*\<^sup>* (Scan_read js, s) (Scan_read [], fst (run_steps (scan_job lt now env) js s))"
proof (induction js arbitrary: s)
  case (Cons job js)
  then show ?case using scan_job_run [of lt now job js s env] by (auto intro: rtranclp_trans)
qed simp

lemma scan_missed_run:
  "(scan_next lt now)\<^sup>*\<^sup>* (Scan_begin, s) (Scan_read [], fst (scan_missed lt now env s))"
  unfolding scan_missed_def by (intro scan_nextI [OF sc_begin] scan_run)

section \<open>The loop\<close>

text \<open>A state reached from \<open>y\<close> by the loop: the other threads stand where they stood.\<close>

definition loop_to :: "Scheduler \<Rightarrow> loop_at \<Rightarrow> Worker list \<Rightarrow> Fine \<Rightarrow> Fine \<Rightarrow> bool" where
  "loop_to s p ws y y' \<longleftrightarrow> fi_sched y' = s \<and> fi_loop y' = p \<and> fi_workers y' = ws \<and>
     fi_main y' = fi_main y \<and> fi_socket y' = fi_socket y"

definition loop_runs :: "(int \<Rightarrow> tm) \<Rightarrow> Fine \<Rightarrow> Scheduler \<Rightarrow> loop_at \<Rightarrow> Worker list \<Rightarrow> bool" where
  "loop_runs lt y s p ws \<longleftrightarrow> (\<exists>y'. (fine_step lt)\<^sup>*\<^sup>* y y' \<and> loop_to s p ws y y')"

lemma loop_runs_refl: "fi_loop y = p \<Longrightarrow> loop_runs lt y (fi_sched y) p (fi_workers y)"
  unfolding loop_runs_def loop_to_def by blast

lemma loop_runs_trans:
  assumes "loop_runs lt y s p ws"
    "\<And>y'. fi_sched y' = s \<Longrightarrow> fi_loop y' = p \<Longrightarrow> fi_workers y' = ws \<Longrightarrow> loop_runs lt y' s' p' ws'"
  shows "loop_runs lt y s' p' ws'"
  using assms unfolding loop_runs_def loop_to_def by (metis (no_types, lifting) rtranclp_trans)

text \<open>One step of the loop, and then the rest.\<close>

lemma loop_runs_step:
  assumes "fine_step lt y y1" "fi_main y1 = fi_main y" "fi_socket y1 = fi_socket y" "loop_runs lt y1 s p ws"
  shows "loop_runs lt y s p ws"
  using assms unfolding loop_runs_def loop_to_def by (metis converse_rtranclp_into_rtranclp)

lemma loop_scan_run:
  assumes "(scan_next lt now)\<^sup>*\<^sup>* x x'" "fi_loop y = Loop_scan wall now (fst x)" "fi_sched y = snd x"
  shows "loop_runs lt y (snd x') (Loop_scan wall now (fst x')) (fi_workers y)"
  using assms
proof (induction arbitrary: y rule: converse_rtranclp_induct)
  case base
  then show ?case using loop_runs_refl by metis
next
  case (step x z)
  let ?y = "y\<lparr>fi_sched := snd z, fi_loop := Loop_scan wall now (fst z), fi_recovered := fi_recovered y @ marked (fst x) (fst z)\<rparr>"
  have "scan_step lt now (fst x) (fi_sched y) (fst z) (snd z)" using step by (simp add: scan_next_def)
  from fl_scan [OF step.prems(1) this] have "fine_step lt y ?y" .
  then show ?case using step.IH [of ?y] by (intro loop_runs_step [of lt y ?y]) simp_all
qed

lemma loop_queue_run:
  "fi_loop y = Loop_queue wall q ls ds \<Longrightarrow>
    loop_runs lt y (fi_sched y) (Loop_queue wall [] (ls @ fst (collect_queue (fi_sched y) q)) (ds @ snd (collect_queue (fi_sched y) q)))
      (fi_workers y)"
proof (induction q arbitrary: y ls ds)
  case Nil
  then show ?case using loop_runs_refl by simp
next
  case (Cons e q)
  obtain ls' ds' where e: "queue_entry (fi_sched y) e = (ls', ds')" by fastforce
  let ?y = "y\<lparr>fi_loop := Loop_queue wall q (ls @ ls') (ds @ ds')\<rparr>"
  have "fine_step lt y ?y" by (rule fl_queue [OF Cons.prems e])
  then show ?case
    using Cons.IH [of ?y "ls @ ls'" "ds @ ds'"] e
    by (intro loop_runs_step [of lt y ?y]) (simp_all add: collect_queue_sections)
qed

lemma loop_due_run:
  "fi_loop y = Loop_due wall js ls \<Longrightarrow>
    loop_runs lt y (fst (run_steps (collect_due_job lt wall) js (fi_sched y)))
      (Loop_due wall [] (ls @ snd (run_steps (collect_due_job lt wall) js (fi_sched y)))) (fi_workers y)"
proof (induction js arbitrary: y ls)
  case Nil
  then show ?case using loop_runs_refl by simp
next
  case (Cons job js)
  obtain s' ls' where j: "collect_due_job lt wall job (fi_sched y) = (s', ls')" by fastforce
  let ?y = "y\<lparr>fi_sched := s', fi_loop := Loop_due wall js (ls @ ls')\<rparr>"
  have "fine_step lt y ?y" by (rule fl_due [OF Cons.prems j])
  then show ?case using Cons.IH [of ?y "ls @ ls'"] j by (intro loop_runs_step [of lt y ?y]) simp_all
qed

definition new_worker :: "Job \<times> string \<Rightarrow> Worker" where
  "new_worker l = \<lparr>wk_job = fst l, wk_trigger = snd l, wk_at = Work_start\<rparr>"

lemma loop_launch_run:
  "fi_loop y = Loop_launch ls \<Longrightarrow> launch_all ls (fi_sched y) = Ret s' \<Longrightarrow>
    loop_runs lt y s' (Loop_launch []) (fi_workers y @ map new_worker ls)"
proof (induction ls arbitrary: y)
  case Nil
  then show ?case using loop_runs_refl by (metis append_Nil2 cxx.inject(1) launch_all.simps(1) list.simps(8))
next
  case (Cons l ls)
  obtain job trigger where l: "l = (job, trigger)" by fastforce
  then obtain s1 where s1: "launch job trigger (fi_sched y) = Ret s1" "launch_all ls s1 = Ret s'"
    using Cons.prems(2) by (auto simp: cxx_simps)
  let ?y = "y\<lparr>fi_sched := s1, fi_loop := Loop_launch ls, fi_workers := fi_workers y @ [new_worker l]\<rparr>"
  have "fine_step lt y ?y" using fl_launch [of y job trigger ls s1 lt] Cons.prems(1) s1(1) l by (simp add: new_worker_def)
  then show ?case using Cons.IH [of ?y] s1(2) by (intro loop_runs_step [of lt y ?y]) simp_all
qed


text \<open>The collection, and the publication after the launches.\<close>

lemma loop_collect_run:
  assumes "fi_loop y = Loop_lock wall"
  shows "loop_runs lt y (fst (collect lt wall (fi_sched y))) (Loop_launch (snd (collect lt wall (fi_sched y)))) (fi_workers y)"
proof -
  let ?s = "fi_sched y"
  let ?ls = "fst (collect_queue ?s (sc_queue ?s))" and ?s1 = "?s\<lparr>sc_queue := snd (collect_queue ?s (sc_queue ?s))\<rparr>"
  let ?due = "run_steps (collect_due_job lt wall) (sc_jobs ?s) ?s1"
  have c: "collect lt wall ?s = (fst ?due, ?ls @ snd ?due)" by (simp add: collect_def Let_def split_beta)
  have "loop_runs lt y ?s (Loop_queue wall [] ?ls (snd (collect_queue ?s (sc_queue ?s)))) (fi_workers y)"
    using loop_queue_run [of "y\<lparr>fi_loop := Loop_queue wall (sc_queue ?s) [] []\<rparr>" wall "sc_queue ?s" "[]" "[]" lt]
    by (intro loop_runs_step [OF fl_lock [OF assms]]) simp_all
  then have "loop_runs lt y (fst ?due) (Loop_due wall [] (?ls @ snd ?due)) (fi_workers y)"
  proof (rule loop_runs_trans)
    fix z :: Fine assume z: "fi_sched z = ?s" "fi_loop z = Loop_queue wall [] ?ls (snd (collect_queue ?s (sc_queue ?s)))"
      "fi_workers z = fi_workers y"
    show "loop_runs lt z (fst ?due) (Loop_due wall [] (?ls @ snd ?due)) (fi_workers y)"
      using loop_due_run [of "z\<lparr>fi_sched := ?s1, fi_loop := Loop_due wall (sc_jobs ?s) ?ls\<rparr>" wall "sc_jobs ?s" ?ls lt] z
      by (intro loop_runs_step [OF fl_queued [OF z(2)]]) simp_all
  qed
  then show ?thesis
    unfolding c fst_conv snd_conv
  proof (rule loop_runs_trans)
    fix z :: Fine assume z: "fi_sched z = fst ?due" "fi_loop z = Loop_due wall [] (?ls @ snd ?due)" "fi_workers z = fi_workers y"
    show "loop_runs lt z (fst ?due) (Loop_launch (?ls @ snd ?due)) (fi_workers y)"
      using loop_runs_refl [of "z\<lparr>fi_loop := Loop_launch (?ls @ snd ?due)\<rparr>" "Loop_launch (?ls @ snd ?due)" lt] z
      by (intro loop_runs_step [OF fl_unlock [OF z(2)]]) simp_all
  qed
qed

lemma loop_publish_run:
  assumes "fi_loop y = Loop_launch []"
  shows "loop_runs lt y (publish_status (fi_sched y)) Loop_head (fi_workers y)"
proof -
  define y1 where "y1 = y\<lparr>fi_loop := Loop_snapshot\<rparr>"
  define y2 where "y2 = y1\<lparr>fi_loop := Loop_put (snapshot (fi_sched y1))\<rparr>"
  define y3 where "y3 = y2\<lparr>fi_sched := put_jobs (snapshot (fi_sched y1)) (fi_sched y2), fi_loop := Loop_head\<rparr>"
  have "fine_step lt y y1" "fine_step lt y1 y2" "fine_step lt y2 y3"
    using assms fl_launched [of y lt] fl_snapshot [of y1 lt] fl_put [of y2 "snapshot (fi_sched y1)" lt]
    by (simp_all add: y1_def y2_def y3_def)
  moreover have "fi_sched y3 = publish_status (fi_sched y)" "fi_loop y3 = Loop_head" "fi_workers y3 = fi_workers y"
    by (simp_all add: y3_def y2_def y1_def publish_is_snapshot_then_put)
  ultimately show ?thesis
    using loop_runs_refl [of y3 Loop_head lt]
    by (intro loop_runs_step [of lt y y1] loop_runs_step [of lt y1 y2] loop_runs_step [of lt y2 y3])
       (simp_all add: y1_def y2_def y3_def)
qed

lemma loop_wake_run:
  assumes "fi_loop y = Loop_wake"
  shows "loop_runs lt y (fst (check_wake lt wall now env (fi_sched y))) (Loop_lock wall) (fi_workers y)"
proof -
  obtain s1 scan where w: "wake_check wall (fi_sched y) = (s1, scan)" by fastforce
  note step = fl_wake [OF assms w, of lt now]
  show ?thesis
  proof (cases scan)
    case False
    then show ?thesis
      using w loop_runs_refl [of "y\<lparr>fi_sched := s1, fi_loop := Loop_lock wall\<rparr>" "Loop_lock wall" lt]
      by (intro loop_runs_step [OF step]) (simp_all add: check_wake_sections)
  next
    case True
    let ?y = "y\<lparr>fi_sched := s1, fi_loop := Loop_scan wall now Scan_begin\<rparr>"
    have eq: "fst (check_wake lt wall now env (fi_sched y)) = fst (scan_missed lt now env s1)"
      using w True by (simp add: check_wake_sections)
    have "loop_runs lt ?y (fst (scan_missed lt now env s1)) (Loop_scan wall now (Scan_read [])) (fi_workers y)"
      using loop_scan_run [OF scan_missed_run [of lt now s1 env], of ?y wall] by simp
    then have "loop_runs lt ?y (fst (scan_missed lt now env s1)) (Loop_lock wall) (fi_workers y)"
    proof (rule loop_runs_trans)
      fix z :: Fine assume z: "fi_sched z = fst (scan_missed lt now env s1)" "fi_loop z = Loop_scan wall now (Scan_read [])"
        "fi_workers z = fi_workers y"
      show "loop_runs lt z (fst (scan_missed lt now env s1)) (Loop_lock wall) (fi_workers y)"
        using loop_runs_refl [of "z\<lparr>fi_loop := Loop_lock wall\<rparr>" "Loop_lock wall" lt] z
        by (intro loop_runs_step [OF fl_scanned [OF z(2)]]) simp_all
    qed
    then show ?thesis using True unfolding eq by (intro loop_runs_step [OF step]) simp_all
  qed
qed

text \<open>A whole round.\<close>

lemma round_run:
  assumes "fi_loop y = Loop_head" "sc_active (fi_sched y)" "te_finished env = []"
    and "tick lt env (fi_sched y) = Ret (s', launches, ns)"
  shows "loop_runs lt y s' Loop_head (fi_workers y @ map new_worker launches)"
proof -
  let ?s1 = "reap_finished (fi_sched y)"
  let ?s2 = "fst (check_wake lt (te_wall env) (te_scan_now env) (te_alerts env) ?s1)"
  have fin: "finish_tasks [] s = s" for s :: Scheduler by (cases s) (simp add: finish_tasks_def)
  have b: "before_launch lt env (fi_sched y) = ?s2" by (simp only: before_launch_def assms(3) fin)
  have l: "launches = snd (collect lt (te_wall env) ?s2)" using tick_RetD(1) [OF assms(4)] unfolding b .
  have "\<exists>s3. launch_all launches (fst (collect lt (te_wall env) ?s2)) = Ret s3 \<and> s' = publish_status s3"
    using assms(4) unfolding tick_eq b l [symmetric] cxx_bind_Ret_iff by blast
  then obtain s3 where s3: "launch_all launches (fst (collect lt (te_wall env) ?s2)) = Ret s3" "s' = publish_status s3" by blast
  have "loop_runs lt y ?s1 Loop_wake (fi_workers y)"
  proof (rule loop_runs_step [OF fl_head [OF assms(1)]])
    let ?y = "y\<lparr>fi_loop := Loop_reap\<rparr>"
    have "loop_runs lt ?y ?s1 Loop_wake (fi_workers y)"
      using fl_reap [of ?y lt] loop_runs_refl [of "?y\<lparr>fi_sched := ?s1, fi_loop := Loop_wake\<rparr>" Loop_wake lt]
      by (intro loop_runs_step [of lt ?y "?y\<lparr>fi_sched := ?s1, fi_loop := Loop_wake\<rparr>"]) simp_all
    then show "loop_runs lt (y\<lparr>fi_loop := if sc_active (fi_sched y) then Loop_reap else Loop_ended\<rparr>) ?s1 Loop_wake (fi_workers y)"
      using assms(2) by simp
  qed simp_all
  then have "loop_runs lt y ?s2 (Loop_lock (te_wall env)) (fi_workers y)"
  proof (rule loop_runs_trans)
    fix z :: Fine assume "fi_sched z = ?s1" "fi_loop z = Loop_wake" "fi_workers z = fi_workers y"
    then show "loop_runs lt z ?s2 (Loop_lock (te_wall env)) (fi_workers y)"
      using loop_wake_run [of z lt "te_wall env" "te_scan_now env" "te_alerts env"] by simp
  qed
  then have "loop_runs lt y (fst (collect lt (te_wall env) ?s2)) (Loop_launch launches) (fi_workers y)"
  proof (rule loop_runs_trans)
    fix z :: Fine assume "fi_sched z = ?s2" "fi_loop z = Loop_lock (te_wall env)" "fi_workers z = fi_workers y"
    then show "loop_runs lt z (fst (collect lt (te_wall env) ?s2)) (Loop_launch launches) (fi_workers y)"
      using loop_collect_run [of z "te_wall env" lt] l by simp
  qed
  then have "loop_runs lt y s3 (Loop_launch []) (fi_workers y @ map new_worker launches)"
    by (rule loop_runs_trans) (use loop_launch_run s3(1) in metis)
  then show ?thesis
    by (rule loop_runs_trans) (use loop_publish_run s3(2) in metis)
qed

section \<open>Requests\<close>

lemma fine_stepI: "fine_step lt y z \<Longrightarrow> (fine_step lt)\<^sup>*\<^sup>* z y' \<Longrightarrow> (fine_step lt)\<^sup>*\<^sup>* y y'"
  by (rule converse_rtranclp_into_rtranclp)

text \<open>The two halves of the publication at the end of a request.\<close>

lemma socket_publish_run:
  assumes "fi_socket y = Sock_snapshot" "\<not> collecting (fi_loop y)"
  shows "(fine_step lt)\<^sup>*\<^sup>* y (y\<lparr>fi_sched := put_jobs (snapshot (fi_sched y)) (fi_sched y), fi_socket := Sock_ready\<rparr>)"
proof -
  let ?z = "y\<lparr>fi_socket := Sock_put (snapshot (fi_sched y))\<rparr>"
  have "fine_step lt ?z (y\<lparr>fi_sched := put_jobs (snapshot (fi_sched y)) (fi_sched y), fi_socket := Sock_ready\<rparr>)"
    using fs_put [of ?z "snapshot (fi_sched y)" lt] by simp
  with fs_snapshot [OF assms] show ?thesis by (blast intro: fine_stepI)
qed

text \<open>An accepted request to add a job is a run of the sections of the socket thread.\<close>

lemma add_is_sections:
  assumes "fi_socket y = Sock_ready" "\<not> collecting (fi_loop y)" "ui_job_ok job"
    and "add_job lt now rc job (fi_sched y) = (s', [])"
  shows "(fine_step lt)\<^sup>*\<^sup>* y (y\<lparr>fi_sched := s'\<rparr>)"
proof -
  let ?j = "job\<lparr>job_source := ''ui''\<rparr>"
  obtain s1 err where s1: "add_store rc ?j (fi_sched y) = (s1, err)" by fastforce
  have check: "add_check job (fi_sched y) = []" using assms(4) unfolding add_job_sections by (auto split: if_splits)
  have err: "err = []" using assms(4) s1 check unfolding add_job_sections Let_def by (auto split: if_splits)
  let ?s2 = "add_push lt now ?j s1"
  have s': "s' = put_jobs (snapshot ?s2) ?s2" using assms(4) s1 check err unfolding add_job_sections Let_def by simp
  let ?y1 = "y\<lparr>fi_socket := Sock_add_store ?j\<rparr>"
  let ?y2 = "y\<lparr>fi_sched := s1, fi_socket := Sock_add_push ?j\<rparr>"
  let ?y3 = "y\<lparr>fi_sched := ?s2, fi_socket := Sock_snapshot\<rparr>"
  have "fine_step lt y ?y1" by (rule fs_add [OF assms(1-3) check])
  moreover have "fine_step lt ?y1 ?y2" using fs_store [of ?y1 ?j rc s1 err lt] s1 err by simp
  moreover have "fine_step lt ?y2 ?y3" using fs_push [of ?y2 ?j lt now] assms(2) by simp
  moreover have "y\<lparr>fi_sched := s', fi_socket := Sock_ready\<rparr> = y\<lparr>fi_sched := s'\<rparr>" using assms(1) by (cases y) simp
  then have "(fine_step lt)\<^sup>*\<^sup>* ?y3 (y\<lparr>fi_sched := s'\<rparr>)" using socket_publish_run [of ?y3 lt] assms(2) s' by simp
  ultimately show ?thesis by (blast intro: fine_stepI)
qed

text \<open>So is an accepted request to remove one.\<close>

lemma remove_is_sections:
  assumes "fi_socket y = Sock_ready" "\<not> collecting (fi_loop y)" "remove_job rc n (fi_sched y) = (s', [])"
  shows "(fine_step lt)\<^sup>*\<^sup>* y (y\<lparr>fi_sched := s', fi_recovered := filter (\<lambda>r. fst r \<noteq> n) (fi_recovered y)\<rparr>)"
proof -
  obtain s1 err where s1: "remove_delete rc n (fi_sched y) = (s1, err)" by fastforce
  have check: "remove_check n (fi_sched y) = []" using assms(3) unfolding remove_job_sections by (auto split: if_splits)
  have err: "err = []" using assms(3) s1 check unfolding remove_job_sections Let_def by (auto split: if_splits)
  let ?s2 = "remove_erase n s1" and ?rec = "filter (\<lambda>r. fst r \<noteq> n) (fi_recovered y)"
  have s': "s' = put_jobs (snapshot ?s2) ?s2" using assms(3) s1 check err unfolding remove_job_sections Let_def by simp
  let ?y1 = "y\<lparr>fi_socket := Sock_delete n\<rparr>"
  let ?y2 = "y\<lparr>fi_sched := s1, fi_socket := Sock_erase n\<rparr>"
  let ?y3 = "y\<lparr>fi_sched := ?s2, fi_socket := Sock_snapshot, fi_recovered := ?rec\<rparr>"
  have "fine_step lt y ?y1" by (rule fs_remove [OF assms(1,2) check])
  moreover have "fine_step lt ?y1 ?y2" using fs_delete [of ?y1 n rc s1 err lt] s1 err by simp
  moreover have "fine_step lt ?y2 ?y3" using fs_erase [of ?y2 n lt] assms(2) by simp
  moreover have "(fine_step lt)\<^sup>*\<^sup>* ?y3 (?y3\<lparr>fi_sched := put_jobs (snapshot (fi_sched ?y3)) (fi_sched ?y3), fi_socket := Sock_ready\<rparr>)"
    using assms(2) by (intro socket_publish_run) simp_all
  moreover have "?y3\<lparr>fi_sched := put_jobs (snapshot (fi_sched ?y3)) (fi_sched ?y3), fi_socket := Sock_ready\<rparr> =
      y\<lparr>fi_sched := s', fi_recovered := ?rec\<rparr>"
    using assms(1) by (cases y) (simp add: s')
  ultimately show ?thesis by (metis fine_stepI)
qed

section \<open>Workers\<close>

definition work_next :: "Job \<Rightarrow> string \<Rightarrow> work_at \<times> Scheduler \<Rightarrow> work_at \<times> Scheduler \<Rightarrow> bool" where
  "work_next job trigger x x' = work_step job trigger (fst x) (snd x) (fst x') (snd x')"

lemma work_nextI:
  "work_step job trigger p s p' s' \<Longrightarrow> (work_next job trigger)\<^sup>*\<^sup>* (p', s') x \<Longrightarrow> (work_next job trigger)\<^sup>*\<^sup>* (p, s) x"
  by (rule converse_rtranclp_into_rtranclp [where b = "(p', s')"]) (simp_all add: work_next_def)

lemma record_attempt_sections:
  "record_attempt rc job trigger res s =
     (let s1 = s\<lparr>sc_db := fst (insert_run rc (run_record job trigger res) (sc_db s))\<rparr>
      in s1\<lparr>sc_last_runs := (sc_last_runs s1)(job_name job \<mapsto> run_record job trigger res)\<rparr>)"
  by (simp add: record_attempt_def Let_def)

lemma record_attempt_active [simp]: "sc_active (record_attempt rc job trigger res s) = sc_active s"
  by (simp add: record_attempt_def Let_def)

text \<open>The attempts, as long as \<open>active_\<close> is set.\<close>

lemma attempts_run:
  assumes "worker_attempts job trigger (job_retries job + 1) k tries res s = Some (s', res')"
    "\<forall>e \<in> set tries. at_active e" "sc_active s"
  shows "(work_next job trigger)\<^sup>*\<^sup>* (Work_try k res, s) (Work_judge res', s') \<and> sc_active s'"
  using assms
proof (induction tries arbitrary: k res s)
  case Nil
  then have over: "\<not> (k \<le> job_retries job + 1 \<and> sc_active s)" "res' = res" "s' = s" by (auto split: if_splits)
  show ?case
    unfolding over(2,3)
    by (rule conjI, rule work_nextI [OF wk_over [OF over(1)]], rule rtranclp.rtrancl_refl) (rule Nil.prems(3))
next
  case (Cons e es)
  show ?case
  proof (cases "k \<le> job_retries job + 1")
    case False
    then have over: "\<not> (k \<le> job_retries job + 1 \<and> sc_active s)" "res' = res" "s' = s" using Cons.prems(1) by auto
    show ?thesis
      unfolding over(2,3)
      by (rule conjI, rule work_nextI [OF wk_over [OF over(1)]], rule rtranclp.rtrancl_refl) (rule Cons.prems(3))
  next
    case True
    have e: "at_active e" using Cons.prems(2) by simp
    then obtain r effs where r: "run_command (at_run e) (job_command job) (job_timeout_seconds job) = Some (r, effs)"
      using Cons.prems(1) True by (auto split: option.splits)
    let ?s1 = "record_attempt (at_rc e) job trigger r s"
    let ?p = "if rr_status r = Success then Work_judge r else Work_try (k + 1) r"
    have one: "(work_next job trigger)\<^sup>*\<^sup>* (Work_try k res, s) (?p, ?s1)"
      unfolding record_attempt_sections Let_def
      by (rule work_nextI [OF wk_more [OF True Cons.prems(3)]], rule work_nextI [OF wk_run [OF r]],
          rule work_nextI [OF wk_insert], rule work_nextI [OF wk_last], rule rtranclp.rtrancl_refl)
    show ?thesis
    proof (cases "rr_status r = Success")
      case ok: True
      then have "s' = ?s1" "res' = r" using Cons.prems(1) True e r by (auto simp: Let_def)
      then show ?thesis using one ok Cons.prems(3) by simp
    next
      case False
      then have "worker_attempts job trigger (job_retries job + 1) (k + 1) es r ?s1 = Some (s', res')"
        using Cons.prems(1) True e r by (simp add: Let_def)
      from Cons.IH [OF this] show ?thesis
        using one False Cons.prems(2,3) by (auto intro: rtranclp_trans)
    qed
  qed
qed

lemma worker_run:
  assumes "worker tries True env job trigger s = Ret (Some (s', ns))" "\<forall>e \<in> set tries. at_active e" "sc_active s"
  shows "\<exists>s1. (work_next job trigger)\<^sup>*\<^sup>* (Work_start, s) (Work_done, s1) \<and> s' = mark_done (job_name job) s1"
proof -
  let ?N = "job_retries job + 1"
  have max: "job_retries job \<noteq> INT_MAX" using assms(1) by (auto simp: worker_def)
  obtain s1 res where run: "worker_attempts job trigger ?N 1 tries default_RunResult s = Some (s1, res)"
    using assms(1) by (auto simp: worker_def Let_def split: if_splits option.splits)
  note tries = attempts_run [OF run assms(2,3)]
  have start: "(work_next job trigger)\<^sup>*\<^sup>* (Work_start, s) (Work_judge res, s1)"
    by (rule work_nextI [OF wk_start [OF max]]) (use tries in blast)
  show ?thesis
  proof (cases "rr_status res = Success")
    case True
    then have "s' = mark_done (job_name job) s1" using assms(1) run max by (auto simp: worker_def Let_def)
    moreover have "(work_next job trigger)\<^sup>*\<^sup>* (Work_judge res, s1) (Work_done, s1)"
      by (rule work_nextI [OF wk_quiet]) (use True in auto)
    ultimately show ?thesis using start by (auto intro: rtranclp_trans)
  next
    case False
    let ?a = "\<lambda>f. f (job_name job) ''serious'' (failure_message res ?N) (stderr_detail (rr_stderr_text res))
        (Fin (real_of_int (rr_exit_code res)))"
    let ?s2 = "?a (alert_post (fst env)) (?a (alert_row env) s1)"
    have "s' = mark_done (job_name job) ?s2"
      using assms(1) run max False by (auto simp: worker_def Let_def split_beta emit_alert_sections)
    moreover have "(work_next job trigger)\<^sup>*\<^sup>* (Work_judge res, s1) (Work_done, ?s2)"
      by (rule work_nextI [OF wk_alert [OF _ False]], rule conjunct2 [OF tries], rule work_nextI [OF wk_row [where env = env]],
          rule work_nextI [OF wk_ring], rule rtranclp.rtrancl_refl)
    ultimately show ?thesis using start by (auto intro: rtranclp_trans)
  qed
qed

lemma work_next_steps:
  assumes "(work_next (wk_job w) (wk_trigger w))\<^sup>*\<^sup>* x x'" "fi_workers y = us @ w\<lparr>wk_at := fst x\<rparr> # vs" "fi_sched y = snd x"
    "\<not> collecting (fi_loop y)"
  shows "(fine_step lt)\<^sup>*\<^sup>* y (y\<lparr>fi_sched := snd x', fi_workers := us @ w\<lparr>wk_at := fst x'\<rparr> # vs\<rparr>)"
  using assms
proof (induction arbitrary: y rule: converse_rtranclp_induct)
  case base
  then have "y\<lparr>fi_sched := snd x', fi_workers := us @ w\<lparr>wk_at := fst x'\<rparr> # vs\<rparr> = y" by (cases y) simp
  then show ?case by simp
next
  case (step x z)
  let ?z = "y\<lparr>fi_sched := snd z, fi_workers := us @ w\<lparr>wk_at := fst z\<rparr> # vs\<rparr>"
  have "fine_step lt y ?z"
    using fk_step [OF step.prems(1), of "fst z" "snd z" lt] step.hyps(1) step.prems by (simp add: work_next_def)
  then show ?case using step.IH [of ?z] step.prems(3) by (auto intro: fine_stepI)
qed

text \<open>A worker is a run of its sections: from its start, undisturbed and with \<open>active_\<close> set, it leaves the state
  that \<open>worker\<close> returns, and is gone.\<close>

lemma worker_is_sections:
  assumes "fi_workers y = us @ w # vs" "wk_at w = Work_start" "\<not> collecting (fi_loop y)" "sc_active (fi_sched y)"
    and "worker tries True env (wk_job w) (wk_trigger w) (fi_sched y) = Ret (Some (s', ns))" "\<forall>e \<in> set tries. at_active e"
  shows "(fine_step lt)\<^sup>*\<^sup>* y (y\<lparr>fi_sched := s', fi_workers := us @ vs\<rparr>)"
proof -
  obtain s1 where s1: "(work_next (wk_job w) (wk_trigger w))\<^sup>*\<^sup>* (Work_start, fi_sched y) (Work_done, s1)"
    "s' = mark_done (job_name (wk_job w)) s1"
    using worker_run [OF assms(5,6,4)] by blast
  let ?z = "y\<lparr>fi_sched := s1, fi_workers := us @ w\<lparr>wk_at := Work_done\<rparr> # vs\<rparr>"
  have "w\<lparr>wk_at := Work_start\<rparr> = w" using assms(2) by (cases w) simp
  then have "(fine_step lt)\<^sup>*\<^sup>* y ?z"
    using work_next_steps [OF s1(1), of y us vs lt] assms(1,3) by simp
  moreover have "fine_step lt ?z (y\<lparr>fi_sched := s', fi_workers := us @ vs\<rparr>)"
    using fk_done [of ?z us "w\<lparr>wk_at := Work_done\<rparr>" vs lt] s1(2) by simp
  ultimately show ?thesis by (rule rtranclp.rtrancl_into_rtrancl)
qed

section \<open>A run that ends while the loop collects\<close>

lemma launches_die:
  "fi_loop y = Loop_launch ls \<Longrightarrow> launch_all ls (fi_sched y) = Terminate \<Longrightarrow> \<exists>y'. (fine_step lt)\<^sup>*\<^sup>* y y' \<and> dies y'"
proof (induction ls arbitrary: y)
  case (Cons l ls)
  obtain job trigger where l: "l = (job, trigger)" by fastforce
  show ?case
  proof (cases "launch job trigger (fi_sched y)")
    case (Ret s1)
    let ?y = "y\<lparr>fi_sched := s1, fi_loop := Loop_launch ls, fi_workers := fi_workers y @ [new_worker l]\<rparr>"
    have "fine_step lt y ?y" using fl_launch [of y job trigger ls s1 lt] Cons.prems(1) Ret l by (simp add: new_worker_def)
    moreover have "\<exists>y'. (fine_step lt)\<^sup>*\<^sup>* ?y y' \<and> dies y'" using Cons.IH [of ?y] Cons.prems(2) l Ret by simp
    ultimately show ?thesis by (blast intro: fine_stepI)
  next
    case Terminate
    then show ?thesis using Cons.prems(1) l by (intro exI [of _ y]) (simp add: dies_def)
  qed (simp_all add: launch_def split: if_splits)
qed simp

section \<open>Properties\<close>


text \<open>C3: at most one run of a job at a time. In every interleaving of the critical sections the live workers
  work for different jobs, and until \<open>stop\<close> takes the tasks over a job is marked as running in \<open>running_\<close>
  exactly while a worker works for it.\<close>

theorem one_run_per_job:
  assumes "fine_reachable lt cfg y" "distinct (map job_name cfg)" "\<forall>j \<in> set cfg. job_source j \<noteq> ''ui''"
  shows "distinct (worker_names y) \<and>
    (fi_main y \<in> {Main_join_workers, Main_stopped} \<or> {n. is_running (fi_sched y) n} = set (worker_names y))"
  using fine_reachable_ok [OF assms] by (auto simp: fine_ok_def workers_ok_def)



text \<open>C15: a run that ends at the wrong moment terminates the daemon. If a request for a job waits in the queue
  because the job is running, and the worker of that job signals its end after the loop has reaped the
  finished tasks and before it looks at the queue, the loop takes the job for idle, launches it over
  the task that is still to be joined, and the process terminates.\<close>

theorem finish_after_reaping_crashes:
  assumes "fine_reachable lt cfg y" "distinct (map job_name cfg)" "\<forall>j \<in> set cfg. job_source j \<noteq> ''ui''"
    and "fi_loop y = Loop_wake" "w \<in> set (fi_workers y)" "wk_at w = Work_done"
    and "find_job (job_name (wk_job w)) (sc_jobs (fi_sched y)) \<noteq> None"
    and "(job_name (wk_job w), trigger) \<in> set (sc_queue (fi_sched y))"
  shows "\<exists>y'. (fine_step lt)\<^sup>*\<^sup>* y y' \<and> dies y'"
proof -
  let ?n = "job_name (wk_job w)"
  let ?s1 = "mark_done ?n (fi_sched y)"
  let ?s2 = "fst (check_wake lt 0 0 (\<lambda>_. (0, Write_done 0)) ?s1)"
  obtain us vs where ws: "fi_workers y = us @ w # vs" using assms(5) by (meson split_list)
  have ok: "workers_ok y" "phases_ok y" using fine_reachable_ok [OF assms(1-3)] by (simp_all add: fine_ok_def)
  then have "is_running (fi_sched y) ?n" using assms(4,5) by (auto simp: workers_ok_def phases_ok_def)
  then have "sc_running ?s2 ?n \<noteq> None"
    by (auto simp: sched_frame mark_done_def finish_tasks_def is_running_def split: option.splits)
  moreover have idle: "\<not> is_running ?s2 ?n"
    using is_running_cong [of ?s2 ?s1] by (simp add: sched_frame)
  moreover obtain extra where q: "sc_queue ?s2 = sc_queue (fi_sched y) @ extra"
    using check_wake_queue [of lt 0 0 "\<lambda>_. (0, Write_done 0)" ?s1] by (auto simp: mark_done_def sched_frame)
  obtain j where j: "find_job ?n (sc_jobs ?s2) = Some j" using assms(7) by (auto simp: sched_frame mark_done_def)
  have "(?n, trigger) \<in> set (sc_queue ?s2)" using assms(8) q by simp
  with idle j have "(j, trigger) \<in> set (fst (collect_queue ?s2 (sc_queue ?s2)))"
    by (force simp: collect_queue_eq)
  then have "(j, trigger) \<in> set (snd (collect lt 0 ?s2))" by (simp add: collect_def Let_def split_beta)
  ultimately have dead: "launch_all (snd (collect lt 0 ?s2)) (fst (collect lt 0 ?s2)) = Terminate"
    using find_job_name [OF j] by (force simp: launch_all_eq sched_frame)
  let ?y1 = "y\<lparr>fi_sched := ?s1, fi_workers := us @ vs\<rparr>"
  have "fine_step lt y ?y1" by (rule fk_done [OF ws assms(6)])
  moreover have "loop_runs lt ?y1 (fst (collect lt 0 ?s2)) (Loop_launch (snd (collect lt 0 ?s2))) (us @ vs)"
  proof (rule loop_runs_trans [OF loop_wake_run [of ?y1 lt 0 0 "\<lambda>_. (0, Write_done 0)"]])
    fix z :: Fine assume "fi_sched z = fst (check_wake lt 0 0 (\<lambda>_. (0, Write_done 0)) (fi_sched ?y1))" "fi_loop z = Loop_lock 0"
      "fi_workers z = fi_workers ?y1"
    then show "loop_runs lt z (fst (collect lt 0 ?s2)) (Loop_launch (snd (collect lt 0 ?s2))) (us @ vs)"
      using loop_collect_run [of z 0 lt] by simp
  qed (use assms(4) in simp)
  then obtain y2 where "(fine_step lt)\<^sup>*\<^sup>* ?y1 y2" "fi_loop y2 = Loop_launch (snd (collect lt 0 ?s2))" "fi_sched y2 = fst (collect lt 0 ?s2)"
    by (auto simp: loop_runs_def loop_to_def)
  moreover then obtain y3 where "(fine_step lt)\<^sup>*\<^sup>* y2 y3" "dies y3" using launches_die [of y2] dead by auto
  ultimately show ?thesis by (meson fine_stepI rtranclp_trans)
qed

text \<open>Fact: the invariant of the jobs holds at every moment between two critical sections, not only between
  operations: names are distinct, the configured jobs are there in their order, only scheduled jobs have
  a next run, and every job added at run time is stored unless its removal is under way; from any such
  moment on, the stored metrics, runs and alerts only grow at their end.\<close>

theorem every_moment:
  assumes "fine_reachable lt cfg y" "distinct (map job_name cfg)" "\<forall>j \<in> set cfg. job_source j \<noteq> ''ui''"
    and "(fine_step lt)\<^sup>*\<^sup>* y y'"
  shows "distinct (map job_name (sc_jobs (fi_sched y))) \<and>
    filter (\<lambda>j. job_source j \<noteq> ''ui'') (sc_jobs (fi_sched y)) = cfg \<and>
    dom (sc_next_run (fi_sched y)) \<subseteq> job_name ` {j \<in> set (sc_jobs (fi_sched y)). job_schedule j \<noteq> None} \<and>
    (\<forall>j \<in> set (sc_jobs (fi_sched y)). job_source j = ''ui'' \<longrightarrow> fi_socket y \<noteq> Sock_erase (job_name j) \<longrightarrow>
       lookup_def (db_job_defs (sc_db (fi_sched y))) (job_name j) = Some (def_from_job j)) \<and>
    grows (sc_db (fi_sched y)) (sc_db (fi_sched y'))"
proof -
  have ok: "mem_ok cfg (fi_sched y)" "core_ok cfg (settled y)"
    using fine_reachable_ok [OF assms(1-3)] by (simp_all add: fine_ok_def jobs_ok_def)
  have db: "sc_db (settled y) = sc_db (fi_sched y)" by (simp add: settled_def remove_erase_def split: socket_at.split)
  have "lookup_def (db_job_defs (sc_db (fi_sched y))) (job_name j) = Some (def_from_job j)"
    if "j \<in> set (sc_jobs (fi_sched y))" "job_source j = ''ui''" "fi_socket y \<noteq> Sock_erase (job_name j)" for j
  proof -
    have "j \<in> set (sc_jobs (settled y))" using that by (auto simp: settled_def remove_erase_def split: socket_at.split)
    moreover have "sched_inv (publish_status (settled y))" using ok(2) by (simp add: core_ok_def sched_ok_def)
    ultimately show ?thesis using sched_invD(6) [of "publish_status (settled y)" j] that(2) db by simp
  qed
  moreover have "grows (sc_db (fi_sched y)) (sc_db (fi_sched y'))"
    using fine.steps_le [OF assms(4)] by (simp add: moves_on_def shared_def)
  ultimately show ?thesis using ok(1) by (simp add: mem_ok_def)
qed

subsection \<open>A concrete run\<close>

text \<open>The daemon of one configured job, serving: the scan at the start found nothing to scan.\<close>

definition served :: Fine where
  "served = (fine_start 0 1000 fresh_state)\<lparr>fi_main := Main_sampling, fi_socket := Sock_ready\<rparr>"

lemma served_fields [simp]:
  "fi_sched served = fresh_state\<lparr>sc_active := True, sc_last_wall := 0\<rparr>" "fi_loop served = Loop_head"
  "fi_main served = Main_sampling" "fi_socket served = Sock_ready" "fi_workers served = []"
  by (simp_all add: served_def fine_start_def)

lemma fresh_fields [simp]:
  "sc_jobs fresh_state = [config_job]" "sc_queue fresh_state = []" "sc_running fresh_state = Map.empty"
  "sc_next_run fresh_state = Map.empty" "sc_wake_pending fresh_state = False"
  by (simp_all add: fresh_state_def publish_status_def)

lemma report_fields [simp]:
  "job_name config_job = ''report''" "job_schedule config_job = None" "job_source config_job \<noteq> ''ui''" "job_retries config_job = 0"
  by (simp_all add: config_job_def default_Job_def)

lemma served_reachable: "fine_reachable utc_day [config_job] served"
proof -
  let ?y = "fine_start 0 1000 fresh_state"
  have "fine_reachable utc_day [config_job] ?y"
    by (rule fine_init [where opened = "Ret ()" and rcs = "\<lambda>_. Read_complete" and db = empty_Database and st = init_SharedState and now = 0])
       (simp_all add: new_Scheduler_def fresh_state_def load_job_defs_def fetch_def empty_Database_def
         config_job_def default_Job_def last_run_complete runs_of_def first_row_def newest_first_def)
  moreover have "fine_step utc_day ?y (?y\<lparr>fi_main := Main_scan 1000 (Scan_read [])\<rparr>)"
    using fm_scan [of ?y 1000 Scan_begin utc_day "Scan_read []" "fi_sched ?y"] sc_begin [of utc_day 1000 "fi_sched ?y"]
    by (simp add: fine_start_def candidates_def)
  moreover have "fine_step utc_day (?y\<lparr>fi_main := Main_scan 1000 (Scan_read [])\<rparr>) served"
    using fm_scanned [of "?y\<lparr>fi_main := Main_scan 1000 (Scan_read [])\<rparr>" 1000 utc_day True]
    by (simp add: fine_start_def served_def)
  ultimately show ?thesis by (blast intro: fine_next)
qed

text \<open>A request for a job that is there puts it in the queue.\<close>

lemma request_reachable:
  assumes "fine_reachable lt cfg y" "fi_socket y = Sock_ready" "\<not> collecting (fi_loop y)" "find_job n (sc_jobs (fi_sched y)) \<noteq> None"
  shows "fine_reachable lt cfg (y\<lparr>fi_sched := enqueue n ''manual'' (fi_sched y)\<rparr>)"
proof -
  let ?z = "y\<lparr>fi_socket := Sock_enqueue n\<rparr>"
  have "fine_step lt y ?z" by (rule fs_request [OF assms(2-4)])
  moreover have "y\<lparr>fi_sched := enqueue n ''manual'' (fi_sched y), fi_socket := Sock_ready\<rparr> =
      y\<lparr>fi_sched := enqueue n ''manual'' (fi_sched y)\<rparr>"
    using assms(2) by (cases y) simp
  then have "fine_step lt ?z (y\<lparr>fi_sched := enqueue n ''manual'' (fi_sched y)\<rparr>)"
    using fs_enqueue [of ?z n lt] assms(3) by simp
  ultimately show ?thesis using assms(1) by (blast intro: fine_next)
qed

definition asked :: Fine where
  "asked = served\<lparr>fi_sched := enqueue ''report'' ''manual'' (fi_sched served)\<rparr>"

lemma asked_reachable: "fine_reachable utc_day [config_job] asked"
  unfolding asked_def by (rule request_reachable [OF served_reachable]) (simp_all add: find_job_def)

lemma asked_tick:
  "\<exists>s' ns. tick utc_day (quiet_env 0) (fi_sched asked) = Ret (s', [(config_job, ''manual'')], ns) \<and> sc_active s' \<and>
     sc_jobs s' = [config_job]"
  by (simp add: asked_def enqueue_def tick_eq before_launch_def check_wake_def kWakeGapSeconds_def quiet_env_def collect_def
      launch_all_eq sched_frame finish_tasks_def find_job_def Let_def reap_finished_def is_running_def collect_due_job_def
      publish_status_def split_beta)

text \<open>A round of the loop then starts a worker.\<close>

lemma asked_round:
  "\<exists>y'. (fine_step utc_day)\<^sup>*\<^sup>* asked y' \<and> fi_loop y' = Loop_head \<and> sc_active (fi_sched y') \<and> sc_jobs (fi_sched y') = [config_job] \<and>
     fi_socket y' = Sock_ready \<and> fi_main y' = Main_sampling \<and>
     fi_workers y' = [\<lparr>wk_job = config_job, wk_trigger = ''manual'', wk_at = Work_start\<rparr>]"
proof -
  obtain s' ns where t: "tick utc_day (quiet_env 0) (fi_sched asked) = Ret (s', [(config_job, ''manual'')], ns)" "sc_active s'"
    "sc_jobs s' = [config_job]"
    using asked_tick by blast
  have a: "fi_loop asked = Loop_head" "sc_active (fi_sched asked)" "te_finished (quiet_env 0) = []" "fi_workers asked = []"
    "fi_main asked = Main_sampling" "fi_socket asked = Sock_ready"
    by (simp_all add: asked_def enqueue_def quiet_env_def)
  from round_run [OF a(1-3) t(1)] t(2,3) a(4-6) show ?thesis
    by (auto simp: loop_runs_def loop_to_def new_worker_def)
qed

text \<open>The worker of the first run has done all but signalled its end, and the job is requested again.\<close>

lemma work_next_frame:
  "(work_next job trigger)\<^sup>*\<^sup>* x x' \<Longrightarrow> sc_jobs (snd x') = sc_jobs (snd x) \<and> sc_active (snd x') = sc_active (snd x)"
proof (induction rule: rtranclp_induct)
  case (step y z)
  have "work_step job trigger (fst y) (snd y) (fst z) (snd z)" using step.hyps(2) by (simp add: work_next_def)
  then have "sc_jobs (snd z) = sc_jobs (snd y) \<and> sc_active (snd z) = sc_active (snd y)"
    by cases (auto simp: alert_row_def alert_post_def)
  then show ?case using step.IH by simp
qed simp

lemma ending_reachable:
  "\<exists>y w. fine_reachable utc_day [config_job] y \<and> fi_loop y = Loop_wake \<and> fi_workers y = [w] \<and> wk_job w = config_job \<and>
     wk_at w = Work_done \<and> sc_jobs (fi_sched y) = [config_job] \<and> (''report'', ''manual'') \<in> set (sc_queue (fi_sched y))"
proof -
  let ?w = "\<lparr>wk_job = config_job, wk_trigger = ''manual'', wk_at = Work_start\<rparr>"
  obtain y where y: "(fine_step utc_day)\<^sup>*\<^sup>* asked y" "fi_loop y = Loop_head" "sc_active (fi_sched y)"
    "sc_jobs (fi_sched y) = [config_job]" "fi_socket y = Sock_ready" "fi_workers y = [?w]"
    using asked_round by blast
  have r: "fine_reachable utc_day [config_job] y" by (rule fine_reachable_steps [OF y(1) asked_reachable])
  obtain s' ns where run: "worker [one_try] True (5, Write_done 1) config_job ''manual'' (fi_sched y) = Ret (Some (s', ns))"
    by (simp add: worker_def INT_MAX_def one_try_def config_job_def default_Job_def sample_run_defs)
  obtain s1 where s1: "(work_next config_job ''manual'')\<^sup>*\<^sup>* (Work_start, fi_sched y) (Work_done, s1)"
    using worker_run [OF run _ y(3)] by (auto simp: one_try_def)
  let ?y1 = "y\<lparr>fi_sched := s1, fi_workers := [?w\<lparr>wk_at := Work_done\<rparr>]\<rparr>"
  have "(fine_step utc_day)\<^sup>*\<^sup>* y ?y1"
    using work_next_steps [of ?w "(Work_start, fi_sched y)" "(Work_done, s1)" y "[]" "[]" utc_day] s1 y by simp
  then have r1: "fine_reachable utc_day [config_job] ?y1" using r by (rule fine_reachable_steps)
  have f: "sc_jobs s1 = [config_job]" "sc_active s1" using work_next_frame [OF s1] y(3,4) by simp_all
  let ?y2 = "?y1\<lparr>fi_sched := enqueue ''report'' ''manual'' s1\<rparr>"
  have r2: "fine_reachable utc_day [config_job] ?y2"
    using request_reachable [OF r1, of "''report''"] y(2,5) f(1) by (simp add: find_job_def)
  let ?y3 = "?y2\<lparr>fi_loop := Loop_reap\<rparr>"
  let ?y4 = "?y3\<lparr>fi_sched := reap_finished (fi_sched ?y3), fi_loop := Loop_wake\<rparr>"
  have "fine_step utc_day ?y2 ?y3" using fl_head [of ?y2 utc_day] y(2) f(2) by (simp add: enqueue_def)
  moreover have "fine_step utc_day ?y3 ?y4" using fl_reap [of ?y3 utc_day] by simp
  ultimately have "fine_reachable utc_day [config_job] ?y4" using r2 by (blast intro: fine_next)
  then show ?thesis using f(1)
    by (intro exI [of _ ?y4] exI [of _ "?w\<lparr>wk_at := Work_done\<rparr>"]) (simp add: sched_frame enqueue_def)
qed


theorem one_run_per_job_witness:
  "\<exists>y. fine_reachable utc_day [config_job] y \<and> fi_loop y = Loop_head \<and> is_running (fi_sched y) ''report'' \<and>
     worker_names y = [''report'']"
proof -
  obtain y where y: "(fine_step utc_day)\<^sup>*\<^sup>* asked y" "fi_loop y = Loop_head" "fi_main y = Main_sampling"
    "fi_workers y = [\<lparr>wk_job = config_job, wk_trigger = ''manual'', wk_at = Work_start\<rparr>]"
    using asked_round by blast
  have r: "fine_reachable utc_day [config_job] y" by (rule fine_reachable_steps [OF y(1) asked_reachable])
  from one_run_per_job [OF this] y(3,4) have "is_running (fi_sched y) ''report''" by auto
  with r y show ?thesis by auto
qed

theorem finish_after_reaping_crashes_witness:
  "\<exists>y y'. fine_reachable utc_day [config_job] y \<and> (fine_step utc_day)\<^sup>*\<^sup>* y y' \<and> dies y'"
proof -
  obtain y w where y: "fine_reachable utc_day [config_job] y" "fi_loop y = Loop_wake" "fi_workers y = [w]" "wk_job w = config_job"
    "wk_at w = Work_done" "sc_jobs (fi_sched y) = [config_job]" "(''report'', ''manual'') \<in> set (sc_queue (fi_sched y))"
    using ending_reachable by blast
  from finish_after_reaping_crashes [OF y(1) _ _ y(2), of w "''manual''"] y(3-7)
  have "\<exists>y'. (fine_step utc_day)\<^sup>*\<^sup>* y y' \<and> dies y'" by (simp add: find_job_def)
  with y(1) show ?thesis by blast
qed



end
