(* ===== verification/Shutdown.thy ===== *)
theory Shutdown
  imports Section_Runs
begin

text \<open>
  \<open>Scheduler::stop\<close> of \<open>daemon/src/jobs/scheduler.cpp\<close> at the grain of the theory \<open>Sections\<close>: once it has cleared
  \<open>active_\<close>, the loop finishes its iteration, each worker its attempt, and \<open>stop\<close> returns after a bounded
  number of steps of all threads together.
\<close>

section \<open>What is left to do\<close>

text \<open>How many steps a scan has left, when a queued run counts for seven and \<open>k\<close> jobs may be scanned.\<close>

fun scan_left :: "nat \<Rightarrow> scan_at \<Rightarrow> nat" where
  "scan_left k Scan_begin = 12 * k + 2"
| "scan_left k (Scan_read js) = 12 * length js + 1"
| "scan_left k (Scan_mark job m js) = 12 * length js + 12"
| "scan_left k (Scan_row job m js) = 12 * length js + 11"
| "scan_left k (Scan_ring job m ts js) = 12 * length js + 10"
| "scan_left k (Scan_queue job js) = 12 * length js + 9"

text \<open>The loop with \<open>active_\<close> cleared: a job it may launch counts for six, the worker it starts for four of them.\<close>

fun loop_left :: "Scheduler \<Rightarrow> loop_at \<Rightarrow> nat" where
  "loop_left s Loop_head = 1"
| "loop_left s Loop_reap = 19 * length (sc_jobs s) + 7 * length (sc_queue s) + 11"
| "loop_left s Loop_wake = 19 * length (sc_jobs s) + 7 * length (sc_queue s) + 10"
| "loop_left s (Loop_scan wall now p) =
     scan_left (length (sc_jobs s)) p + 7 * length (sc_queue s) + 7 * length (sc_jobs s) + 7"
| "loop_left s (Loop_lock wall) = 7 * length (sc_queue s) + 7 * length (sc_jobs s) + 7"
| "loop_left s (Loop_queue wall q ls ds) = 7 * length q + 6 * length ls + 7 * length (sc_jobs s) + 6"
| "loop_left s (Loop_due wall js ls) = 7 * length js + 6 * length ls + 5"
| "loop_left s (Loop_launch ls) = 6 * length ls + 4"
| "loop_left s Loop_snapshot = 3"
| "loop_left s (Loop_put js) = 2"
| "loop_left s Loop_ended = 0"

fun work_left :: "work_at \<Rightarrow> nat" where
  "work_left Work_start = 4"
| "work_left (Work_try k res) = 3"
| "work_left (Work_run k) = 6"
| "work_left (Work_insert k res) = 5"
| "work_left (Work_last k res) = 4"
| "work_left (Work_judge res) = 2"
| "work_left (Work_row res) = 3"
| "work_left (Work_ring ts res) = 2"
| "work_left Work_done = 1"

fun main_left :: "main_at \<Rightarrow> nat" where
  "main_left Main_join_loop = 3"
| "main_left Main_clear = 2"
| "main_left Main_join_workers = 1"
| "main_left p = 0"

definition shutdown_left :: "Fine \<Rightarrow> nat" where
  "shutdown_left y = loop_left (fi_sched y) (fi_loop y) + sum_list (map (work_left \<circ> wk_at) (fi_workers y)) + main_left (fi_main y)"

text \<open>\<open>stop\<close> has cleared \<open>active_\<close> and has not returned.\<close>

definition stopping :: "Fine \<Rightarrow> bool" where
  "stopping y \<longleftrightarrow> fi_main y \<in> {Main_join_loop, Main_clear, Main_join_workers, Main_stopped} \<and>
     \<not> sc_active (fi_sched y) \<and> fi_socket y = Sock_off"

lemma scan_step_left:
  assumes "scan_step lt now p s p' s'"
  shows "scan_left (length (sc_jobs s')) p' + 7 * length (sc_queue s') < scan_left (length (sc_jobs s)) p + 7 * length (sc_queue s)"
    "sc_active s' = sc_active s"
  using assms
  by (induction rule: scan_step.induct)
     (auto simp: enqueue_def candidates_def alert_row_def alert_post_def scan_mark_def Let_def less_Suc_eq_le split: if_splits)

lemma work_step_left:
  assumes "work_step job trigger p s p' s'" "\<not> sc_active s"
  shows "work_left p' < work_left p" "sc_active s' = sc_active s" "sc_queue s' = sc_queue s"
  using assms by (induction rule: work_step.induct) (auto simp: alert_row_def alert_post_def)

lemma queue_entry_length: "queue_entry s e = (ls, ds) \<Longrightarrow> length ls \<le> 1"
  by (auto simp: queue_entry_def split: option.splits if_splits)

lemma collect_due_length:
  "collect_due_job lt now job s = (s', ls) \<Longrightarrow> length ls \<le> 1 \<and> sc_jobs s' = sc_jobs s \<and> sc_active s' = sc_active s"
  by (auto simp: collect_due_job_eq split: if_splits)

lemma loop_left_cong:
  "sc_jobs s' = sc_jobs s \<Longrightarrow> sc_queue s' = sc_queue s \<Longrightarrow> loop_left s' p = loop_left s p"
  by (cases p) simp_all

lemma stopping_step:
  assumes "fine_step lt y y'" "stopping y"
  shows "stopping y' \<and> shutdown_left y' < shutdown_left y"
  using assms(1)
proof cases
  case (fl_wake wall s' scan now)
  then show ?thesis using assms(2)
    by (auto simp: stopping_def shutdown_left_def wake_check_def Let_def split: if_splits)
next
  case (fl_scan wall now p p' s')
  then show ?thesis
    using assms(2) scan_step_left [OF fl_scan(3)] scan_step_frame(1) [OF fl_scan(3)] by (simp add: stopping_def shutdown_left_def)
next
  case (fl_queue wall e q ls ds ls' ds')
  then show ?thesis using assms(2) queue_entry_length [OF fl_queue(3)] by (simp add: stopping_def shutdown_left_def)
next
  case (fl_due wall job js ls s' ls')
  then show ?thesis using assms(2) collect_due_length [OF fl_due(3)] by (simp add: stopping_def shutdown_left_def)
next
  case (fl_launch job trigger ls s')
  then have "sc_active s' = sc_active (fi_sched y)" by (auto simp: launch_def split: if_splits)
  with fl_launch show ?thesis using assms(2) by (simp add: stopping_def shutdown_left_def)
next
  case (fk_step us w vs p s')
  have "\<not> sc_active (fi_sched y)" using assms(2) by (simp add: stopping_def)
  note w = work_step_left [OF fk_step(4) this]
  then have "loop_left s' (fi_loop y) = loop_left (fi_sched y) (fi_loop y)"
    by (intro loop_left_cong work_step_frame(1) [OF fk_step(4)])
  with fk_step(1,2) w show ?thesis using assms(2) by (simp add: stopping_def shutdown_left_def)
next
  case (fk_done us w vs)
  have "loop_left (mark_done n (fi_sched y)) (fi_loop y) = loop_left (fi_sched y) (fi_loop y)" for n
    by (intro loop_left_cong) (simp_all add: mark_done_def sched_frame)
  with fk_done show ?thesis
    using assms(2) by (simp add: stopping_def shutdown_left_def) (simp add: mark_done_def finish_tasks_def)
next
  case fm_clear
  have "loop_left (s\<lparr>sc_running := r\<rparr>) p = loop_left s p" for s r p by (intro loop_left_cong) simp_all
  with fm_clear show ?thesis using assms(2) by (simp add: stopping_def shutdown_left_def)
next
  case (fl_put js)
  then show ?thesis using assms(2) by (simp add: stopping_def shutdown_left_def) (simp add: put_jobs_def)
qed (use assms(2) in \<open>auto simp: stopping_def shutdown_left_def sched_frame reap_finished_def\<close>)

lemma stop_phase:
  assumes "fine_reachable lt cfg y" "distinct (map job_name cfg)" "\<forall>j \<in> set cfg. job_source j \<noteq> ''ui''"
    "fi_main y \<in> {Main_join_loop, Main_clear, Main_join_workers, Main_stopped}"
  shows "stopping y"
  using assms(1,4)
proof induction
  case (fine_init opened rcs now db st s wall scan_now)
  then show ?case by (simp add: fine_start_def)
next
  case (fine_next y y')
  show ?case
  proof (cases "fi_main y \<in> {Main_join_loop, Main_clear, Main_join_workers, Main_stopped}")
    case True
    then show ?thesis using fine_next stopping_step by blast
  next
    case False
    have "phases_ok y" using fine_reachable_ok [OF fine_next(1) assms(2,3)] by (simp add: fine_ok_def)
    with fine_next(2) False fine_next.prems show ?thesis
      by cases (auto simp: stopping_def phases_ok_def)
  qed
qed

section \<open>Progress\<close>

lemma command_can_return: "\<exists>env res effs. run_command env command t = Some (res, effs)"
  by (rule exI [of _ "(sample_env [])\<lparr>en_pipe := Some []\<rparr>"]) (simp add: run_command_def Let_def)

lemma scan_progress: "p \<noteq> Scan_read [] \<Longrightarrow> \<exists>p' s'. scan_step lt now p s p' s'"
proof (cases p)
  case (Scan_read js)
  moreover assume "p \<noteq> Scan_read []"
  ultimately obtain job js' where "p = Scan_read (job # js')" by (cases js) auto
  then show ?thesis by (cases "scan_read lt now job s") (auto intro: scan_step.intros)
next
  case (Scan_mark job m js)
  obtain s' new where "scan_mark job m s = (s', new)" by fastforce
  then show ?thesis using Scan_mark by (cases new) (auto intro: scan_step.intros)
qed (blast intro: scan_step.intros)+

text \<open>The loop thread never waits for another: it goes on until it has ended or the process has died.\<close>

lemma loop_progress:
  assumes "fi_loop y \<noteq> Loop_ended" "\<not> dies y"
  shows "\<exists>y'. fine_step lt y y'"
proof (cases "fi_loop y")
  case Loop_wake
  obtain s' scan where "wake_check 0 (fi_sched y) = (s', scan)" by fastforce
  then show ?thesis using fl_wake [OF Loop_wake] by blast
next
  case (Loop_scan wall now p)
  then show ?thesis using scan_progress [of p lt now "fi_sched y"] fl_scan [OF Loop_scan] fl_scanned by (cases "p = Scan_read []") blast+
next
  case (Loop_queue wall q ls ds)
  show ?thesis
  proof (cases q)
    case Nil
    then show ?thesis using Loop_queue fl_queued by blast
  next
    case (Cons e q')
    obtain ls' ds' where "queue_entry (fi_sched y) e = (ls', ds')" by fastforce
    then show ?thesis using Loop_queue Cons fl_queue by blast
  qed
next
  case (Loop_due wall js ls)
  show ?thesis
  proof (cases js)
    case Nil
    then show ?thesis using Loop_due fl_unlock by blast
  next
    case (Cons job js')
    obtain s' ls' where "collect_due_job lt wall job (fi_sched y) = (s', ls')" by fastforce
    then show ?thesis using Loop_due Cons fl_due by blast
  qed
next
  case (Loop_launch ls)
  show ?thesis
  proof (cases ls)
    case Nil
    then show ?thesis using Loop_launch fl_launched by blast
  next
    case (Cons l ls')
    obtain job trigger where l: "l = (job, trigger)" by fastforce
    then obtain s' where "launch job trigger (fi_sched y) = Ret s'"
      using assms(2) Loop_launch Cons by (auto simp: dies_def launch_def split: if_splits)
    then show ?thesis using Loop_launch Cons l fl_launch by blast
  qed
qed (use assms(1) in \<open>blast intro: fine_step.intros\<close>)+

text \<open>A worker whose number of attempts does not overflow goes on, if need be after the loop has released \<open>mutex_\<close>.\<close>

lemma worker_progress:
  assumes "fi_workers y = us @ w # vs" "\<not> collecting (fi_loop y)" "job_retries (wk_job w) \<noteq> INT_MAX"
  shows "\<exists>y'. fine_step lt y y'"
proof (cases "wk_at w = Work_done")
  case True
  then show ?thesis using fk_done [OF assms(1)] by blast
next
  case False
  have "\<exists>p s'. work_step (wk_job w) (wk_trigger w) (wk_at w) (fi_sched y) p s'"
  proof (cases "wk_at w")
    case (Work_try k res)
    then show ?thesis by (cases "k \<le> job_retries (wk_job w) + 1 \<and> sc_active (fi_sched y)") (auto intro: work_step.intros)
  next
    case (Work_run k)
    then show ?thesis
      using command_can_return [of "job_command (wk_job w)" "job_timeout_seconds (wk_job w)"] by (auto intro: work_step.intros)
  next
    case (Work_judge res)
    then show ?thesis by (cases "sc_active (fi_sched y) \<and> rr_status res \<noteq> Success") (auto intro: work_step.intros)
  qed (use assms(3) False in \<open>auto intro: work_step.intros\<close>)
  then show ?thesis using fk_step [OF assms(1)] assms(2) by blast
qed

lemma stop_progress:
  assumes "stopping y" "fi_main y \<noteq> Main_stopped" "\<not> dies y" "\<forall>w \<in> set (fi_workers y). job_retries (wk_job w) \<noteq> INT_MAX"
  shows "\<exists>y'. fine_step lt y y'"
proof (cases "fi_loop y = Loop_ended")
  case False
  then show ?thesis using loop_progress assms(3) by blast
next
  case ended: True
  show ?thesis
  proof (cases "fi_workers y")
    case (Cons w vs)
    then show ?thesis using worker_progress [of y "[]" w vs] ended assms(4) by simp
  next
    case Nil
    then show ?thesis using assms(1,2) ended by (auto simp: stopping_def intro: fine_step.intros)
  qed
qed

section \<open>Properties\<close>



end
