(* ===== verification/Conformance.thy ===== *)
theory Conformance
  imports System
begin

text \<open>
  The checks of \<open>tests/test_main.cpp\<close> that do not depend on the machine they run on, replayed on the model:
  the same inputs are given to the definitions, and the result is the one the test expects. They
  compare the definitions with behaviour the authors of the program wrote down themselves.
\<close>

section \<open>Cron\<close>

lemma test_cron_malformed: "parse ''nonsense'' = Ret None"
  by code_simp

lemma test_cron_field_count: "parse ''0 8 * *'' = Ret None"
  by code_simp

definition daily :: CronSchedule where
  "daily = \<lparr>cs_fields = [{0}, {8}, {1..31}, {1..12}, {0..7}], dom_wildcard = True, dow_wildcard = True\<rparr>"

lemma test_cron_next_daily:
  assumes "0 \<le> base" "next_after lt daily base = Some t"
  shows "tm_hour (lt t) = 8 \<and> tm_min (lt t) = 0 \<and> base < t"
  using cron.nxt_Some [OF assms] by (auto simp: occurs_def matches_def daily_def Let_def split: if_splits)

lemma test_cron_quarter:
  assumes "next_after lt every_quarter 1700000000 = Some t"
  shows "tm_min (lt t) mod 15 = 0"
  using cron.nxt_Some [OF _ assms] by (auto simp: occurs_def matches_def every_quarter_def Let_def split: if_splits)

lemma test_cron_prev_quarter:
  assumes "prev_before lt every_quarter 1700000000 = Some t"
  shows "t \<le> 1700000000 \<and> tm_min (lt t) mod 15 = 0"
  using cron.prv_Some [OF _ assms] by (auto simp: occurs_def matches_def every_quarter_def Let_def split: if_splits)

section \<open>Missed runs\<close>

text \<open>An occurrence at 08:00, looked at from noon: missed when the job never ran or ran the day before, not
  when it ran at 08:05.\<close>

lemma test_missed_run_detection:
  assumes "prev_before lt daily midday = Some eight" "0 < eight"
  shows "detect_missed_run lt daily 0 midday \<noteq> None" "detect_missed_run lt daily (eight + 300) midday = None"
    "detect_missed_run lt daily (eight + 300 - 24 * 3600) midday \<noteq> None"
  using assms by (simp_all add: detect_missed_run_def)

section \<open>The alert engine\<close>

definition make_rule :: "string \<Rightarrow> Condition \<Rightarrow> real \<Rightarrow> int \<Rightarrow> int \<Rightarrow> string \<Rightarrow> Rule" where
  "make_rule metric cond threshold duration cooldown severity =
     default_Rule\<lparr>rule_name := metric @ ''-rule'', rule_metric := metric, rule_condition := cond,
       rule_threshold := Fin threshold, rule_duration_seconds := duration, rule_cooldown_seconds := cooldown,
       rule_severity := severity\<rparr>"

definition never_quiet :: QuietHours where
  "never_quiet = \<lparr>qh_enabled = False, qh_start_hour = 0, qh_end_hour = 0\<rparr>"

text \<open>The kinds of the events of successive evaluations of one metric.\<close>

fun kinds :: "Rule \<Rightarrow> RuleState \<Rightarrow> (real \<times> int) list \<Rightarrow> string list list" where
  "kinds rule st [] = []"
| "kinds rule st ((v, now) # obs) =
     (let (st', evs) = rule_step (\<lambda>_. []) rule False [rule_metric rule \<mapsto> Fin v] now [] st
      in map ev_kind evs # kinds rule st' obs)"

lemmas alert_eval = make_rule_def default_Rule_def rule_step_def init_RuleState_def dbl_le_def Let_def

lemma test_alert_duration_gate:
  "kinds (make_rule ''system.cpu.percent'' GreaterThan 90 60 300 ''warning'') init_RuleState
     [(95, 1000), (95, 1030), (95, 1060), (10, 1090)] = [[], [], [''firing''], [''recovered'']]"
  by (simp add: alert_eval)

lemma test_alert_cooldown:
  "kinds (make_rule ''system.cpu.percent'' GreaterThan 90 0 300 ''warning'') init_RuleState
     [(95, 1000), (10, 1010), (95, 1100), (95, 1400)] = [[''firing''], [''recovered''], [], [''firing'']]"
  by (simp add: alert_eval)

lemma test_alert_low_disk:
  "kinds (make_rule ''system.disk.available_gb'' LessThan 10 0 0 ''warning'') init_RuleState [(8.4, 500)] = [[''firing'']]"
  by (simp add: alert_eval)

lemma test_alert_attribution:
  "map ev_attribution (snd (evaluate lt sd [''system.cpu.percent'' \<mapsto> Fin 99] 100 ''Chrome 184% CPU''
     (new_engine [make_rule ''system.cpu.percent'' GreaterThan 90 0 0 ''warning''] never_quiet))) = [''Chrome 184% CPU'']"
  by (simp add: alert_eval evaluate_def new_engine_def in_quiet_hours_def never_quiet_def state_of_def)

lemma test_alert_quiet_hours:
  assumes "0 \<le> tm_hour (lt 100)" "tm_hour (lt 100) < 24"
  shows "map (\<lambda>e. (ev_severity e, ev_notify e))
    (snd (evaluate lt sd [''system.cpu.percent'' \<mapsto> Fin 95, ''system.memory.percent'' \<mapsto> Fin 95] 100 []
      (new_engine [make_rule ''system.cpu.percent'' GreaterThan 90 0 0 ''warning'',
                   make_rule ''system.memory.percent'' GreaterThan 90 0 0 ''critical'']
         \<lparr>qh_enabled = True, qh_start_hour = 0, qh_end_hour = 24\<rparr>))) =
    [(''warning'', False), (''critical'', True)]"
  using assms by (simp add: alert_eval evaluate_def new_engine_def in_quiet_hours_def state_of_def)

section \<open>The database\<close>

lemma test_database_latest:
  "latest_metric Read_complete ''system.cpu.percent'' empty_Database = Ret None"
  "latest_metric Read_complete ''system.cpu.percent''
     (fst (insert_metric (Write_done 2) 2000 ''system.cpu.percent'' (Fin 55)
       (fst (insert_metric (Write_done 1) 1000 ''system.cpu.percent'' (Fin 42.5) empty_Database)))) =
   Ret (Some (2000, Fin 55))"
proof -
  have c: "c_str ''system.cpu.percent'' = ''system.cpu.percent''"
    by (rule c_str_id) (simp add: nul_free_def code_of_def)
  show "latest_metric Read_complete ''system.cpu.percent'' empty_Database = Ret None"
    by (simp add: latest_metric_def fetch_def limit_rows_def newest_first_def first_row_def empty_Database_def)
  show "latest_metric Read_complete ''system.cpu.percent''
     (fst (insert_metric (Write_done 2) 2000 ''system.cpu.percent'' (Fin 55)
       (fst (insert_metric (Write_done 1) 1000 ''system.cpu.percent'' (Fin 42.5) empty_Database)))) =
   Ret (Some (2000, Fin 55))"
    by (simp add: latest_metric_def insert_metric_def write_stmt_def fetch_def limit_rows_def newest_first_def
        first_row_def empty_Database_def c)
qed

section \<open>The thermal state\<close>

lemma test_thermal:
  "thermal_to_string (sample_thermal_state r) \<in> {''nominal'', ''fair'', ''serious'', ''critical''}"
  "thermal_state_from_string ''serious'' = Serious" "thermal_state_from_string ''bogus'' = Nominal"
  by (cases r; simp add: thermal_state_from_string_def)+

section \<open>The process runner\<close>

lemma test_run_echo:
  "\<exists>r effs. run_command (sample_env [hello_poll, eof_poll 9]) ''echo hello'' 0 = Some (r, effs) \<and>
     rr_status r = Success \<and> rr_exit_code r = 0 \<and> rr_stdout_text r = ''hello''"
  by (simp add: sample_run_defs)

lemma test_run_exit_code:
  "\<exists>r effs. run_command ((sample_env [eof_poll 9])\<lparr>en_wait := Some (Wait_exited 3)\<rparr>) ''exit 3'' 0 = Some (r, effs) \<and>
     rr_status r = Failed \<and> rr_exit_code r = 3"
  by (simp add: sample_run_defs)

lemma test_run_timeout:
  "\<exists>r effs. run_command ((sample_env [late_poll, eof_poll 1000000001])\<lparr>en_wait := Some (Wait_signaled 9)\<rparr>) ''sleep 5'' 1 =
      Some (r, effs) \<and> rr_status r = Timeout"
  by (simp add: sample_run_defs)

section \<open>The scheduler\<close>

text \<open>\<open>exit 1\<close> with two retries: three failed runs are stored.\<close>

definition flaky :: Job where
  "flaky = default_Job\<lparr>job_name := ''flaky'', job_command := ''exit 1'', job_retries := 2\<rparr>"

definition failed_try :: "int \<Rightarrow> attempt_env" where
  "failed_try i = \<lparr>at_active = True, at_run = (sample_env [eof_poll 9])\<lparr>en_wait := Some (Wait_exited 1)\<rparr>, at_rc = Write_done i\<rparr>"

lemma failed_run:
  "\<exists>effs. run_command (at_run (failed_try i)) ''exit 1'' 0 =
     Some (\<lparr>rr_status = Failed, rr_exit_code = 1, rr_started_at = 1000, rr_ended_at = 4600, rr_duration_ms = 3600000,
       rr_stdout_text = [], rr_stderr_text = [], rr_stdout_truncated = False, rr_stderr_truncated = False, rr_error = []\<rparr>, effs)"
  by (simp add: failed_try_def sample_run_defs)

lemma test_scheduler_retries:
  "\<exists>s' ns. worker [failed_try 1, failed_try 2, failed_try 3] True (9, Write_done 1) flaky ''manual'' fresh_state =
      Ret (Some (s', ns)) \<and> count_runs Read_complete ''flaky'' (sc_db s') = Ret 3 \<and>
    map run_status (db_runs (sc_db s')) = [''failed'', ''failed'', ''failed'']"
proof -
  have c: "c_str ''flaky'' = ''flaky''" "c_str ''failed'' = ''failed''" by code_simp+
  have db: "sc_db fresh_state = empty_Database" by (simp add: fresh_state_def publish_status_def)
  obtain e1 e2 e3 where runs: "run_command (at_run (failed_try 1)) ''exit 1'' 0 = Some (\<lparr>rr_status = Failed, rr_exit_code = 1,
      rr_started_at = 1000, rr_ended_at = 4600, rr_duration_ms = 3600000, rr_stdout_text = [], rr_stderr_text = [],
      rr_stdout_truncated = False, rr_stderr_truncated = False, rr_error = []\<rparr>, e1)"
    "run_command (at_run (failed_try 2)) ''exit 1'' 0 = Some (\<lparr>rr_status = Failed, rr_exit_code = 1,
      rr_started_at = 1000, rr_ended_at = 4600, rr_duration_ms = 3600000, rr_stdout_text = [], rr_stderr_text = [],
      rr_stdout_truncated = False, rr_stderr_truncated = False, rr_error = []\<rparr>, e2)"
    "run_command (at_run (failed_try 3)) ''exit 1'' 0 = Some (\<lparr>rr_status = Failed, rr_exit_code = 1,
      rr_started_at = 1000, rr_ended_at = 4600, rr_duration_ms = 3600000, rr_stdout_text = [], rr_stderr_text = [],
      rr_stdout_truncated = False, rr_stderr_truncated = False, rr_error = []\<rparr>, e3)"
    using failed_run by metis
  have t: "at_active (failed_try i)" "at_rc (failed_try i) = Write_done i" for i by (simp_all add: failed_try_def)
  show ?thesis
    by (simp add: worker_def flaky_def default_Job_def INT_MAX_def runs t record_attempt_def run_record_def insert_run_def
        write_stmt_def db empty_Database_def stored_run_def emit_alert_def insert_alert_def mark_done_def finish_tasks_def
        count_runs_def fetch_def runs_of_def c to_int32_def Let_def split_beta)
qed

text \<open>\<open>add_job\<close> and \<open>remove_job\<close>: a duplicate and an unknown name are refused.\<close>

lemma test_dynamic_jobs:
  "snd (add_job utc_day 1000 (Write_done 1) backup_job fresh_state) = []"
  "snd (add_job utc_day 1000 (Write_done 1) backup_job added_state) \<noteq> []"
  "snd (remove_job (Write_done 1) ''missing'' added_state) \<noteq> []"
  "snd (remove_job (Write_done 1) ''backup'' added_state) = []"
proof -
  have f: "find_job ''backup'' (sc_jobs added_state) = Some (backup_job\<lparr>job_source := ''ui''\<rparr>)"
    "find_job ''missing'' (sc_jobs added_state) = None"
    by (simp_all add: added_jobs find_job_def config_job_def backup_job_def default_Job_def)
  show "snd (add_job utc_day 1000 (Write_done 1) backup_job fresh_state) = []" using backup_accepted by fastforce
  show "snd (add_job utc_day 1000 (Write_done 1) backup_job added_state) \<noteq> []"
    using f(1) by (simp add: add_job_def backup_job_def default_Job_def quoted_def)
  show "snd (remove_job (Write_done 1) ''missing'' added_state) \<noteq> []"
    by (simp add: remove_job_def f(2) quoted_def)
  show "snd (remove_job (Write_done 1) ''backup'' added_state) = []"
    using f(1) by (simp add: remove_job_def delete_job_def_def write_stmt_def)
qed

section \<open>The request API\<close>

definition test_api :: "unit Api" where
  "test_api = new_Api (\<lambda>_. set_cpu (Fin 33.3) 12345 init_SharedState) 999 [] (Throw []) (\<lambda>_. empty_Database)"

lemma test_api_ping:
  "\<exists>a. respond doc_lib test_api doc_request ''ping'' () = ((), Ret a) \<and> member ''ok'' a = Some (JBool True) \<and>
     member ''reply'' a = Some (JString ''pong'')"
  by (simp add: respond_def doc_requests)

lemma test_api_unknown:
  "\<exists>a. respond doc_lib test_api doc_request ''bogus'' () = ((), Ret a) \<and> member ''ok'' a = Some (JBool False)"
proof -
  have "parse_request doc_lib ''bogus'' = \<lparr>rq_cmd = ''bogus'', rq_arg = [], rq_arg2 = []\<rparr>" by code_simp
  then show ?thesis by (simp add: respond_def)
qed

lemma test_api_no_database:
  "\<exists>a. respond doc_lib test_api doc_request ''history testm'' () = ((), Ret a) \<and> member ''ok'' a = Some (JBool False)"
proof -
  have "parse_request doc_lib ''history testm'' = \<lparr>rq_cmd = ''history'', rq_arg = ''testm'', rq_arg2 = []\<rparr>" by code_simp
  then show ?thesis by (simp add: respond_def history_reply_def test_api_def new_Api_def error_reply_def)
qed

end
