(* ===== verification/Spec2Isabelle.thy ===== *)
theory Spec2Isabelle
  imports Config Shared_State Alert_Engine Notifier Process_Runner Database Scheduler_Loop Api Socket_Server
    Metrics Sampler Daemon Client Lifecycle Log Connection Signals Threads System Sections Section_Runs Shutdown Conformance
begin

text \<open>
  AgentPulse: a verification of the daemon.

  \<^bold>\<open>The program.\<close> \<open>agentpulsed\<close> (\<open>src/daemon/src\<close>) is a macOS daemon with three kinds of threads around one shared
  snapshot. The main thread samples the machine and evaluates alert rules (\<open>main.cpp\<close>, \<open>metrics/\<close>,
  \<open>alerts/\<close>). The scheduler thread runs jobs by cron schedules or on request, each job in a worker
  thread of its own, and recovers runs that were missed while the machine slept (\<open>jobs/\<close>, \<open>schedule/\<close>). The
  accept thread answers requests on a Unix socket (\<open>ipc/\<close>); it reaches the scheduler through three
  call-backs. All of them write to SQLite (\<open>db.cpp\<close>), and to \<open>SharedState\<close>, which the API reads.

  \<^bold>\<open>The theories\<close>, in the order of their imports:

  \<^item> \<open>Prelude\<close>: outcomes of C++ code (\<open>cxx\<close>: a value, an exception, undefined behaviour, \<open>std::terminate\<close>), the
    part of the string library the code uses, \<open>double\<close>s, and step functions that emit events.
  \<^item> \<open>Cron\<close> (\<open>schedule/cron.cpp\<close>): the parser, \<open>matches\<close>, \<open>next_after\<close> and \<open>prev_before\<close>. Printed expressions parse
    back; the searches return the least and greatest occurrence (locale \<open>calendar\<close>).
  \<^item> \<open>Config\<close> (\<open>config/config.cpp\<close>): the loader over an abstract YAML library, and its validation.
  \<^item> \<open>Log\<close> (\<open>log.cpp\<close>): the levels, the filter and the bytes of a line; a log of plain messages reads back, and
    a line feed in a message forges an entry.
  \<^item> \<open>Thermal\<close>, \<open>Metrics\<close> (\<open>metrics/\<close>): the collectors with the kernel's counters at their widths.
  \<^item> \<open>Shared_State\<close> (\<open>shared_state.hpp\<close>): the snapshot and the ring of recent alerts (locale \<open>alert_ring\<close>).
  \<^item> \<open>Alert_Engine\<close> (\<open>alerts/alert_engine.cpp\<close>): the rules over time. Each rule behaves as if it were alone;
    firings are justified, happen, alternate with recoveries and respect the cooldown.
  \<^item> \<open>Notifier\<close> (\<open>alerts/notifier.cpp\<close>): the AppleScript text, and that no message escapes its literal.
  \<^item> \<open>Process_Runner\<close> (\<open>jobs/process_runner.cpp\<close>): \<open>run_command\<close> over the outcomes of poll, read and waitpid.
  \<^item> \<open>Database\<close> (\<open>db.cpp\<close>): every statement on tables as lists (locale \<open>job_store\<close>).
  \<^item> \<open>Connection\<close> (\<open>db.cpp\<close>): the ownership of a SQLite connection by the objects of class \<open>Database\<close> (no double
    close, and the one way to leak), the schema of \<open>migrate\<close>, and that every statement of the code fits it.
  \<^item> \<open>Scheduler\<close> (\<open>jobs/scheduler.cpp\<close>): all member functions; \<open>Scheduler_Invariant\<close>: the scheduler as a state
    machine (\<open>sched_step\<close>, \<open>reachable\<close>) with its invariant, and that a restart loses nothing;
    \<open>Scheduler_Loop\<close>: what a round launches, missed runs, workers and their retries, and the two ways a
    round terminates the process; \<open>Threads\<close>: the scheduler's threads at the grain of its locks, with
    \<open>publish_status\<close> split where it releases the mutex. The published list may be stale, and converges.
  \<^item> \<open>Json\<close>: values, UTF-8, and the documented behaviour of the serialiser. \<open>Api\<close> (\<open>ipc/api.cpp\<close>): requests,
    answers and the dispatch, over the handlers' contract (locales \<open>job_control\<close> and \<open>displayed_control\<close>).
  \<^item> \<open>Socket_Server\<close> (\<open>ipc/socket_server.cpp\<close>): one exchange, the accept loop, starting and stopping, over the
    contract of a line handler (locale \<open>line_service\<close>).
  \<^item> \<open>Sampler\<close> (\<open>sampler_loop\<close> of \<open>main.cpp\<close>): one definition per stretch of the loop body.
  \<^item> \<open>Signals\<close> (\<open>handle_signal\<close>, \<open>install_signal_handlers\<close> and the loop head in \<open>main.cpp\<close>): which signals end the
    loop and which reload the rules.
  \<^item> \<open>Daemon\<close> (\<open>main\<close> of \<open>main.cpp\<close>): the wiring. The scheduler is interpreted as the handlers the API expects, and
    the API as the handler the server expects, so that their theorems compose.
  \<^item> \<open>Client\<close> (\<open>paths.cpp\<close>, \<open>src/cli/src/main.cpp\<close>): the paths, the client, and the round trip of a request
    between the client's loops and the server's.
  \<^item> \<open>Lifecycle\<close> (\<open>main\<close> of \<open>main.cpp\<close>, \<open>power/sleep_monitor.cpp\<close>): start-up with its exit codes, shut-down, and the
    sleep monitor. The configuration that is loaded gives the scheduler the start its invariant needs.
  \<^item> \<open>System\<close>: the running daemon as one transition system (\<open>system_step\<close>): the scheduler's threads, the writes of
    the sampler one by one, requests and signals, over one database and one \<open>SharedState\<close>. From any
    successful start-up its invariant holds under every interleaving, history only grows (locale
    \<open>monotone_steps\<close>), and a crash between any two steps loses no job. A served request is shown to be
    a sequence of these steps, and a round of the sampler to be its writes.
  \<^item> \<open>Sections\<close> (\<open>jobs/scheduler.cpp\<close>): the scheduler with every critical section a step (\<open>fine_step\<close>) and every thread
    at a position in the code, with an invariant of each moment between two sections. \<open>Section_Runs\<close>: a whole
    round, request or worker is its sections run in a row; a crash between any two sections leaves a request
    done or not done; a job never runs twice at once; concurrent scans recover an occurrence once; and a
    run that ends while the loop collects terminates the process. \<open>Shutdown\<close>: \<open>Scheduler::stop\<close> returns, with
    a bound on the steps that are left.
  \<^item> \<open>Conformance\<close>: the checks of \<open>tests/test_main.cpp\<close> replayed on the definitions.

  \<^bold>\<open>How code becomes definitions.\<close> A struct or class is a \<open>record\<close> with a prefix per type, an enumeration a
  \<open>datatype\<close>, a member function a function from the record to the record and its result. A \<open>try\<close> that
  catches is a case distinction on \<open>cxx\<close>. What the world answers is an argument: system calls and
  SQLite as lists or functions of outcomes, \<open>localtime_r\<close>, number formatting, the YAML and JSON
  libraries and \<open>std::partial_sort\<close> as functions with their documented behaviour as named hypotheses
  (\<open>dump_documented\<close>, \<open>partial_sorts\<close>); every such hypothesis has a concrete instance in a witness. Where
  a loop waits for the world, the outcomes are a list, and a list that ends early is a thread that still
  waits; theorems that code returns say how long a list is enough.

  \<^bold>\<open>Threads.\<close> The member functions of \<open>SharedState\<close> hold its mutex and are atomic. \<open>Scheduler_Invariant\<close> takes each operation
  of the scheduler as one step, publication included; \<open>Threads\<close> refines this to the change, the snapshot
  and the store of \<open>publish_status\<close>, and \<open>System\<close> adds the sampler with one step per write. \<open>Sections\<close>
  takes every critical section of the scheduler as a step: each block under \<open>mutex_\<close> or \<open>db_mutex_\<close>, each call of
  \<open>SharedState\<close> and each access to an atomic, with \<open>mutex_\<close> held while the loop collects. The whole operations are
  runs of these steps. Still one step there are the reaping and a snapshot, which read the flags of several
  workers one after the other. A request reads
  the snapshots one after the other; the model reads them in one state.

  \<^bold>\<open>Numbers.\<close> An \<open>int\<close> is an integer, with overflow an outcome of its own where the code can reach it (the cron
  step, the retries, the time-out of poll). Kernel counters and byte counts are 32 and 64-bit words
  that wrap. Times are integers; 64-bit time never overflows. A \<open>double\<close> is a real number, an
  infinity or NaN, without rounding.

  \<^bold>\<open>Bounds.\<close> \<open>shutdown_left\<close> bounds the steps after \<open>stop\<close> has cleared \<open>active_\<close>: at most one more iteration of the
  loop, whose cost is linear in the jobs and the queue, and the rest of one attempt of each worker. No
  definition uses fuel.

  \<^bold>\<open>Not modelled.\<close> Which messages each component logs and what \<open>--help\<close> and \<open>--version\<close> print; the run loop of
  the sleep monitor and the other libraries (SQLite, yaml-cpp, nlohmann::json, Mach, IOKit, Foundation), whose
  answers are inputs; the order in which C++ destroys the remaining objects at the end of \<open>main\<close>; the
  Swift application. The tests are not modelled but replayed.
\<close>

end
